(* ===== verification/Prelude.thy ===== *)
theory Prelude
  imports Main "HOL-Library.Word"
begin

text \<open>
  Shared vocabulary of the development: the machine types of the Rust code, strings as
  sequences of UTF-8 bytes, the outcome of code that may panic, the big-endian reading of
  byte sequences, and the lemma collections the component theories extend.

  \<^item> \<open>tag\<close> is a Rust \<open>String\<close>, kept as the list of its UTF-8 bytes (an Isabelle
    \<open>char\<close> is one byte), so \<open>length\<close> is Rust's \<open>len()\<close>.
  \<^item> \<open>outcome\<close> separates a value from a panic; \<open>unwrap\<close> is Rust's \<open>Option::unwrap\<close>.
  \<^item> instants (\<open>std::time::Instant\<close>) and durations are natural numbers of nanoseconds;
    a \<open>SystemTime\<close> is an integer number of nanoseconds since the Unix epoch, negative before
    it.
\<close>

section \<open>Types\<close>

type_synonym byte = "8 word"
type_synonym u16 = "16 word"
type_synonym u32 = "32 word"
type_synonym u64 = "64 word"
type_synonym tag = string
type_synonym instant = nat
type_synonym duration = nat
type_synonym sys_time = int

text \<open>
  An \<open>f64\<close> is only stored and forwarded by the runtime, never computed with: it is kept
  as its 64-bit pattern.
\<close>

type_synonym f64 = "64 word"

section \<open>Panics as values\<close>

datatype 'a outcome = Ret 'a | Panic

primrec and_then :: "'a outcome \<Rightarrow> ('a \<Rightarrow> 'b outcome) \<Rightarrow> 'b outcome" where
  "and_then (Ret x) f = f x"
| "and_then Panic f = Panic"

primrec unwrap :: "'a option \<Rightarrow> 'a outcome" where
  "unwrap (Some x) = Ret x"
| "unwrap None = Panic"

lemma and_then_eq_Ret [simp]:
  "and_then m f = Ret y \<longleftrightarrow> (\<exists>x. m = Ret x \<and> f x = Ret y)"
  by (cases m) auto

lemma and_then_eq_Panic:
  "and_then m f = Panic \<longleftrightarrow> m = Panic \<or> (\<exists>x. m = Ret x \<and> f x = Panic)"
  by (cases m) auto

lemma unwrap_eq_Ret [simp]: "unwrap r = Ret x \<longleftrightarrow> r = Some x"
  by (cases r) auto

lemma unwrap_eq_Panic [simp]: "unwrap r = Panic \<longleftrightarrow> r = None"
  by (cases r) auto

lemma outcome_not_Panic: "m \<noteq> Panic \<longleftrightarrow> (\<exists>x. m = Ret x)"
  by (cases m) auto

section \<open>Lemma collections\<close>

named_theorems frame_simps \<open>what an operation leaves unchanged\<close>
named_theorems inv_intros \<open>an operation keeps a component's invariant\<close>
named_theorems wire_simps \<open>the bytes an operation puts on or takes off the wire\<close>

section \<open>Lists and maps\<close>

lemma take_drop_split:
  "n + m \<le> length xs \<Longrightarrow> take n xs @ take m (drop n xs) = take (n + m) xs"
  by (simp add: take_add)

lemma dom_fun_upd_None [simp]: "dom (m(k := None)) = dom m - {k}"
  by (auto simp: dom_def)

lemma filter_append_singleton:
  "filter P (xs @ [x]) = filter P xs @ (if P x then [x] else [])"
  by simp

lemma subset_insert_remove: "A \<subseteq> B \<Longrightarrow> A - {x} \<subseteq> B - {x}"
  by blast

lemma sum_list_map_update:
  "i < length xs \<Longrightarrow> sum_list (map f (xs[i := x])) + f (xs ! i) = sum_list (map f xs) + (f x :: nat)"
proof (induction xs arbitrary: i)
  case Nil
  then show ?case by simp
next
  case (Cons y ys)
  then show ?case by (cases i) auto
qed

section \<open>Big-endian byte sequences\<close>

text \<open>
  \<open>be n x\<close> is the big-endian form of \<open>x\<close> on \<open>n\<close> bytes (the high part beyond them
  is lost), \<open>un_be\<close> reads a byte sequence back.
\<close>

primrec be :: "nat \<Rightarrow> nat \<Rightarrow> byte list" where
  "be 0 x = []"
| "be (Suc n) x = word_of_nat (x div 256 ^ n) # be n x"

definition un_be :: "byte list \<Rightarrow> nat" where
  "un_be bs = foldl (\<lambda>acc b. acc * 256 + unat b) 0 bs"

lemma length_be [simp]: "length (be n x) = n"
  by (induction n) auto

lemma unat_byte_of_nat: "unat (word_of_nat x :: byte) = x mod 256"
  by (simp add: unat_of_nat)

lemma foldl_be: "foldl (\<lambda>acc b. acc * 256 + unat b) a (be n x) = a * 256 ^ n + x mod 256 ^ n"
proof (induction n arbitrary: a)
  case 0
  then show ?case by simp
next
  case (Suc n)
  have "x mod 256 ^ Suc n = x div 256 ^ n mod 256 * 256 ^ n + x mod 256 ^ n"
    using mod_mult2_eq [of x "256 ^ n" 256] by (simp add: mult.commute)
  with Suc show ?case by (simp add: unat_byte_of_nat algebra_simps)
qed

lemma un_be_be [simp]: "un_be (be n x) = x mod 256 ^ n"
  by (simp add: un_be_def foldl_be)

lemma un_be_bound: "un_be bs < 256 ^ length bs"
proof (induction bs rule: rev_induct)
  case Nil
  then show ?case by (simp add: un_be_def)
next
  case (snoc b bs)
  have "unat b < 256" by (rule order.strict_trans2 [OF unsigned_less]) simp
  moreover have "un_be bs * 256 + 256 \<le> 256 ^ length bs * 256"
    using snoc by (metis Suc_leI mult_le_mono1 add.commute mult_Suc)
  ultimately show ?case by (simp add: un_be_def)
qed

lemma byte_mult_256: "(word_of_nat (x * 256 + unat b) :: byte) = b"
proof -
  have "(x * 256 + unat b) mod 256 = unat b"
    using unsigned_less [of b, where 'a = nat] by simp
  then have "unat (word_of_nat (x * 256 + unat b) :: byte) = unat b"
    by (simp only: unat_of_nat) simp
  then show ?thesis by (simp only: word_unat_eq_iff)
qed

lemma be_append_byte: "be (Suc n) (x * 256 + unat (b :: byte)) = be n x @ [b]"
proof (induction n)
  case 0
  show ?case by (simp only: be.simps power_0 div_by_1 byte_mult_256 append_Nil)
next
  case (Suc n)
  have "unat b < 256" using unsigned_less [of b, where 'a = nat] by simp
  then have "(x * 256 + unat b) div 256 ^ Suc n = x div 256 ^ n"
    by (simp add: div_mult2_eq)
  then have "be (Suc (Suc n)) (x * 256 + unat b) = word_of_nat (x div 256 ^ n) # be (Suc n) (x * 256 + unat b)"
    by (simp only: be.simps(2) [of "Suc n"])
  with Suc show ?case by simp
qed

lemma be_un_be: "be (length bs) (un_be bs) = bs"
proof (induction bs rule: rev_induct)
  case Nil
  then show ?case by simp
next
  case (snoc b bs)
  have "un_be (bs @ [b]) = un_be bs * 256 + unat b" by (simp add: un_be_def)
  with snoc be_append_byte [of "length bs" "un_be bs" b] show ?case by simp
qed

end
