(* ===== verification/Api.thy ===== *)
theory Api
  imports Prelude
begin

text \<open>
  The public interface of the runtime, \<open>src/api.rs\<close>: envelopes and the two traits.

  An actor is a trait object, so its code is a parameter of the model: \<open>behaviour\<close> holds
  the three methods of \<open>AnyActor\<close>. What a method can do to the outside is call the methods
  of the \<open>AnySender\<close> it is handed; a run of a method is therefore the list of those calls,
  in order, with the flag that says whether it returned (\<open>True\<close>) or panicked. A call that
  reads the clock carries the reading.
\<close>

section \<open>Envelopes\<close>

record 'm envelope =
  env_message :: 'm
  env_from :: string
  env_to :: string

definition envelope_of :: "'m \<Rightarrow> 'm envelope" where
  "envelope_of message = \<lparr>env_message = message, env_from = '''', env_to = ''''\<rparr>"

definition with_from :: "'m envelope \<Rightarrow> string \<Rightarrow> 'm envelope" where
  "with_from e from = e\<lparr>env_from := from\<rparr>"

definition with_to :: "'m envelope \<Rightarrow> string \<Rightarrow> 'm envelope" where
  "with_to e to = e\<lparr>env_to := to\<rparr>"

lemmas envelope_defs = envelope_of_def with_from_def with_to_def

section \<open>What an actor may ask of its sender\<close>

datatype ('a, 'm) call =
    Send string "'m envelope"
  | Spawn string 'a
  | Delay instant string "'m envelope" duration
  | Stop string
  | Log sys_time string
  | Metric sys_time string f64

section \<open>Actors\<close>

record ('a, 'm) behaviour =
  receive :: "tag \<Rightarrow> 'm envelope \<Rightarrow> 'a \<Rightarrow> ('a, 'm) call list \<times> 'a \<times> bool"
  on_fail :: "tag \<Rightarrow> 'a \<Rightarrow> ('a, 'm) call list \<times> bool"
  on_stop :: "tag \<Rightarrow> 'a \<Rightarrow> ('a, 'm) call list \<times> bool"

text \<open>The trait's default methods do nothing.\<close>

definition default_on_fail :: "tag \<Rightarrow> 'a \<Rightarrow> ('a, 'm) call list \<times> bool" where
  "default_on_fail me actor = ([], True)"

definition default_on_stop :: "tag \<Rightarrow> 'a \<Rightarrow> ('a, 'm) call list \<times> bool" where
  "default_on_stop me actor = ([], True)"

end
