(* ===== verification/Binary_Heap.thy ===== *)
theory Binary_Heap
  imports Prelude "HOL-Library.Multiset"
begin

text \<open>
  Rust's \<open>std::collections::BinaryHeap\<close>, which the scheduler keeps its delayed messages in:
  the array heap of the standard library over any total preorder \<open>le\<close> (Rust's \<open><=\<close>),
  with its greatest element at index 0. The standard library moves a hole where
  this model swaps, which leaves the same array.

  \<open>max_queue\<close> is the contract the scheduler relies on (documented for the type: peek is a
  greatest element, pop removes it, push adds one; nothing is said about ties), and the last
  interpretation of this theory's lemmas, in \<open>Timers\<close>, discharges it for the array heap.
\<close>

section \<open>The array heap\<close>

definition parent :: "nat \<Rightarrow> nat" where
  "parent i = (i - 1) div 2"

definition swap_at :: "nat \<Rightarrow> nat \<Rightarrow> 'x list \<Rightarrow> 'x list" where
  "swap_at i j xs = xs[i := xs ! j, j := xs ! i]"

fun sift_up :: "('x \<Rightarrow> 'x \<Rightarrow> bool) \<Rightarrow> nat \<Rightarrow> 'x list \<Rightarrow> 'x list" where
  "sift_up le pos xs =
     (if pos = 0 then xs
      else let p = (pos - 1) div 2
           in if le (xs ! pos) (xs ! p) then xs else sift_up le p (swap_at pos p xs))"

declare sift_up.simps [simp del]

definition greater_child :: "('x \<Rightarrow> 'x \<Rightarrow> bool) \<Rightarrow> 'x list \<Rightarrow> nat \<Rightarrow> nat" where
  "greater_child le xs child = (if le (xs ! child) (xs ! (child + 1)) then child + 1 else child)"

lemma greater_child_cases: "greater_child le xs c = c \<or> greater_child le xs c = c + 1"
  by (simp add: greater_child_def)

lemma greater_child_gt: "pos < greater_child le xs (2 * pos + 1)"
  by (simp add: greater_child_def)

lemma greater_child_less:
  "2 * pos + 1 \<le> length xs - 2 \<Longrightarrow> greater_child le xs (2 * pos + 1) < length xs"
  by (auto simp: greater_child_def)

function sift_hole :: "('x \<Rightarrow> 'x \<Rightarrow> bool) \<Rightarrow> nat \<Rightarrow> 'x list \<Rightarrow> nat \<times> 'x list" where
  "sift_hole le pos xs =
     (let child = 2 * pos + 1
      in if child \<le> length xs - 2
         then sift_hole le (greater_child le xs child) (swap_at pos (greater_child le xs child) xs)
         else if child = length xs - 1 then (child, swap_at pos child xs)
         else (pos, xs))"
  by pat_completeness auto
termination
  using greater_child_gt greater_child_less
  by (relation "measure (\<lambda>(le, pos, xs). length xs - pos)")
    (auto simp: swap_at_def intro!: diff_less_mono2)

declare sift_hole.simps [simp del]

definition sift_down_to_bottom :: "('x \<Rightarrow> 'x \<Rightarrow> bool) \<Rightarrow> 'x list \<Rightarrow> 'x list" where
  "sift_down_to_bottom le xs = (let (pos, ys) = sift_hole le 0 xs in sift_up le pos ys)"

definition bh_push :: "('x \<Rightarrow> 'x \<Rightarrow> bool) \<Rightarrow> 'x \<Rightarrow> 'x list \<Rightarrow> 'x list" where
  "bh_push le x xs = sift_up le (length xs) (xs @ [x])"

definition bh_peek :: "'x list \<Rightarrow> 'x option" where
  "bh_peek xs = (if xs = [] then None else Some (xs ! 0))"

definition bh_pop :: "('x \<Rightarrow> 'x \<Rightarrow> bool) \<Rightarrow> 'x list \<Rightarrow> ('x \<times> 'x list) option" where
  "bh_pop le xs =
     (if xs = [] then None
      else let item = last xs; rest = butlast xs
           in if rest = [] then Some (item, [])
              else Some (rest ! 0, sift_down_to_bottom le (rest[0 := item])))"

section \<open>Swaps\<close>

lemma length_swap_at [simp]: "length (swap_at i j xs) = length xs"
  by (simp add: swap_at_def)

lemma mset_swap_at [simp]: "i < length xs \<Longrightarrow> j < length xs \<Longrightarrow> mset (swap_at i j xs) = mset xs"
  by (simp add: swap_at_def mset_swap)

lemma nth_swap_at:
  "i < length xs \<Longrightarrow> j < length xs \<Longrightarrow>
   swap_at i j xs ! k = (if k = j then xs ! i else if k = i then xs ! j else xs ! k)"
  by (auto simp: swap_at_def nth_list_update)

lemma length_sift_up [simp]: "length (sift_up le pos xs) = length xs"
  by (induction le pos xs rule: sift_up.induct) (subst sift_up.simps, simp add: Let_def)

lemma mset_sift_up: "pos < length xs \<Longrightarrow> mset (sift_up le pos xs) = mset xs"
proof (induction le pos xs rule: sift_up.induct)
  case (1 le pos xs)
  then show ?case
    by (subst sift_up.simps) (auto simp: Let_def)
qed

lemma sift_hole_step:
  "2 * pos + 1 \<le> length xs - 2 \<Longrightarrow>
   sift_hole le pos xs =
   sift_hole le (greater_child le xs (2 * pos + 1)) (swap_at pos (greater_child le xs (2 * pos + 1)) xs)"
  by (simp add: sift_hole.simps [of le pos xs] Let_def)

lemma sift_hole_last:
  "\<not> 2 * pos + 1 \<le> length xs - 2 \<Longrightarrow> 2 * pos + 1 = length xs - 1 \<Longrightarrow>
   sift_hole le pos xs = (2 * pos + 1, swap_at pos (2 * pos + 1) xs)"
  by (simp add: sift_hole.simps [of le pos xs] Let_def)

lemma sift_hole_stop:
  "\<not> 2 * pos + 1 \<le> length xs - 2 \<Longrightarrow> 2 * pos + 1 \<noteq> length xs - 1 \<Longrightarrow>
   sift_hole le pos xs = (pos, xs)"
  by (simp add: sift_hole.simps [of le pos xs] Let_def)

lemma sift_hole_shape:
  "pos < length xs \<Longrightarrow>
   fst (sift_hole le pos xs) < length xs \<and> length (snd (sift_hole le pos xs)) = length xs \<and>
   mset (snd (sift_hole le pos xs)) = mset xs"
proof (induction le pos xs rule: sift_hole.induct)
  case (1 le pos xs)
  consider "2 * pos + 1 \<le> length xs - 2"
    | "\<not> 2 * pos + 1 \<le> length xs - 2" "2 * pos + 1 = length xs - 1"
    | "\<not> 2 * pos + 1 \<le> length xs - 2" "2 * pos + 1 \<noteq> length xs - 1"
    by blast
  then show ?case
  proof cases
    case 1
    with "1.IH" [OF refl 1] "1.prems" greater_child_less [OF 1, of le] show ?thesis
      by (simp add: sift_hole_step)
  next
    case 2
    with "1.prems" show ?thesis by (simp add: sift_hole_last)
  next
    case 3
    with "1.prems" show ?thesis by (simp add: sift_hole_stop)
  qed
qed

lemma length_sift_down: "xs \<noteq> [] \<Longrightarrow> length (sift_down_to_bottom le xs) = length xs"
  using sift_hole_shape [of 0 xs le] by (simp add: sift_down_to_bottom_def split_beta)

lemma length_bh_pop: "bh_pop le xs = Some (x, ys) \<Longrightarrow> length xs = Suc (length ys)"
proof (cases "butlast xs = []")
  case True
  then show "bh_pop le xs = Some (x, ys) \<Longrightarrow> length xs = Suc (length ys)"
    by (cases xs) (auto simp: bh_pop_def split: if_splits)
next
  case False
  then have "length (sift_down_to_bottom le ((butlast xs)[0 := z])) = length (butlast xs)" for z
    by (subst length_sift_down) simp_all
  moreover have "xs \<noteq> []" using False by auto
  ultimately show "bh_pop le xs = Some (x, ys) \<Longrightarrow> length xs = Suc (length ys)"
    using False by (auto simp: bh_pop_def Let_def)
qed

section \<open>The contract\<close>

locale total_preorder_on =
  fixes le :: "'x \<Rightarrow> 'x \<Rightarrow> bool"
  assumes le_total: "le x y \<or> le y x"
    and le_trans: "le x y \<Longrightarrow> le y z \<Longrightarrow> le x z"
begin

lemma le_refl: "le x x"
  using le_total by blast

text \<open>The heap order everywhere but between \<open>pos\<close> and its parent, or everywhere.\<close>

definition heap_but :: "nat \<Rightarrow> 'x list \<Rightarrow> bool" where
  "heap_but pos xs \<longleftrightarrow>
     (\<forall>i < length xs. 0 < i \<longrightarrow> i \<noteq> pos \<longrightarrow> le (xs ! i) (xs ! parent i)) \<and>
     (\<forall>i < length xs. 0 < i \<longrightarrow> 0 < pos \<longrightarrow> parent i = pos \<longrightarrow> le (xs ! i) (xs ! parent pos))"

definition heap_order :: "'x list \<Rightarrow> bool" where
  "heap_order xs \<longleftrightarrow> (\<forall>i < length xs. 0 < i \<longrightarrow> le (xs ! i) (xs ! parent i))"

text \<open>The heap order on every pair that does not involve \<open>pos\<close>.\<close>

definition heap_hole :: "nat \<Rightarrow> 'x list \<Rightarrow> bool" where
  "heap_hole pos xs \<longleftrightarrow>
     (\<forall>i < length xs. 0 < i \<longrightarrow> i \<noteq> pos \<longrightarrow> parent i \<noteq> pos \<longrightarrow> le (xs ! i) (xs ! parent i)) \<and>
     (\<forall>i < length xs. 0 < i \<longrightarrow> 0 < pos \<longrightarrow> parent i = pos \<longrightarrow> le (xs ! i) (xs ! parent pos))"

lemma heap_but_0: "heap_but 0 xs \<longleftrightarrow> heap_order xs"
  by (auto simp: heap_but_def heap_order_def)

lemma heap_but_swap:
  assumes h: "heap_but pos xs" and pos: "pos < length xs" "0 < pos"
    and gt: "\<not> le (xs ! pos) (xs ! parent pos)"
  shows "heap_but (parent pos) (swap_at pos (parent pos) xs)"
proof -
  let ?p = "parent pos"
  let ?ys = "swap_at pos ?p xs"
  have p: "?p < pos" using pos by (simp add: parent_def)
  have up: "le (xs ! ?p) (xs ! pos)" using gt le_total by blast
  have nth: "?ys ! k = (if k = ?p then xs ! pos else if k = pos then xs ! ?p else xs ! k)" for k
    using pos p by (simp add: nth_swap_at)
  have pp: "parent i < i" if "0 < i" for i using that by (simp add: parent_def)
  have rest: "le (xs ! i) (xs ! parent i)" if "i < length xs" "0 < i" "i \<noteq> pos" for i
    using h that by (simp add: heap_but_def)
  have grand: "le (xs ! i) (xs ! ?p)" if "i < length xs" "0 < i" "parent i = pos" for i
    using h that pos by (simp add: heap_but_def)
  have a: "le (?ys ! i) (?ys ! parent i)" if i: "i < length xs" "0 < i" "i \<noteq> ?p" for i
  proof (cases "i = pos")
    case True
    with up p show ?thesis by (simp add: nth)
  next
    case False
    show ?thesis
    proof (cases "parent i = pos")
      case True
      with grand [OF i(1,2)] False i(3) p show ?thesis by (simp add: nth)
    next
      case par: False
      show ?thesis
      proof (cases "parent i = ?p")
        case True
        with rest [OF i(1,2) False] have "le (xs ! i) (xs ! ?p)" by simp
        then have "le (xs ! i) (xs ! pos)" using up by (rule le_trans)
        with True False i(3) show ?thesis by (simp add: nth)
      next
        case False
        with rest [OF i(1,2) \<open>i \<noteq> pos\<close>] par i(3) \<open>i \<noteq> pos\<close> show ?thesis by (simp add: nth)
      qed
    qed
  qed
  have b: "le (?ys ! i) (?ys ! parent ?p)" if i: "i < length xs" "0 < i" "0 < ?p" "parent i = ?p" for i
  proof -
    have ne: "parent ?p \<noteq> ?p" "parent ?p \<noteq> pos" using pp [OF i(3)] p by auto
    have gp: "le (xs ! ?p) (xs ! parent ?p)" using rest [of ?p] i(3) p pos by simp
    show ?thesis
    proof (cases "i = pos")
      case True
      with gp ne p show ?thesis by (simp add: nth)
    next
      case False
      with rest [OF i(1,2)] i(4) have "le (xs ! i) (xs ! ?p)" by simp
      then have "le (xs ! i) (xs ! parent ?p)" using gp by (rule le_trans)
      moreover have "i \<noteq> ?p" using i(4) ne(1) by blast
      ultimately show ?thesis using False ne by (simp add: nth)
    qed
  qed
  show ?thesis using a b by (simp add: heap_but_def)
qed

lemma heap_but_done:
  assumes h: "heap_but pos xs" and ok: "pos = 0 \<or> le (xs ! pos) (xs ! parent pos)"
  shows "heap_order xs"
  using assms by (auto simp: heap_but_def heap_order_def)

lemma sift_up_heap: "heap_but pos xs \<Longrightarrow> pos < length xs \<Longrightarrow> heap_order (sift_up le pos xs)"
proof (induction le' \<equiv> le pos xs rule: sift_up.induct)
  case (1 pos xs)
  show ?case
  proof (cases "pos = 0 \<or> le (xs ! pos) (xs ! parent pos)")
    case True
    then have "sift_up le pos xs = xs"
      by (auto simp: sift_up.simps [of le pos xs] Let_def parent_def)
    with True "1.prems" show ?thesis using heap_but_done by simp
  next
    case False
    then have pos: "0 < pos" and gt: "\<not> le (xs ! pos) (xs ! parent pos)" by auto
    have p: "parent pos < length xs" using "1.prems" pos by (simp add: parent_def)
    have "sift_up le pos xs = sift_up le (parent pos) (swap_at pos (parent pos) xs)"
      using pos gt by (simp add: sift_up.simps [of le pos xs] Let_def parent_def)
    moreover have "heap_order (sift_up le (parent pos) (swap_at pos (parent pos) xs))"
      using "1.hyps" [of "parent pos"] pos gt p heap_but_swap [OF "1.prems" pos gt]
      by (simp add: parent_def)
    ultimately show ?thesis by simp
  qed
qed

lemma heap_hole_swap:
  assumes h: "heap_hole pos xs" and c: "pos < c" "c < length xs" "parent c = pos"
    and sib: "\<And>i. i < length xs \<Longrightarrow> 0 < i \<Longrightarrow> parent i = pos \<Longrightarrow> i \<noteq> c \<Longrightarrow> le (xs ! i) (xs ! c)"
  shows "heap_hole c (swap_at pos c xs)"
proof -
  let ?ys = "swap_at pos c xs"
  have nth: "?ys ! k = (if k = c then xs ! pos else if k = pos then xs ! c else xs ! k)" for k
    using c by (simp add: nth_swap_at)
  have pp: "parent i < i" if "0 < i" for i using that by (simp add: parent_def)
  have rest: "le (xs ! i) (xs ! parent i)"
    if "i < length xs" "0 < i" "i \<noteq> pos" "parent i \<noteq> pos" for i
    using h that by (simp add: heap_hole_def)
  have a: "le (?ys ! i) (?ys ! parent i)"
    if i: "i < length xs" "0 < i" "i \<noteq> c" "parent i \<noteq> c" for i
  proof -
    consider "i = pos" | "i \<noteq> pos" "parent i = pos" | "i \<noteq> pos" "parent i \<noteq> pos" by blast
    then show ?thesis
    proof cases
      case 1
      have "le (xs ! c) (xs ! parent pos)"
        using h c i(2) 1 by (simp add: heap_hole_def)
      moreover have "parent pos \<noteq> pos" using pp [OF i(2)] 1 by simp
      ultimately show ?thesis using 1 i(3,4) by (simp add: nth)
    next
      case 2
      with sib [OF i(1,2) 2(2) i(3)] i(3) c show ?thesis by (simp add: nth)
    next
      case 3
      with rest i show ?thesis by (simp add: nth)
    qed
  qed
  have b: "le (?ys ! i) (?ys ! parent c)" if i: "i < length xs" "0 < i" "parent i = c" for i
  proof -
    have "i \<noteq> c" "i \<noteq> pos" using pp [OF i(2)] i(3) c by auto
    with rest [OF i(1,2)] i(3) c show ?thesis by (simp add: nth)
  qed
  show ?thesis using a b by (simp add: heap_hole_def)
qed

lemma heap_hole_leaf:
  "heap_hole pos xs \<Longrightarrow> (\<And>i. i < length xs \<Longrightarrow> 0 < i \<Longrightarrow> parent i \<noteq> pos) \<Longrightarrow> heap_but pos xs"
  by (simp add: heap_hole_def heap_but_def)

lemma greater_child_sibling:
  assumes "0 < i" "parent i = pos" "i \<noteq> greater_child le xs (2 * pos + 1)"
  shows "le (xs ! i) (xs ! greater_child le xs (2 * pos + 1))"
proof -
  from assms(1,2) have "i = 2 * pos + 1 \<or> i = 2 * pos + 2" by (auto simp: parent_def)
  with assms(3) show ?thesis using le_total by (auto simp: greater_child_def split: if_splits)
qed

lemma sift_hole_heap:
  "heap_hole pos xs \<Longrightarrow> pos < length xs \<Longrightarrow>
   heap_but (fst (sift_hole le pos xs)) (snd (sift_hole le pos xs))"
proof (induction le' \<equiv> le pos xs rule: sift_hole.induct)
  case (1 pos xs)
  let ?c = "greater_child le xs (2 * pos + 1)"
  consider (two) "2 * pos + 1 \<le> length xs - 2"
    | (one) "\<not> 2 * pos + 1 \<le> length xs - 2" "2 * pos + 1 = length xs - 1"
    | (leaf) "\<not> 2 * pos + 1 \<le> length xs - 2" "2 * pos + 1 \<noteq> length xs - 1"
    by blast
  then show ?case
  proof cases
    case two
    have "heap_hole ?c (swap_at pos ?c xs)"
    proof (rule heap_hole_swap)
      show "parent ?c = pos" using greater_child_cases [of le xs "2 * pos + 1"] by (auto simp: parent_def)
    qed (use "1.prems" greater_child_gt greater_child_less [OF two] greater_child_sibling in auto)
    with "1.hyps" [OF refl two] greater_child_less [OF two, of le] show ?thesis
      by (simp add: sift_hole_step [OF two])
  next
    case one
    have "heap_hole (2 * pos + 1) (swap_at pos (2 * pos + 1) xs)"
      by (rule heap_hole_swap) (use "1.prems" one in \<open>auto simp: parent_def\<close>)
    then have "heap_but (2 * pos + 1) (swap_at pos (2 * pos + 1) xs)"
      by (rule heap_hole_leaf) (use one in \<open>auto simp: parent_def\<close>)
    with one show ?thesis by (simp add: sift_hole_last)
  next
    case leaf
    have "heap_but pos xs"
      by (rule heap_hole_leaf [OF "1.prems"(1)]) (use leaf in \<open>auto simp: parent_def\<close>)
    with leaf show ?thesis by (simp add: sift_hole_stop)
  qed
qed

lemma sift_down_heap:
  assumes "heap_hole 0 xs" "xs \<noteq> []"
  shows "heap_order (sift_down_to_bottom le xs)"
    and "mset (sift_down_to_bottom le xs) = mset xs"
  using sift_hole_heap [of 0 xs] sift_hole_shape [of 0 xs le] assms
  by (auto simp: sift_down_to_bottom_def split_beta sift_up_heap mset_sift_up)

lemma root_greatest: "heap_order xs \<Longrightarrow> i < length xs \<Longrightarrow> le (xs ! i) (xs ! 0)"
proof (induction i rule: less_induct)
  case (less i)
  show ?case
  proof (cases "i = 0")
    case True
    then show ?thesis by (simp add: le_refl)
  next
    case False
    with less.prems have "le (xs ! i) (xs ! parent i)" by (simp add: heap_order_def)
    moreover have "parent i < i" using False by (simp add: parent_def)
    ultimately show ?thesis using less le_trans by (meson order.strict_trans)
  qed
qed

section \<open>The operations keep the heap order\<close>

lemma heap_order_push: "heap_order xs \<Longrightarrow> heap_order (bh_push le x xs)"
proof -
  assume h: "heap_order xs"
  have "heap_but (length xs) (xs @ [x])"
    using h by (auto simp: heap_but_def heap_order_def nth_append parent_def)
  then show ?thesis by (simp add: bh_push_def sift_up_heap)
qed

lemma mset_push: "mset (bh_push le x xs) = add_mset x (mset xs)"
  by (simp add: bh_push_def mset_sift_up)

lemma heap_order_butlast: "heap_order xs \<Longrightarrow> heap_order (butlast xs)"
  by (auto simp: heap_order_def nth_butlast parent_def)

lemma nth0_butlast: "butlast xs \<noteq> [] \<Longrightarrow> butlast xs ! 0 = xs ! 0"
  by (rule nth_butlast) blast

lemma mset_replace_root:
  "xs \<noteq> [] \<Longrightarrow> add_mset (xs ! 0) (mset (xs[0 := y])) = add_mset y (mset xs)"
  by (cases xs) auto

lemma bh_pop_spec:
  assumes h: "heap_order xs" and p: "bh_pop le xs = Some (x, ys)"
  shows "x = xs ! 0" and "heap_order ys" and "add_mset x (mset ys) = mset xs"
proof -
  from p have ne: "xs \<noteq> []" by (auto simp: bh_pop_def)
  let ?rest = "butlast xs"
  have m: "add_mset (last xs) (mset ?rest) = mset xs"
    using ne by (metis append_butlast_last_id mset.simps(1) mset.simps(2) union_mset_add_mset_right
        mset_append add_cancel_left_right)
  have "x = xs ! 0 \<and> heap_order ys \<and> add_mset x (mset ys) = mset xs"
  proof (cases "?rest = []")
    case True
    with ne obtain z where "xs = [z]" by (metis append_butlast_last_id append_Nil)
    with p show ?thesis by (auto simp: bh_pop_def heap_order_def)
  next
    case False
    then have x: "x = ?rest ! 0" and ys: "ys = sift_down_to_bottom le (?rest[0 := last xs])"
      using p ne by (auto simp: bh_pop_def Let_def)
    have hole: "heap_hole 0 (?rest[0 := last xs])"
      using heap_order_butlast [OF h] by (auto simp: heap_hole_def heap_order_def)
    have "add_mset x (mset ys) = mset xs"
      using sift_down_heap(2) [OF hole] False m mset_replace_root [OF False] by (simp add: ys x)
    moreover have "heap_order ys" using sift_down_heap(1) [OF hole] False by (simp add: ys)
    moreover have "x = xs ! 0" using False by (simp add: x nth0_butlast)
    ultimately show ?thesis by simp
  qed
  then show "x = xs ! 0" "heap_order ys" "add_mset x (mset ys) = mset xs" by blast+
qed

end

section \<open>The documented contract of a max-queue\<close>

locale max_queue = total_preorder_on le for le :: "'x \<Rightarrow> 'x \<Rightarrow> bool" +
  fixes empty :: 'q
    and push :: "'x \<Rightarrow> 'q \<Rightarrow> 'q"
    and peek :: "'q \<Rightarrow> 'x option"
    and pop :: "'q \<Rightarrow> ('x \<times> 'q) option"
    and elems :: "'q \<Rightarrow> 'x multiset"
    and invar :: "'q \<Rightarrow> bool"
  assumes elems_empty: "elems empty = {#}"
    and invar_empty: "invar empty"
    and elems_push: "invar q \<Longrightarrow> elems (push x q) = add_mset x (elems q)"
    and invar_push: "invar q \<Longrightarrow> invar (push x q)"
    and peek_None: "invar q \<Longrightarrow> peek q = None \<longleftrightarrow> elems q = {#}"
    and peek_greatest: "invar q \<Longrightarrow> peek q = Some x \<Longrightarrow> y \<in># elems q \<Longrightarrow> le y x"
    and pop_peek: "map_option fst (pop q) = peek q"
    and elems_pop: "invar q \<Longrightarrow> pop q = Some (x, q') \<Longrightarrow> elems q = add_mset x (elems q')"
    and invar_pop: "invar q \<Longrightarrow> pop q = Some (x, q') \<Longrightarrow> invar q'"
begin

lemma pop_None: "pop q = None \<longleftrightarrow> peek q = None"
  by (metis map_option_is_None pop_peek)

lemma pop_size: "invar q \<Longrightarrow> pop q = Some (x, q') \<Longrightarrow> size (elems q') < size (elems q)"
  by (simp add: elems_pop)

end

text \<open>
  A loop that pops while the greatest element satisfies \<open>due\<close>, over any queue that keeps the
  contract: it returns exactly the due elements, greatest first, and leaves the others.
\<close>

locale due_drain = max_queue le empty push peek pop elems invar
  for le :: "'x \<Rightarrow> 'x \<Rightarrow> bool" and empty :: 'q and push peek pop elems invar +
  fixes due :: "'x \<Rightarrow> bool"
    and drain :: "'q \<Rightarrow> 'x list \<times> 'q"
  assumes due_mono: "due x \<Longrightarrow> le x y \<Longrightarrow> due y"
    and drain_stop: "peek q = None \<Longrightarrow> drain q = ([], q)"
    and drain_wait: "peek q = Some x \<Longrightarrow> \<not> due x \<Longrightarrow> drain q = ([], q)"
    and drain_pop: "peek q = Some x \<Longrightarrow> due x \<Longrightarrow> pop q = Some (x, q') \<Longrightarrow>
      drain q = (x # fst (drain q'), snd (drain q'))"
begin

lemma drain_correct:
  "invar q \<Longrightarrow>
   invar (snd (drain q)) \<and>
   mset (fst (drain q)) = filter_mset due (elems q) \<and>
   elems (snd (drain q)) = filter_mset (\<lambda>x. \<not> due x) (elems q) \<and>
   sorted_wrt (\<lambda>x y. le y x) (fst (drain q))"
proof (induction "size (elems q)" arbitrary: q rule: less_induct)
  case less
  have top: "le y x" if "peek q = Some x" "y \<in># elems q" for x y
    using peek_greatest [OF less.prems that] .
  consider "peek q = None" | x where "peek q = Some x" "\<not> due x"
    | x q' where "peek q = Some x" "due x" "pop q = Some (x, q')"
    using pop_peek [of q, symmetric] by (cases "pop q"; cases "due (the (peek q))") auto
  then show ?case
  proof cases
    case 1
    with less.prems peek_None [of q] show ?thesis by (simp add: drain_stop)
  next
    case (2 x)
    have none: "\<not> due y" if "y \<in># elems q" for y
      using due_mono [of y x] top [OF 2(1) that] 2(2) by blast
    have "filter_mset due (elems q) = {#}" using none by (simp add: filter_mset_eq_mempty_iff)
    moreover have "filter_mset (\<lambda>x. \<not> due x) (elems q) = elems q"
      using none by (simp cong: filter_mset_cong)
    ultimately show ?thesis using less.prems by (simp add: drain_wait [OF 2])
  next
    case (3 x q')
    have q': "invar q'" "elems q = add_mset x (elems q')"
      using invar_pop elems_pop less.prems 3(3) by blast+
    then have IH: "invar (snd (drain q'))" "mset (fst (drain q')) = filter_mset due (elems q')"
      "elems (snd (drain q')) = filter_mset (\<lambda>x. \<not> due x) (elems q')"
      "sorted_wrt (\<lambda>x y. le y x) (fst (drain q'))"
      using less.hyps [of q'] by simp_all
    have "set (fst (drain q')) \<subseteq> set_mset (elems q')"
      using IH(2) by (metis filter_mset_eq_conv multiset_filter_subset set_mset_mono set_mset_mset)
    then have "\<forall>y \<in> set (fst (drain q')). le y x"
      using top [OF 3(1)] q'(2) by auto
    with IH q' 3(2) show ?thesis by (simp add: drain_pop [OF 3])
  qed
qed

end

text \<open>The array heap keeps the contract, over any total preorder.\<close>

sublocale total_preorder_on \<subseteq> array_heap: max_queue le "[]" "bh_push le" bh_peek "bh_pop le" mset heap_order
proof (unfold_locales, goal_cases)
  case (6 q x y)
  then obtain i where "i < length q" "y = q ! i" by (auto simp: in_set_conv_nth)
  with 6 root_greatest [of q i] show ?case by (auto simp: bh_peek_def split: if_splits)
next
  case (7 q)
  show ?case
  proof (cases "bh_pop le q")
    case None
    then show ?thesis by (auto simp: bh_pop_def bh_peek_def Let_def split: if_splits)
  next
    case (Some r)
    then have "q \<noteq> []" by (auto simp: bh_pop_def)
    then show ?thesis
      by (cases "butlast q = []")
        (auto simp: bh_pop_def bh_peek_def Let_def nth0_butlast last_conv_nth
          dest: arg_cong [of _ _ length])
  qed
qed (auto simp: heap_order_def [of "[]"] mset_push heap_order_push bh_peek_def bh_pop_spec split: if_splits)

end
