(* ===== verification/Timers.thy ===== *)
theory Timers
  imports Api Binary_Heap
begin

text \<open>
  Delayed messages, \<open>src/core.rs\<close>: the \<open>Entry\<close> struct with its reversed order (so that the
  max-heap of the standard library hands out the earliest entry first), and the loop at the
  end of an iteration of the event loop that takes every due entry off the heap.
\<close>

section \<open>Entries and their order\<close>

record 'm entry =
  entry_at :: instant
  entry_tag :: string
  entry_envelope :: "'m envelope"

datatype ordering = Less | Equal | Greater

definition cmp_instant :: "instant \<Rightarrow> instant \<Rightarrow> ordering" where
  "cmp_instant a b = (if a < b then Less else if a = b then Equal else Greater)"

primrec reverse_ordering :: "ordering \<Rightarrow> ordering" where
  "reverse_ordering Less = Greater"
| "reverse_ordering Equal = Equal"
| "reverse_ordering Greater = Less"

definition entry_cmp :: "('m, 'z) entry_scheme \<Rightarrow> ('m, 'z) entry_scheme \<Rightarrow> ordering" where
  "entry_cmp e f = reverse_ordering (cmp_instant (entry_at e) (entry_at f))"

definition entry_eq :: "('m, 'z) entry_scheme \<Rightarrow> ('m, 'z) entry_scheme \<Rightarrow> bool" where
  "entry_eq e f \<longleftrightarrow> entry_at e = entry_at f"

text \<open>\<open>PartialOrd\<close> derives the operators from \<open>cmp\<close>: they are the class operations here.\<close>

instantiation entry_ext :: (type, type) preorder
begin

definition less_eq_entry_ext :: "('a, 'b) entry_scheme \<Rightarrow> ('a, 'b) entry_scheme \<Rightarrow> bool" where
  "less_eq_entry_ext e f \<longleftrightarrow> entry_cmp e f \<noteq> Greater"

definition less_entry_ext :: "('a, 'b) entry_scheme \<Rightarrow> ('a, 'b) entry_scheme \<Rightarrow> bool" where
  "less_entry_ext e f \<longleftrightarrow> entry_cmp e f = Less"

instance
  by standard
    (auto simp: less_eq_entry_ext_def less_entry_ext_def entry_cmp_def cmp_instant_def split: if_splits)

end

lemma entry_le_iff: "(e :: ('m, 'z) entry_scheme) \<le> f \<longleftrightarrow> entry_at f \<le> entry_at e"
  by (simp add: less_eq_entry_ext_def entry_cmp_def cmp_instant_def)

lemma entry_cmp_Equal: "entry_cmp e f = Equal \<longleftrightarrow> entry_eq e f"
  by (simp add: entry_cmp_def cmp_instant_def entry_eq_def)

interpretation entry_order: total_preorder_on "(\<le>) :: 'm entry \<Rightarrow> 'm entry \<Rightarrow> bool"
  by unfold_locales (auto simp: entry_le_iff)

section \<open>The scheduler's task heap\<close>

type_synonym 'm tasks = "'m entry list"

abbreviation tasks_ok :: "'m tasks \<Rightarrow> bool" where
  "tasks_ok ts \<equiv> entry_order.heap_order ts"

definition push_task :: "'m entry \<Rightarrow> 'm tasks \<Rightarrow> 'm tasks" where
  "push_task e ts = bh_push (\<le>) e ts"

definition peek_task :: "'m tasks \<Rightarrow> 'm entry option" where
  "peek_task ts = bh_peek ts"

definition pop_task :: "'m tasks \<Rightarrow> ('m entry \<times> 'm tasks) option" where
  "pop_task ts = bh_pop (\<le>) ts"

interpretation task_queue:
  max_queue "(\<le>) :: 'm entry \<Rightarrow> 'm entry \<Rightarrow> bool" "[]" push_task peek_task pop_task mset tasks_ok
  unfolding push_task_def peek_task_def pop_task_def
  by (rule entry_order.array_heap.max_queue_axioms)

text \<open>
  The loop \<open>while tasks.peek().map(|e| e.at <= now).unwrap_or_default()\<close>. A pop after a
  successful peek cannot be empty; the branch that would spin is unreachable and stops here.
\<close>

definition due_at :: "instant \<Rightarrow> 'm entry \<Rightarrow> bool" where
  "due_at now e \<longleftrightarrow> entry_at e \<le> now"

lemma pop_task_length: "pop_task ts = Some (e, ts') \<Longrightarrow> length ts = Suc (length ts')"
  by (simp add: pop_task_def length_bh_pop)

function drain_due :: "instant \<Rightarrow> 'm tasks \<Rightarrow> 'm entry list \<times> 'm tasks" where
  "drain_due now ts =
     (case peek_task ts of
        None \<Rightarrow> ([], ts)
      | Some e \<Rightarrow>
          if due_at now e
          then (case pop_task ts of
                  None \<Rightarrow> ([], ts)
                | Some (e', ts') \<Rightarrow> (let (es, rest) = drain_due now ts' in (e' # es, rest)))
          else ([], ts))"
  by pat_completeness auto
termination
  by (relation "measure (\<lambda>(now, ts). length ts)") (auto simp: pop_task_length)

declare drain_due.simps [simp del]

interpretation due: due_drain
  "(\<le>) :: 'm entry \<Rightarrow> 'm entry \<Rightarrow> bool" "[]" push_task peek_task pop_task mset tasks_ok
  "due_at now" "drain_due now" for now
  by unfold_locales
    (auto simp: due_at_def entry_le_iff drain_due.simps split_beta split: option.splits)

section \<open>What the timer loop does\<close>

lemma push_task_ok [inv_intros]: "tasks_ok ts \<Longrightarrow> tasks_ok (push_task e ts)"
  by (rule task_queue.invar_push)

lemma drain_due_ok [inv_intros]: "tasks_ok ts \<Longrightarrow> tasks_ok (snd (drain_due now ts))"
  using due.drain_correct by blast

lemma drain_due_entries:
  "tasks_ok ts \<Longrightarrow> mset (fst (drain_due now ts)) = filter_mset (due_at now) (mset ts)"
  using due.drain_correct by blast

lemma drain_due_rest:
  "tasks_ok ts \<Longrightarrow> mset (snd (drain_due now ts)) = filter_mset (\<lambda>e. \<not> due_at now e) (mset ts)"
  using due.drain_correct by blast

lemma drain_due_ordered:
  "tasks_ok ts \<Longrightarrow> sorted (map entry_at (fst (drain_due now ts)))"
proof -
  assume "tasks_ok ts"
  then have "sorted_wrt (\<lambda>x y. y \<le> x) (fst (drain_due now ts))"
    using due.drain_correct [of ts now] by blast
  then show ?thesis by (simp add: sorted_wrt_map entry_le_iff)
qed

end
