(* ===== verification/Sender.thy ===== *)
theory Sender
  imports Timers
begin

text \<open>
  What the threads of the runtime say to each other (\<open>Event\<close> and \<open>Action\<close> of
  \<open>src/core.rs\<close>) and \<open>Local\<close>, the implementation of \<open>AnySender\<close> each worker hands to
  the actors it runs. The sending end \<open>tx\<close> is an unbounded channel whose receiver lives until
  every sender is gone (the closure at the end of \<open>start_actor_runtime\<close> keeps receiving), so a
  send does not fail; \<open>local_tx\<close> is the list of the actions sent so far.
\<close>

section \<open>Events and actions\<close>

datatype ('a, 'm) event =
    Ev_Mail tag 'a "'m envelope"
  | Ev_Stop tag 'a
  | Ev_Shutdown

datatype ('a, 'm) action =
    Act_Return tag 'a bool
  | Act_Spawn tag 'a
  | Act_Queue tag "'m envelope"
  | Act_Delay "'m entry"
  | Act_Stop tag
  | Act_Logs tag "(sys_time \<times> string) list"
  | Act_Metrics "string \<rightharpoonup> (sys_time \<times> f64) list"
  | Act_Shutdown

section \<open>Addresses\<close>

definition CLIENT :: string where
  "CLIENT = ''$CLIENT''"

definition SERVER :: string where
  "SERVER = ''$SERVER''"

definition adjust_remote_address :: "string \<Rightarrow> 'm envelope \<Rightarrow> string \<times> 'm envelope" where
  "adjust_remote_address address envelope =
     (if CHR ''@'' \<in> set address then (CLIENT, envelope\<lparr>env_to := address\<rparr>)
      else (address, envelope))"

section \<open>The sender of a worker\<close>

record ('a, 'm) local_sender =
  local_tx :: "('a, 'm) action list"
  local_tag :: string
  local_logs :: "(sys_time \<times> string) list"
  local_metrics :: "string \<rightharpoonup> (sys_time \<times> f64) list"

definition local_new :: "('a, 'm) local_sender" where
  "local_new = \<lparr>local_tx = [], local_tag = '''', local_logs = [], local_metrics = Map.empty\<rparr>"

definition local_emit :: "('a, 'm) action \<Rightarrow> ('a, 'm) local_sender \<Rightarrow> ('a, 'm) local_sender" where
  "local_emit act l = l\<lparr>local_tx := local_tx l @ [act]\<rparr>"

definition local_send :: "string \<Rightarrow> 'm envelope \<Rightarrow> ('a, 'm) local_sender \<Rightarrow> ('a, 'm) local_sender" where
  "local_send address envelope l =
     (let (tag, envelope') = adjust_remote_address address envelope
      in local_emit (Act_Queue tag envelope') l)"

definition local_spawn :: "string \<Rightarrow> 'a \<Rightarrow> ('a, 'm) local_sender \<Rightarrow> ('a, 'm) local_sender" where
  "local_spawn address actor l = local_emit (Act_Spawn address actor) l"

definition local_delay ::
  "instant \<Rightarrow> string \<Rightarrow> 'm envelope \<Rightarrow> duration \<Rightarrow> ('a, 'm) local_sender \<Rightarrow> ('a, 'm) local_sender"
where
  "local_delay now address envelope d l =
     (let at = now + d;
          (tag, envelope') = adjust_remote_address address envelope
      in local_emit (Act_Delay \<lparr>entry_at = at, entry_tag = tag, entry_envelope = envelope'\<rparr>) l)"

definition local_stop :: "string \<Rightarrow> ('a, 'm) local_sender \<Rightarrow> ('a, 'm) local_sender" where
  "local_stop address l = local_emit (Act_Stop address) l"

definition local_log :: "sys_time \<Rightarrow> string \<Rightarrow> ('a, 'm) local_sender \<Rightarrow> ('a, 'm) local_sender" where
  "local_log now msg l = l\<lparr>local_logs := local_logs l @ [(now, msg)]\<rparr>"

definition local_metric ::
  "sys_time \<Rightarrow> string \<Rightarrow> f64 \<Rightarrow> ('a, 'm) local_sender \<Rightarrow> ('a, 'm) local_sender"
where
  "local_metric now name v l =
     l\<lparr>local_metrics := (local_metrics l)
         (name \<mapsto> (case local_metrics l name of None \<Rightarrow> [] | Some es \<Rightarrow> es) @ [(now, v)])\<rparr>"

text \<open>The dispatch of the trait object \<open>sender: &mut dyn AnySender\<close>.\<close>

primrec local_call :: "('a, 'm) call \<Rightarrow> ('a, 'm) local_sender \<Rightarrow> ('a, 'm) local_sender" where
  "local_call (Send address envelope) l = local_send address envelope l"
| "local_call (Spawn address actor) l = local_spawn address actor l"
| "local_call (Delay now address envelope d) l = local_delay now address envelope d l"
| "local_call (Stop address) l = local_stop address l"
| "local_call (Log now msg) l = local_log now msg l"
| "local_call (Metric now name v) l = local_metric now name v l"

primrec local_calls :: "('a, 'm) call list \<Rightarrow> ('a, 'm) local_sender \<Rightarrow> ('a, 'm) local_sender" where
  "local_calls [] l = l"
| "local_calls (c # cs) l = local_calls cs (local_call c l)"

definition local_drain :: "('a, 'm) local_sender \<Rightarrow> ('a, 'm) local_sender" where
  "local_drain l =
     (let l1 = (if local_logs l \<noteq> []
                then (local_emit (Act_Logs (local_tag l) (local_logs l)) l)\<lparr>local_logs := []\<rparr>
                else l)
      in if local_metrics l1 \<noteq> Map.empty
         then (local_emit (Act_Metrics (local_metrics l1)) l1)\<lparr>local_metrics := Map.empty\<rparr>
         else l1)"

lemmas local_defs = local_send_def local_spawn_def local_delay_def local_stop_def local_log_def
  local_metric_def local_emit_def

section \<open>What a run of calls sends\<close>

primrec call_actions :: "('a, 'm) call \<Rightarrow> ('a, 'm) action list" where
  "call_actions (Send address envelope) =
     [Act_Queue (fst (adjust_remote_address address envelope)) (snd (adjust_remote_address address envelope))]"
| "call_actions (Spawn address actor) = [Act_Spawn address actor]"
| "call_actions (Delay now address envelope d) =
     [Act_Delay \<lparr>entry_at = now + d, entry_tag = fst (adjust_remote_address address envelope),
                entry_envelope = snd (adjust_remote_address address envelope)\<rparr>]"
| "call_actions (Stop address) = [Act_Stop address]"
| "call_actions (Log now msg) = []"
| "call_actions (Metric now name v) = []"

primrec call_logs :: "('a, 'm) call \<Rightarrow> (sys_time \<times> string) list" where
  "call_logs (Send address envelope) = []"
| "call_logs (Spawn address actor) = []"
| "call_logs (Delay now address envelope d) = []"
| "call_logs (Stop address) = []"
| "call_logs (Log now msg) = [(now, msg)]"
| "call_logs (Metric now name v) = []"

lemma local_call_tx [frame_simps]: "local_tx (local_call c l) = local_tx l @ call_actions c"
  by (cases c) (auto simp: local_defs split_beta)

lemma local_call_logs [frame_simps]: "local_logs (local_call c l) = local_logs l @ call_logs c"
  by (cases c) (auto simp: local_defs split_beta)

lemma local_call_tag [frame_simps]: "local_tag (local_call c l) = local_tag l"
  by (cases c) (auto simp: local_defs split_beta)

lemma local_calls_tx [frame_simps]:
  "local_tx (local_calls cs l) = local_tx l @ concat (map call_actions cs)"
  by (induction cs arbitrary: l) (simp_all add: frame_simps)

lemma local_calls_logs [frame_simps]:
  "local_logs (local_calls cs l) = local_logs l @ concat (map call_logs cs)"
  by (induction cs arbitrary: l) (simp_all add: frame_simps)

lemma local_calls_tag [frame_simps]: "local_tag (local_calls cs l) = local_tag l"
  by (induction cs arbitrary: l) (simp_all add: frame_simps)

lemma local_drain_empty:
  "local_logs (local_drain l) = []" "local_metrics (local_drain l) = Map.empty"
  by (auto simp: local_drain_def local_emit_def Let_def)

lemma adjust_local [simp]:
  "CHR ''@'' \<notin> set address \<Longrightarrow> adjust_remote_address address e = (address, e)"
  by (simp add: adjust_remote_address_def)

lemma adjust_remote [simp]:
  "CHR ''@'' \<in> set address \<Longrightarrow> adjust_remote_address address e = (CLIENT, e\<lparr>env_to := address\<rparr>)"
  by (simp add: adjust_remote_address_def)

end
