(* ===== verification/Text.thy ===== *)
theory Text
  imports Prelude
begin

text \<open>
  Decimal formatting as \<open>format!\<close> does it: \<open>show_nat\<close> is \<open>{}\<close> on an unsigned integer,
  \<open>pad_left w c s\<close> is the zero padding of \<open>{:012}\<close>. The lemmas say what the tags and
  addresses built from them rely on: digits only, never empty, injective, and injective
  still after padding.
\<close>

fun show_nat :: "nat \<Rightarrow> string" where
  "show_nat n = (if n < 10 then [char_of (48 + n)] else show_nat (n div 10) @ [char_of (48 + n mod 10)])"

declare show_nat.simps [simp del]

definition pad_left :: "nat \<Rightarrow> char \<Rightarrow> string \<Rightarrow> string" where
  "pad_left w c s = replicate (w - length s) c @ s"

definition is_digit :: "char \<Rightarrow> bool" where
  "is_digit c \<longleftrightarrow> 48 \<le> (of_char c :: nat) \<and> (of_char c :: nat) \<le> 57"

definition digit_val :: "char \<Rightarrow> nat" where
  "digit_val c = of_char c - 48"

definition dec_val :: "string \<Rightarrow> nat" where
  "dec_val s = foldl (\<lambda>acc c. acc * 10 + digit_val c) 0 s"

lemma digit_val_char_of [simp]: "(d::nat) < 10 \<Longrightarrow> digit_val (char_of (48 + d)) = d"
  by (simp add: digit_val_def)

lemma is_digit_char_of [simp]: "(d::nat) < 10 \<Longrightarrow> is_digit (char_of (48 + d))"
  by (simp add: is_digit_def)

lemma show_nat_nonempty [simp]: "show_nat n \<noteq> []"
  by (subst show_nat.simps) simp

lemma show_nat_digits: "c \<in> set (show_nat n) \<Longrightarrow> is_digit c"
proof (induction n rule: show_nat.induct)
  case (1 n)
  then show ?case
    by (cases "n < 10") (auto simp: show_nat.simps [of n])
qed

lemma dec_val_show_nat [simp]: "dec_val (show_nat n) = n"
proof (induction n rule: show_nat.induct)
  case (1 n)
  show ?case
  proof (cases "n < 10")
    case True
    then show ?thesis by (simp add: show_nat.simps [of n] dec_val_def)
  next
    case False
    with 1 show ?thesis by (simp add: show_nat.simps [of n] dec_val_def)
  qed
qed

lemma show_nat_inject [simp]: "show_nat m = show_nat n \<longleftrightarrow> m = n"
  by (metis dec_val_show_nat)

lemma dec_val_zeros: "dec_val (replicate k (CHR ''0'') @ s) = dec_val s"
  by (induction k) (simp_all add: dec_val_def digit_val_def)

lemma dec_val_pad [simp]: "dec_val (pad_left w (CHR ''0'') s) = dec_val s"
  by (simp add: pad_left_def dec_val_zeros)

lemma length_pad_left: "length (pad_left w c s) = max w (length s)"
  by (simp add: pad_left_def)

lemma pad_show_inject:
  "pad_left w (CHR ''0'') (show_nat m) = pad_left w (CHR ''0'') (show_nat n) \<longleftrightarrow> m = n"
  by (metis dec_val_pad dec_val_show_nat)

lemma digits_not_at: "\<not> is_digit (CHR ''@'')" "\<not> is_digit (CHR ''#'')"
  by (simp_all add: is_digit_def)

lemma pad_show_digits: "c \<in> set (pad_left w (CHR ''0'') (show_nat n)) \<Longrightarrow> is_digit c"
  by (auto simp: pad_left_def is_digit_def dest: show_nat_digits [unfolded is_digit_def])

end
