(* ===== verification/Config.thy ===== *)
theory Config
  imports Text
begin

text \<open>
  Configuration and errors: \<open>src/config.rs\<close> and \<open>src/error.rs\<close>. Sizes and thread counts
  (\<open>usize\<close>) are natural numbers, durations are nanoseconds. The names of the fields are the
  source's, with a prefix where two structs share one.
\<close>

record server_config =
  srv_events_capacity :: nat
  srv_recv_buffer_size :: nat
  srv_send_buffer_size :: nat

definition default_server_config :: server_config where
  "default_server_config =
     \<lparr>srv_events_capacity = 1024, srv_recv_buffer_size = 1024, srv_send_buffer_size = 1024\<rparr>"

record client_config =
  cl_events_capacity :: nat
  cl_recv_buffer_size :: nat
  cl_send_buffer_size :: nat

definition default_client_config :: client_config where
  "default_client_config =
     \<lparr>cl_events_capacity = 1024, cl_recv_buffer_size = 1024, cl_send_buffer_size = 1024\<rparr>"

record remote_config =
  remote_enabled :: bool
  listening :: string
  server_cfg :: server_config
  client_cfg :: client_config

definition default_remote_config :: remote_config where
  "default_remote_config =
     \<lparr>remote_enabled = False, listening = '''', server_cfg = default_server_config,
      client_cfg = default_client_config\<rparr>"

definition listening_at :: "string \<Rightarrow> server_config \<Rightarrow> client_config \<Rightarrow> remote_config" where
  "listening_at addr server client =
     \<lparr>remote_enabled = True, listening = addr, server_cfg = server, client_cfg = client\<rparr>"

record scheduler_config =
  default_mailbox_capacity :: nat
  logging_enabled :: bool
  metric_reporting_enabled :: bool
  metric_reporting_interval :: duration
  delay_precision :: duration
  actor_worker_threads :: nat
  extra_worker_threads :: nat
  eager_shutdown_enabled :: bool

definition default_scheduler_config :: scheduler_config where
  "default_scheduler_config =
     \<lparr>default_mailbox_capacity = 16,
      logging_enabled = True,
      metric_reporting_enabled = False,
      metric_reporting_interval = 1000000000,
      delay_precision = 1000000,
      actor_worker_threads = 4,
      extra_worker_threads = 1,
      eager_shutdown_enabled = True\<rparr>"

definition with_total_threads :: "nat \<Rightarrow> scheduler_config" where
  "with_total_threads total_threads =
     default_scheduler_config\<lparr>actor_worker_threads := total_threads\<rparr>"

definition total_threads_required :: "scheduler_config \<Rightarrow> nat" where
  "total_threads_required c = actor_worker_threads c + extra_worker_threads c + 1"

record config =
  cfg_scheduler :: scheduler_config
  cfg_remote :: remote_config

definition new_config :: "scheduler_config \<Rightarrow> remote_config \<Rightarrow> config" where
  "new_config scheduler remote = \<lparr>cfg_scheduler = scheduler, cfg_remote = remote\<rparr>"

definition default_config :: config where
  "default_config = \<lparr>cfg_scheduler = default_scheduler_config, cfg_remote = default_remote_config\<rparr>"

section \<open>Errors\<close>

datatype error =
    ThreadPoolTooSmall nat nat
  | InvalidServerAddress string
  | ServerBindFailed u16

text \<open>The text of the boxed error: \<open>ThreadPoolTooSmall required available\<close>.\<close>

fun error_message :: "error \<Rightarrow> string" where
  "error_message (ThreadPoolTooSmall required available) =
     ''Not enough threads in the pool: available='' @ show_nat available
     @ '' but required='' @ show_nat required"
| "error_message (InvalidServerAddress addr) = ''Invalid server address: '' @ addr"
| "error_message (ServerBindFailed port) =
     ''Failed to bind server on port '' @ show_nat (unat port)"

lemma total_threads_default: "total_threads_required default_scheduler_config = 6"
  by (simp add: total_threads_required_def default_scheduler_config_def)

lemma total_threads_with_total: "total_threads_required (with_total_threads n) = n + 2"
  by (simp add: total_threads_required_def with_total_threads_def default_scheduler_config_def)

lemma total_threads_pos: "0 < total_threads_required c"
  by (simp add: total_threads_required_def)

end
