(* ===== verification/Monitor.thy ===== *)
theory Monitor
  imports Prelude
begin

text \<open>
  The monitoring records of \<open>src/monitor.rs\<close>. The counters are \<open>u64\<close> and wrap as the
  release build does.
\<close>

record meta =
  meta_host :: string
  meta_app :: string
  meta_tag :: string

record logger_entry =
  le_at :: u64
  le_meta :: meta
  le_log :: string

record metric_entry =
  me_at :: u64
  me_meta :: meta
  me_val :: f64

record scheduler_metrics =
  m_name :: string
  m_at :: u64
  m_ticks :: u64
  m_miss :: u64
  m_hit :: u64
  m_messages :: u64
  m_queues :: u64
  m_returns :: u64
  m_spawns :: u64
  m_delays :: u64
  m_stops :: u64
  m_drops :: u64
  m_failures :: u64
  m_actors :: u64

definition metrics_named :: "string \<Rightarrow> scheduler_metrics" where
  "metrics_named name =
     \<lparr>m_name = name, m_at = 0, m_ticks = 0, m_miss = 0, m_hit = 0, m_messages = 0, m_queues = 0,
      m_returns = 0, m_spawns = 0, m_delays = 0, m_stops = 0, m_drops = 0, m_failures = 0,
      m_actors = 0\<rparr>"

definition metrics_reset :: "scheduler_metrics \<Rightarrow> scheduler_metrics" where
  "metrics_reset m =
     m\<lparr>m_at := 0, m_ticks := 0, m_miss := 0, m_hit := 0, m_messages := 0, m_queues := 0,
       m_returns := 0, m_spawns := 0, m_delays := 0, m_stops := 0, m_drops := 0, m_failures := 0,
       m_actors := 0\<rparr>"

lemma metrics_reset_named: "metrics_reset m = metrics_named (m_name m)"
  by (simp add: metrics_reset_def metrics_named_def)

end
