(* ===== verification/Scheduler.thy ===== *)
theory Scheduler
  imports Sender Config Monitor
begin

text \<open>
  The scheduler thread of \<open>src/core.rs\<close>: \<open>struct Scheduler\<close> and the body of \<open>event_loop\<close>.

  \<open>event_loop\<close> keeps its own locals beside the scheduler (counters, logs, metrics, the
  adaptive timeout); here they extend the record of the scheduler. Each arm of the
  \<open>match action\<close> is one definition, with the guard of the source as its condition; it
  returns the new state, the events sent to the workers and how the iteration goes on. An
  \<open>unwrap\<close> that fails is \<open>Panic\<close>.
\<close>

section \<open>State\<close>

record ('a, 'm) scheduler =
  sch_config :: scheduler_config
  actors :: "tag \<rightharpoonup> 'a"
  queue :: "tag \<rightharpoonup> 'm envelope list"
  tasks :: "'m tasks"
  active :: "tag set"

definition scheduler_with_config :: "scheduler_config \<Rightarrow> ('a, 'm) scheduler" where
  "scheduler_with_config c =
     \<lparr>sch_config = c, actors = Map.empty, queue = Map.empty, tasks = [], active = {}\<rparr>"

record ('a, 'm) event_loop = "('a, 'm) scheduler" +
  counters :: scheduler_metrics
  started :: instant
  logs :: "(tag \<times> (sys_time \<times> string) list) list"
  user_metrics :: "string \<rightharpoonup> (sys_time \<times> f64) list"
  timeout_millis :: nat

definition min_timeout_millis :: nat where
  "min_timeout_millis = 1"

definition max_timeout_millis :: nat where
  "max_timeout_millis = 256"

definition event_loop_init :: "scheduler_config \<Rightarrow> string \<Rightarrow> instant \<Rightarrow> ('a, 'm) event_loop" where
  "event_loop_init c name now =
     \<lparr>sch_config = c, actors = Map.empty, queue = Map.empty, tasks = [], active = {},
      counters = metrics_named name, started = now, logs = [], user_metrics = Map.empty,
      timeout_millis = max_timeout_millis\<rparr>"

datatype control = Proceed | Continue_Main | Break_Main

type_synonym ('a, 'm) handled = "(('a, 'm) event_loop \<times> ('a, 'm) event list \<times> control) outcome"

section \<open>The mailboxes\<close>

text \<open>\<open>queue.get_mut(&tag).unwrap().pop_front()\<close> and \<open>.push_back(envelope)\<close>.\<close>

definition pop_front :: "tag \<Rightarrow> (tag \<rightharpoonup> 'e list) \<Rightarrow> ('e option \<times> (tag \<rightharpoonup> 'e list)) outcome" where
  "pop_front tag q =
     (case q tag of
        None \<Rightarrow> Panic
      | Some [] \<Rightarrow> Ret (None, q)
      | Some (e # es) \<Rightarrow> Ret (Some e, q(tag \<mapsto> es)))"

definition push_back :: "tag \<Rightarrow> 'e \<Rightarrow> (tag \<rightharpoonup> 'e list) \<Rightarrow> (tag \<rightharpoonup> 'e list) outcome" where
  "push_back tag e q = (case q tag of None \<Rightarrow> Panic | Some es \<Rightarrow> Ret (q(tag \<mapsto> es @ [e])))"

section \<open>The arms of the match\<close>

definition on_return :: "tag \<Rightarrow> 'a \<Rightarrow> bool \<Rightarrow> ('a, 'm) event_loop \<Rightarrow> ('a, 'm) handled" where
  "on_return tag actor ok s =
     (if tag \<in> active s
      then if \<not> ok
           then Ret (s\<lparr>counters := (counters s)\<lparr>m_failures := m_failures (counters s) + 1\<rparr>,
                       active := active s - {tag},
                       queue := (queue s)(tag := None)\<rparr>, [], Continue_Main)
           else let s1 = s\<lparr>counters := (counters s)\<lparr>m_returns := m_returns (counters s) + 1\<rparr>\<rparr>
                in and_then (pop_front tag (queue s1)) (\<lambda>(front, q).
                     case front of
                       Some envelope \<Rightarrow>
                         Ret (s1\<lparr>queue := q\<rparr>, [Ev_Mail tag actor envelope], Proceed)
                     | None \<Rightarrow>
                         Ret (s1\<lparr>queue := q, actors := (actors s1)(tag \<mapsto> actor)\<rparr>, [], Proceed))
      else Ret (s\<lparr>queue := (queue s)(tag := None)\<rparr>,
                if ok then [Ev_Stop tag actor] else [], Proceed))"

definition on_drop :: "('a, 'm) event_loop \<Rightarrow> ('a, 'm) handled" where
  "on_drop s = Ret (s\<lparr>counters := (counters s)\<lparr>m_drops := m_drops (counters s) + 1\<rparr>\<rparr>, [], Proceed)"

definition on_queue :: "tag \<Rightarrow> 'm envelope \<Rightarrow> ('a, 'm) event_loop \<Rightarrow> ('a, 'm) handled" where
  "on_queue tag envelope s =
     (if tag \<in> active s
      then let s1 = s\<lparr>counters := (counters s)\<lparr>m_queues := m_queues (counters s) + 1,
                                             m_messages := m_messages (counters s) + 1\<rparr>\<rparr>
           in and_then (push_back tag envelope (queue s1)) (\<lambda>q.
                let s2 = s1\<lparr>queue := q\<rparr>
                in case actors s2 tag of
                     None \<Rightarrow> Ret (s2, [], Proceed)
                   | Some actor \<Rightarrow>
                       let s3 = s2\<lparr>actors := (actors s2)(tag := None)\<rparr>
                       in and_then (pop_front tag (queue s3)) (\<lambda>(front, q').
                            and_then (unwrap front) (\<lambda>envelope'.
                              Ret (s3\<lparr>queue := q'\<rparr>, [Ev_Mail tag actor envelope'], Proceed))))
      else on_drop s)"

definition on_spawn :: "tag \<Rightarrow> 'a \<Rightarrow> ('a, 'm) event_loop \<Rightarrow> ('a, 'm) handled" where
  "on_spawn tag actor s =
     (if tag \<notin> active s
      then Ret (s\<lparr>counters := (counters s)\<lparr>m_spawns := m_spawns (counters s) + 1\<rparr>,
                  active := insert tag (active s),
                  actors := (actors s)(tag \<mapsto> actor),
                  queue := (queue s)(tag \<mapsto> [])\<rparr>, [], Proceed)
      else on_drop s)"

definition on_delay :: "'m entry \<Rightarrow> ('a, 'm) event_loop \<Rightarrow> ('a, 'm) handled" where
  "on_delay e s =
     Ret (s\<lparr>counters := (counters s)\<lparr>m_delays := m_delays (counters s) + 1\<rparr>,
            tasks := push_task e (tasks s)\<rparr>, [], Proceed)"

definition on_stop_action :: "tag \<Rightarrow> ('a, 'm) event_loop \<Rightarrow> ('a, 'm) handled" where
  "on_stop_action tag s =
     (if tag \<in> active s
      then let s1 = s\<lparr>counters := (counters s)\<lparr>m_stops := m_stops (counters s) + 1\<rparr>,
                      active := active s - {tag},
                      queue := (queue s)(tag := None)\<rparr>
           in case actors s1 tag of
                None \<Rightarrow> Ret (s1, [], Proceed)
              | Some actor \<Rightarrow>
                  Ret (s1\<lparr>actors := (actors s1)(tag := None)\<rparr>, [Ev_Stop tag actor], Proceed)
      else on_drop s)"

definition on_logs ::
  "tag \<Rightarrow> (sys_time \<times> string) list \<Rightarrow> ('a, 'm) event_loop \<Rightarrow> ('a, 'm) handled"
where
  "on_logs tag entries s = Ret (s\<lparr>logs := logs s @ [(tag, entries)]\<rparr>, [], Proceed)"

text \<open>
  The loop over the received map appends each name's entries to those already kept; names are
  independent, so it is the pointwise union whatever the iteration order.
\<close>

definition merge_metrics ::
  "(string \<rightharpoonup> 'e list) \<Rightarrow> (string \<rightharpoonup> 'e list) \<Rightarrow> (string \<rightharpoonup> 'e list)"
where
  "merge_metrics kept received =
     (\<lambda>name. case received name of
        None \<Rightarrow> kept name
      | Some entries \<Rightarrow> Some ((case kept name of None \<Rightarrow> [] | Some es \<Rightarrow> es) @ entries))"

definition on_metrics ::
  "(string \<rightharpoonup> (sys_time \<times> f64) list) \<Rightarrow> ('a, 'm) event_loop \<Rightarrow> ('a, 'm) handled"
where
  "on_metrics m s = Ret (s\<lparr>user_metrics := merge_metrics (user_metrics s) m\<rparr>, [], Proceed)"

primrec handle_action :: "('a, 'm) action \<Rightarrow> ('a, 'm) event_loop \<Rightarrow> ('a, 'm) handled" where
  "handle_action (Act_Return tag actor ok) s = on_return tag actor ok s"
| "handle_action (Act_Queue tag envelope) s = on_queue tag envelope s"
| "handle_action (Act_Spawn tag actor) s = on_spawn tag actor s"
| "handle_action (Act_Delay e) s = on_delay e s"
| "handle_action (Act_Stop tag) s = on_stop_action tag s"
| "handle_action (Act_Logs tag entries) s = on_logs tag entries s"
| "handle_action (Act_Metrics m) s = on_metrics m s"
| "handle_action Act_Shutdown s = Ret (s, [], Break_Main)"

section \<open>One iteration of the loop\<close>

text \<open>
  The clock readings an iteration makes: \<open>Instant::now()\<close> before the timer loop, the instant
  \<open>start.elapsed()\<close> reads, \<open>SystemTime::now()\<close> and the new \<open>start\<close>.
\<close>

record readings =
  rd_now :: instant
  rd_elapsed :: instant
  rd_system :: sys_time
  rd_restart :: instant

text \<open>The jobs handed to the background thread pool.\<close>

datatype report =
    Report_Metrics string string scheduler_metrics "string \<rightharpoonup> (sys_time \<times> f64) list"
  | Report_Logs string string "(tag \<times> (sys_time \<times> string) list) list"

definition epoch_millis :: "sys_time \<Rightarrow> u64 outcome" where
  "epoch_millis t = (if t < 0 then Panic else Ret (word_of_int (t div 1000000)))"

definition timer_phase ::
  "readings \<Rightarrow> ('a, 'm) event_loop \<Rightarrow> ('a, 'm) event_loop \<times> ('a, 'm) action list"
where
  "timer_phase rd s =
     (let now = rd_now rd + delay_precision (sch_config s) div 2;
          (due, rest) = drain_due now (tasks s)
      in (s\<lparr>tasks := rest\<rparr>, map (\<lambda>e. Act_Queue (entry_tag e) (entry_envelope e)) due))"

definition report_phase ::
  "string \<Rightarrow> string \<Rightarrow> readings \<Rightarrow> ('a, 'm) event_loop \<Rightarrow>
   (('a, 'm) event_loop \<times> report list) outcome"
where
  "report_phase name host rd s0 =
     (let s = s0\<lparr>counters := (counters s0)\<lparr>m_ticks := m_ticks (counters s0) + 1\<rparr>\<rparr>
      in if metric_reporting_interval (sch_config s) \<le> rd_elapsed rd - started s
         then and_then (epoch_millis (rd_system rd)) (\<lambda>at.
                let s1 = s\<lparr>counters := (counters s)\<lparr>m_at := at,
                              m_actors := word_of_nat (card (active s))\<rparr>\<rparr>;
                    (s2, r2) =
                      (if metric_reporting_enabled (sch_config s1)
                       then (s1\<lparr>counters := metrics_reset (counters s1), user_metrics := Map.empty\<rparr>,
                             [Report_Metrics name host (counters s1) (user_metrics s1)])
                       else (s1, []));
                    (s3, r3) =
                      (if logging_enabled (sch_config s2)
                       then (s2\<lparr>logs := []\<rparr>, [Report_Logs name host (logs s2)])
                       else (s2, []))
                in Ret (s3\<lparr>started := rd_restart rd\<rparr>, r2 @ r3))
         else Ret (s, []))"

text \<open>What an iteration sends: to the workers, back to its own channel, to the background.\<close>

record ('a, 'm) sent =
  to_workers :: "('a, 'm) event list"
  to_self :: "('a, 'm) action list"
  to_background :: "report list"

definition nothing_sent :: "('a, 'm) sent" where
  "nothing_sent = \<lparr>to_workers = [], to_self = [], to_background = []\<rparr>"

definition loop_tail ::
  "string \<Rightarrow> string \<Rightarrow> readings \<Rightarrow> ('a, 'm) event list \<Rightarrow> ('a, 'm) event_loop \<Rightarrow>
   (('a, 'm) event_loop \<times> ('a, 'm) sent \<times> bool) outcome"
where
  "loop_tail name host rd events s =
     (let (s1, requeued) = timer_phase rd s
      in and_then (report_phase name host rd s1) (\<lambda>(s2, reports).
           Ret (s2, \<lparr>to_workers = events, to_self = requeued, to_background = reports\<rparr>,
                \<not> (eager_shutdown_enabled (sch_config s2) \<and> active s2 = {}))))"

text \<open>
  The body of \<open>'main: loop\<close>. \<open>received\<close> is what \<open>recv_timeout\<close> returned (\<open>None\<close> for a
  timeout); \<open>workers_alive\<close> says whether some worker still holds the receiving end of the
  event channel, without which sending an event panics. The flag of the result says whether
  the loop goes on.
\<close>

definition event_loop_step ::
  "bool \<Rightarrow> string \<Rightarrow> string \<Rightarrow> ('a, 'm) action option \<Rightarrow> readings \<Rightarrow> ('a, 'm) event_loop \<Rightarrow>
   (('a, 'm) event_loop \<times> ('a, 'm) sent \<times> bool) outcome"
where
  "event_loop_step workers_alive name host received rd s =
     (case received of
        Some act \<Rightarrow>
          let s1 = s\<lparr>timeout_millis := max min_timeout_millis (timeout_millis s div 2),
                     counters := (counters s)\<lparr>m_hit := m_hit (counters s) + 1\<rparr>\<rparr>
          in and_then (handle_action act s1) (\<lambda>(s2, events, control).
               if events \<noteq> [] \<and> \<not> workers_alive then Panic
               else case control of
                      Continue_Main \<Rightarrow> Ret (s2, nothing_sent\<lparr>to_workers := events\<rparr>, True)
                    | Break_Main \<Rightarrow> Ret (s2, nothing_sent\<lparr>to_workers := events\<rparr>, False)
                    | Proceed \<Rightarrow> loop_tail name host rd events s2)
      | None \<Rightarrow>
          let s1 = s\<lparr>timeout_millis := min (timeout_millis s * 2) max_timeout_millis,
                     counters := (counters s)\<lparr>m_miss := m_miss (counters s) + 1\<rparr>\<rparr>
          in loop_tail name host rd [] s1)"

text \<open>
  \<open>event_loop\<close>: iterations over what the channel and the clock deliver, until the loop breaks
  (flag \<open>False\<close>) or the observation ends (flag \<open>True\<close>).
\<close>

fun event_loop_run ::
  "bool \<Rightarrow> string \<Rightarrow> string \<Rightarrow> (('a, 'm) action option \<times> readings) list \<Rightarrow> ('a, 'm) event_loop \<Rightarrow>
   (('a, 'm) event_loop \<times> ('a, 'm) sent list \<times> bool) outcome"
where
  "event_loop_run alive name host [] s = Ret (s, [], True)"
| "event_loop_run alive name host ((received, rd) # inputs) s =
     and_then (event_loop_step alive name host received rd s) (\<lambda>(s1, out, go).
       if go
       then and_then (event_loop_run alive name host inputs s1) (\<lambda>(s2, outs, go').
              Ret (s2, out # outs, go'))
       else Ret (s1, [out], False))"

end
