(* ===== verification/Scheduler_Inv.thy ===== *)
theory Scheduler_Inv
  imports Scheduler
begin

text \<open>
  The well-formedness of the scheduler and the proof that every arm of the loop keeps it: a
  tag is active exactly when it has a mailbox, an active actor that is at rest has an empty
  mailbox, the heap of delayed messages is a heap and the timeout stays between its bounds.
  With it no \<open>unwrap\<close> of the loop fails.
\<close>

section \<open>The invariant\<close>

definition mailboxes_ok :: "('a, 'm, 'z) scheduler_scheme \<Rightarrow> bool" where
  "mailboxes_ok s \<longleftrightarrow>
     finite (active s) \<and> dom (queue s) = active s \<and>
     (\<forall>tag \<in> active s. actors s tag \<noteq> None \<longrightarrow> queue s tag = Some [])"

definition timeout_ok :: "('a, 'm, 'z) event_loop_scheme \<Rightarrow> bool" where
  "timeout_ok s \<longleftrightarrow>
     min_timeout_millis \<le> timeout_millis s \<and> timeout_millis s \<le> max_timeout_millis"

definition loop_ok :: "('a, 'm) event_loop \<Rightarrow> bool" where
  "loop_ok s \<longleftrightarrow> mailboxes_ok s \<and> tasks_ok (tasks s) \<and> timeout_ok s"

lemmas loop_ok_defs = loop_ok_def mailboxes_ok_def timeout_ok_def
lemmas timeout_defs = min_timeout_millis_def max_timeout_millis_def

lemma loop_ok_init [inv_intros]: "loop_ok (event_loop_init c name now)"
  by (simp add: loop_ok_defs event_loop_init_def timeout_defs entry_order.heap_order_def)

lemma mailbox_of_active: "mailboxes_ok s \<Longrightarrow> tag \<in> active s \<Longrightarrow> \<exists>es. queue s tag = Some es"
  by (auto simp: mailboxes_ok_def dom_def)

section \<open>Mailbox operations\<close>

lemma pop_front_Some:
  "q tag = Some es \<Longrightarrow>
   pop_front tag q = Ret (case es of [] \<Rightarrow> (None, q) | e # es' \<Rightarrow> (Some e, q(tag \<mapsto> es')))"
  by (auto simp: pop_front_def split: list.splits)

lemma push_back_Some: "q tag = Some es \<Longrightarrow> push_back tag e q = Ret (q(tag \<mapsto> es @ [e]))"
  by (simp add: push_back_def)

section \<open>Each arm, with its mailbox known\<close>

text \<open>The result of an arm that met its guard, as an equation without \<open>and_then\<close>.\<close>

lemma on_return_active:
  assumes "tag \<in> active s" "queue s tag = Some es"
  shows "on_return tag actor True s =
    (let c = (counters s)\<lparr>m_returns := m_returns (counters s) + 1\<rparr>
     in case es of
          [] \<Rightarrow> Ret (s\<lparr>counters := c, actors := (actors s)(tag \<mapsto> actor)\<rparr>, [], Proceed)
        | e # es' \<Rightarrow>
            Ret (s\<lparr>counters := c, queue := (queue s)(tag \<mapsto> es')\<rparr>, [Ev_Mail tag actor e], Proceed))"
  using assms by (simp add: on_return_def pop_front_Some Let_def split: list.splits)

lemma on_queue_active:
  assumes "tag \<in> active s" "queue s tag = Some es"
  shows "on_queue tag e s =
    (let c = (counters s)\<lparr>m_queues := m_queues (counters s) + 1, m_messages := m_messages (counters s) + 1\<rparr>
     in case actors s tag of
          None \<Rightarrow> Ret (s\<lparr>counters := c, queue := (queue s)(tag \<mapsto> es @ [e])\<rparr>, [], Proceed)
        | Some actor \<Rightarrow>
            Ret (s\<lparr>counters := c, queue := (queue s)(tag \<mapsto> tl (es @ [e])),
                   actors := (actors s)(tag := None)\<rparr>,
                 [Ev_Mail tag actor (hd (es @ [e]))], Proceed))"
  using assms
  by (cases es) (simp_all add: on_queue_def push_back_Some pop_front_Some Let_def split: option.splits)

text \<open>The ways \<open>Action::Return\<close> can end.\<close>

lemma on_return_Ret:
  assumes "on_return tag actor ok s = Ret (s', events, control)"
  obtains
    (failed) "tag \<in> active s" "\<not> ok" "events = []" "control = Continue_Main"
      "s' = s\<lparr>counters := (counters s)\<lparr>m_failures := m_failures (counters s) + 1\<rparr>,
              active := active s - {tag}, queue := (queue s)(tag := None)\<rparr>"
  | (mail) e es where "tag \<in> active s" "ok" "queue s tag = Some (e # es)"
      "events = [Ev_Mail tag actor e]" "control = Proceed"
      "s' = s\<lparr>counters := (counters s)\<lparr>m_returns := m_returns (counters s) + 1\<rparr>,
              queue := (queue s)(tag \<mapsto> es)\<rparr>"
  | (rest) "tag \<in> active s" "ok" "queue s tag = Some []" "events = []" "control = Proceed"
      "s' = s\<lparr>counters := (counters s)\<lparr>m_returns := m_returns (counters s) + 1\<rparr>,
              queue := queue s, actors := (actors s)(tag \<mapsto> actor)\<rparr>"
  | (stopped) "tag \<notin> active s" "events = (if ok then [Ev_Stop tag actor] else [])" "control = Proceed"
      "s' = s\<lparr>queue := (queue s)(tag := None)\<rparr>"
proof (cases "tag \<in> active s \<and> ok")
  case True
  then show ?thesis
  proof (cases "queue s tag")
    case None
    with True assms show ?thesis by (simp add: on_return_def pop_front_def)
  next
    case (Some es)
    with True assms mail rest show ?thesis by (cases es) (simp_all add: on_return_def pop_front_def)
  qed
next
  case False
  with assms failed stopped show ?thesis by (cases "tag \<in> active s") (simp_all add: on_return_def)
qed

text \<open>What the arms leave alone, and how they let the loop go on.\<close>

definition handled_frame ::
  "('a, 'm) action \<Rightarrow> ('a, 'm) event_loop \<Rightarrow> ('a, 'm) event_loop \<Rightarrow> control \<Rightarrow> bool"
where
  "handled_frame act s s' control \<longleftrightarrow>
    sch_config s' = sch_config s \<and> timeout_millis s' = timeout_millis s \<and>
    tasks s' = (case act of Act_Delay e \<Rightarrow> push_task e (tasks s) | _ \<Rightarrow> tasks s) \<and>
    logs s' = (case act of Act_Logs tag entries \<Rightarrow> logs s @ [(tag, entries)] | _ \<Rightarrow> logs s) \<and>
    user_metrics s' = (case act of Act_Metrics m \<Rightarrow> merge_metrics (user_metrics s) m | _ \<Rightarrow> user_metrics s) \<and>
    (control = Break_Main \<longleftrightarrow> act = Act_Shutdown) \<and>
    (control = Continue_Main \<longleftrightarrow> (\<exists>tag actor. act = Act_Return tag actor False \<and> tag \<in> active s))"

lemma handle_action_frame:
  assumes "handle_action act s = Ret (s', events, control)"
  shows "handled_frame act s s' control"
proof (cases act)
  case (Act_Return tag actor ok)
  then have "on_return tag actor ok s = Ret (s', events, control)" using assms by simp
  then show ?thesis by (cases rule: on_return_Ret) (simp_all add: handled_frame_def Act_Return)
qed (use assms in \<open>auto simp: handled_frame_def on_queue_def on_drop_def on_spawn_def on_delay_def
    on_stop_action_def on_logs_def on_metrics_def Let_def split: if_splits option.splits\<close>)

section \<open>Every arm succeeds and keeps the invariant\<close>

definition stays_ok :: "('a, 'm) handled \<Rightarrow> bool" where
  "stays_ok r \<longleftrightarrow> (\<exists>s events control. r = Ret (s, events, control) \<and> loop_ok s)"

lemma stays_ok_Ret [simp]: "stays_ok (Ret (s, events, control)) \<longleftrightarrow> loop_ok s"
  by (auto simp: stays_ok_def)

lemma on_return_ok [inv_intros]:
  assumes "loop_ok s"
  shows "stays_ok (on_return tag actor ok s)"
proof (cases "tag \<in> active s \<and> ok")
  case True
  with assms obtain es where "queue s tag = Some es"
    using mailbox_of_active unfolding loop_ok_def by blast
  with True assms show ?thesis
    by (cases es) (auto simp: on_return_active Let_def loop_ok_defs)
next
  case False
  with assms show ?thesis by (auto simp: on_return_def loop_ok_defs)
qed

lemma on_drop_ok [inv_intros]: "loop_ok s \<Longrightarrow> stays_ok (on_drop s)"
  by (simp add: on_drop_def loop_ok_defs)

lemma on_queue_ok [inv_intros]:
  assumes "loop_ok s"
  shows "stays_ok (on_queue tag e s)"
proof (cases "tag \<in> active s")
  case True
  with assms obtain es where es: "queue s tag = Some es"
    using mailbox_of_active unfolding loop_ok_def by blast
  show ?thesis
  proof (cases "actors s tag")
    case None
    with es True assms show ?thesis by (auto simp: on_queue_active Let_def loop_ok_defs)
  next
    case (Some actor)
    with es True assms have "es = []" by (auto simp: loop_ok_defs)
    with Some es True assms show ?thesis by (auto simp: on_queue_active Let_def loop_ok_defs)
  qed
next
  case False
  with assms show ?thesis by (simp add: on_queue_def on_drop_ok)
qed

lemma on_spawn_ok [inv_intros]: "loop_ok s \<Longrightarrow> stays_ok (on_spawn tag actor s)"
  by (auto simp: on_spawn_def on_drop_ok loop_ok_defs)

lemma on_delay_ok [inv_intros]: "loop_ok s \<Longrightarrow> stays_ok (on_delay e s)"
  by (simp add: on_delay_def loop_ok_defs push_task_ok)

lemma on_stop_action_ok [inv_intros]: "loop_ok s \<Longrightarrow> stays_ok (on_stop_action tag s)"
  by (auto simp: on_stop_action_def on_drop_ok loop_ok_defs Let_def split: option.splits)

lemma on_logs_ok [inv_intros]: "loop_ok s \<Longrightarrow> stays_ok (on_logs tag entries s)"
  by (simp add: on_logs_def loop_ok_defs)

lemma on_metrics_ok [inv_intros]: "loop_ok s \<Longrightarrow> stays_ok (on_metrics m s)"
  by (simp add: on_metrics_def loop_ok_defs)

lemma handle_action_ok: "loop_ok s \<Longrightarrow> stays_ok (handle_action act s)"
  by (cases act) (simp_all add: inv_intros)

section \<open>The rest of the iteration\<close>

lemma timer_phase_ok [inv_intros]: "loop_ok s \<Longrightarrow> loop_ok (fst (timer_phase rd s))"
  using drain_due_ok [of "tasks s"]
  by (simp add: timer_phase_def Let_def split_beta loop_ok_defs)

text \<open>Only the counters, the logs, the metrics and \<open>start\<close> change in the report phase.\<close>

lemma report_phase_frame:
  assumes "report_phase name host rd s = Ret (s', reports)"
  shows "actors s' = actors s" "queue s' = queue s" "tasks s' = tasks s" "active s' = active s"
    "sch_config s' = sch_config s" "timeout_millis s' = timeout_millis s"
  using assms by (auto simp: report_phase_def Let_def split: if_splits)

lemma report_phase_total:
  "0 \<le> rd_system rd \<Longrightarrow> \<exists>s' reports. report_phase name host rd s = Ret (s', reports)"
  by (auto simp: report_phase_def Let_def epoch_millis_def)

lemma report_phase_ok [inv_intros]:
  assumes "loop_ok s" "report_phase name host rd s = Ret (s', reports)"
  shows "loop_ok s'"
  using assms(1) report_phase_frame [OF assms(2)] by (simp add: loop_ok_defs)

lemma loop_tail_Ret:
  assumes "loop_tail name host rd events s = Ret (s', out, go)"
  obtains reports where
    "report_phase name host rd (fst (timer_phase rd s)) = Ret (s', reports)"
    "out = \<lparr>to_workers = events, to_self = snd (timer_phase rd s), to_background = reports\<rparr>"
    "go = (\<not> (eager_shutdown_enabled (sch_config s') \<and> active s' = {}))"
  using assms by (simp add: loop_tail_def split_beta) blast

lemma loop_tail_keeps:
  assumes "loop_ok s" "loop_tail name host rd events s = Ret (s', out, go)"
  shows "loop_ok s'"
  using assms(2) timer_phase_ok [OF assms(1), of rd] by (auto elim!: loop_tail_Ret intro: report_phase_ok)

lemma loop_tail_total:
  assumes "0 \<le> rd_system rd"
  shows "\<exists>s' out go. loop_tail name host rd events s = Ret (s', out, go)"
proof -
  obtain s1 requeued where t: "timer_phase rd s = (s1, requeued)" by fastforce
  then show ?thesis
    using report_phase_total [OF assms, of name host s1] by (auto simp: loop_tail_def)
qed

section \<open>Iterations\<close>

text \<open>The state in which the loop handles what it received, after the timeout is adapted.\<close>

definition after_hit :: "('a, 'm) event_loop \<Rightarrow> ('a, 'm) event_loop" where
  "after_hit s = s\<lparr>timeout_millis := max min_timeout_millis (timeout_millis s div 2),
                   counters := (counters s)\<lparr>m_hit := m_hit (counters s) + 1\<rparr>\<rparr>"

definition after_miss :: "('a, 'm) event_loop \<Rightarrow> ('a, 'm) event_loop" where
  "after_miss s = s\<lparr>timeout_millis := min (timeout_millis s * 2) max_timeout_millis,
                    counters := (counters s)\<lparr>m_miss := m_miss (counters s) + 1\<rparr>\<rparr>"

lemmas after_defs = after_hit_def after_miss_def

lemma after_hit_ok [inv_intros]: "loop_ok s \<Longrightarrow> loop_ok (after_hit s)"
  by (auto simp: after_hit_def loop_ok_defs timeout_defs)

lemma after_miss_ok [inv_intros]: "loop_ok s \<Longrightarrow> loop_ok (after_miss s)"
  by (auto simp: after_miss_def loop_ok_defs timeout_defs)

text \<open>The ways an iteration can return.\<close>

lemma event_loop_step_Ret:
  assumes "event_loop_step alive name host received rd s = Ret (s', out, go)"
  obtains
    (miss) "received = None" "loop_tail name host rd [] (after_miss s) = Ret (s', out, go)"
  | (handled) act s2 events where "received = Some act"
      "handle_action act (after_hit s) = Ret (s2, events, Proceed)"
      "loop_tail name host rd events s2 = Ret (s', out, go)"
  | (skipped) act events where "received = Some act"
      "handle_action act (after_hit s) = Ret (s', events, Continue_Main)"
      "out = nothing_sent\<lparr>to_workers := events\<rparr>" "go"
  | (shutdown) act events where "received = Some act"
      "handle_action act (after_hit s) = Ret (s', events, Break_Main)"
      "out = nothing_sent\<lparr>to_workers := events\<rparr>" "\<not> go"
  using assms
  by (auto simp: event_loop_step_def Let_def after_defs split: option.splits if_splits control.splits)

lemma event_loop_step_keeps:
  assumes "loop_ok s" "event_loop_step alive name host received rd s = Ret (s', out, go)"
  shows "loop_ok s'"
  using assms(2)
proof (cases rule: event_loop_step_Ret)
  case miss
  then show ?thesis using loop_tail_keeps after_miss_ok [OF assms(1)] by blast
next
  case (handled act s2 events)
  then show ?thesis
    using handle_action_ok [OF after_hit_ok [OF assms(1)], of act] loop_tail_keeps by fastforce
next
  case (skipped act events)
  then show ?thesis using handle_action_ok [OF after_hit_ok [OF assms(1)], of act] by simp
next
  case (shutdown act events)
  then show ?thesis using handle_action_ok [OF after_hit_ok [OF assms(1)], of act] by simp
qed

lemma event_loop_step_total:
  assumes ok: "loop_ok s" and clock: "0 \<le> rd_system rd"
  shows "\<exists>s' out go. event_loop_step True name host received rd s = Ret (s', out, go)"
proof (cases received)
  case None
  with loop_tail_total [OF clock] show ?thesis
    by (auto simp: event_loop_step_def Let_def)
next
  case (Some act)
  obtain s2 events control where
    "handle_action act (after_hit s) = Ret (s2, events, control)"
    using handle_action_ok [OF after_hit_ok [OF ok], of act] unfolding stays_ok_def by blast
  with loop_tail_total [OF clock, of name host events s2] Some show ?thesis
    by (cases control) (auto simp: event_loop_step_def after_hit_def ex_bool_eq)
qed

lemma event_loop_run_keeps:
  "loop_ok s \<Longrightarrow> event_loop_run alive name host inputs s = Ret (s', outs, go) \<Longrightarrow> loop_ok s'"
proof (induction inputs arbitrary: s outs go)
  case Nil
  then show ?case by simp
next
  case (Cons input inputs)
  then show ?case
    by (cases input) (auto split: if_splits dest: event_loop_step_keeps)
qed

lemma event_loop_run_total:
  assumes "loop_ok s" "\<forall>(received, rd) \<in> set inputs. 0 \<le> rd_system rd"
  shows "\<exists>s' outs go. event_loop_run True name host inputs s = Ret (s', outs, go)"
  using assms
proof (induction inputs arbitrary: s)
  case Nil
  then show ?case by (simp add: ex_bool_eq)
next
  case (Cons input inputs)
  obtain received rd where input: "input = (received, rd)" by fastforce
  with Cons.prems obtain s1 out go where
    step: "event_loop_step True name host received rd s = Ret (s1, out, go)"
    using event_loop_step_total [of s rd name host received] by auto
  then have "loop_ok s1" using Cons.prems(1) event_loop_step_keeps by blast
  with Cons.IH [OF this] Cons.prems(2) step input show ?case
    by (cases go) auto
qed

end
