(* ===== verification/Scheduler_Spec.thy ===== *)
theory Scheduler_Spec
  imports Scheduler_Inv
begin

text \<open>
  What the scheduler promises, without its maps: a tag is bound to nothing, to an actor at
  rest, or to an actor some worker holds, with the messages that wait for it. An action
  concerns one tag and moves that tag's cell only. \<open>handle_action\<close> implements this
  specification (\<open>handle_action_refines\<close>), and so do whole runs of the event loop, whose
  timers, counters and reports the specification does not see. The properties of message
  delivery are proved on the specification and read off the runs.
\<close>

section \<open>The abstract machine\<close>

datatype ('a, 'm) cell = Absent | Idle 'a | Busy "'m envelope list"

fun action_tag :: "('a, 'm) action \<Rightarrow> tag option" where
  "action_tag (Act_Return tag actor ok) = Some tag"
| "action_tag (Act_Spawn tag actor) = Some tag"
| "action_tag (Act_Queue tag envelope) = Some tag"
| "action_tag (Act_Stop tag) = Some tag"
| "action_tag _ = None"

fun cell_step :: "tag \<Rightarrow> ('a, 'm) action \<Rightarrow> ('a, 'm) cell \<Rightarrow> ('a, 'm) cell \<times> ('a, 'm) event list" where
  "cell_step tag (Act_Spawn _ actor) Absent = (Idle actor, [])"
| "cell_step tag (Act_Queue _ e) (Idle actor) = (Busy [], [Ev_Mail tag actor e])"
| "cell_step tag (Act_Queue _ e) (Busy es) = (Busy (es @ [e]), [])"
| "cell_step tag (Act_Return _ actor True) Absent = (Absent, [Ev_Stop tag actor])"
| "cell_step tag (Act_Return _ actor True) (Idle _) = (Idle actor, [])"
| "cell_step tag (Act_Return _ actor True) (Busy []) = (Idle actor, [])"
| "cell_step tag (Act_Return _ actor True) (Busy (e # es)) = (Busy es, [Ev_Mail tag actor e])"
| "cell_step tag (Act_Return _ actor False) c = (Absent, [])"
| "cell_step tag (Act_Stop _) (Idle actor) = (Absent, [Ev_Stop tag actor])"
| "cell_step tag (Act_Stop _) c = (Absent, [])"
| "cell_step tag _ c = (c, [])"

definition cells_step ::
  "('a, 'm) action \<Rightarrow> (tag \<Rightarrow> ('a, 'm) cell) \<Rightarrow> (tag \<Rightarrow> ('a, 'm) cell) \<times> ('a, 'm) event list"
where
  "cells_step act f =
     (case action_tag act of
        None \<Rightarrow> (f, [])
      | Some tag \<Rightarrow> (f(tag := fst (cell_step tag act (f tag))), snd (cell_step tag act (f tag))))"

primrec cells_run ::
  "('a, 'm) action list \<Rightarrow> (tag \<Rightarrow> ('a, 'm) cell) \<Rightarrow> (tag \<Rightarrow> ('a, 'm) cell) \<times> ('a, 'm) event list"
where
  "cells_run [] f = (f, [])"
| "cells_run (act # acts) f =
     (fst (cells_run acts (fst (cells_step act f))),
      snd (cells_step act f) @ snd (cells_run acts (fst (cells_step act f))))"

section \<open>Abstraction\<close>

fun cell_at :: "bool \<Rightarrow> 'a option \<Rightarrow> 'm envelope list option \<Rightarrow> ('a, 'm) cell" where
  "cell_at False actor mailbox = Absent"
| "cell_at True (Some actor) mailbox = Idle actor"
| "cell_at True None mailbox = Busy (the mailbox)"

definition cell_of :: "('a, 'm, 'z) scheduler_scheme \<Rightarrow> tag \<Rightarrow> ('a, 'm) cell" where
  "cell_of s tag = cell_at (tag \<in> active s) (actors s tag) (queue s tag)"

lemma cell_of_cong:
  "actors s' = actors s \<Longrightarrow> queue s' = queue s \<Longrightarrow> active s' = active s \<Longrightarrow> cell_of s' = cell_of s"
  by (rule ext) (simp add: cell_of_def)

lemma cell_of_init: "cell_of (event_loop_init c name now) = (\<lambda>_. Absent)"
  by (rule ext) (simp add: cell_of_def event_loop_init_def)

definition refines ::
  "('a, 'm) action \<Rightarrow> (tag \<Rightarrow> ('a, 'm) cell) \<Rightarrow> ('a, 'm) handled \<Rightarrow> bool"
where
  "refines act f r \<longleftrightarrow>
     (\<forall>s events control. r = Ret (s, events, control) \<longrightarrow> (cell_of s, events) = cells_step act f)"

lemma refines_Ret [simp]:
  "refines act f (Ret (s, events, control)) \<longleftrightarrow> cell_of s = fst (cells_step act f) \<and> events = snd (cells_step act f)"
  by (simp add: refines_def prod_eq_iff)

lemma on_return_refines:
  assumes "loop_ok s"
  shows "refines (Act_Return tag actor ok) (cell_of s) (on_return tag actor ok s)"
proof (cases "tag \<in> active s \<and> ok")
  case True
  with assms obtain es where es: "queue s tag = Some es"
    using mailbox_of_active unfolding loop_ok_def by blast
  have "es = []" if "actors s tag \<noteq> None" using that True assms es by (auto simp: loop_ok_defs)
  with True es show ?thesis
    by (cases es; cases "actors s tag")
      (auto simp: on_return_active Let_def cells_step_def cell_of_def fun_eq_iff)
next
  case False
  then show ?thesis
    by (cases ok) (auto simp: on_return_def cells_step_def cell_of_def fun_eq_iff)
qed

lemma on_queue_refines:
  assumes "loop_ok s"
  shows "refines (Act_Queue tag e) (cell_of s) (on_queue tag e s)"
proof (cases "tag \<in> active s")
  case True
  with assms obtain es where es: "queue s tag = Some es"
    using mailbox_of_active unfolding loop_ok_def by blast
  have "es = []" if "actors s tag \<noteq> None" using that True assms es by (auto simp: loop_ok_defs)
  with True es show ?thesis
    by (cases "actors s tag") (auto simp: on_queue_active Let_def cells_step_def cell_of_def fun_eq_iff)
next
  case False
  then show ?thesis
    by (auto simp: on_queue_def on_drop_def cells_step_def cell_of_def fun_eq_iff)
qed

lemma on_spawn_refines: "refines (Act_Spawn tag actor) (cell_of s) (on_spawn tag actor s)"
  by (cases "actors s tag") (auto simp: on_spawn_def on_drop_def cells_step_def cell_of_def fun_eq_iff)

lemma on_stop_refines: "refines (Act_Stop tag) (cell_of s) (on_stop_action tag s)"
  by (cases "actors s tag")
    (auto simp: on_stop_action_def on_drop_def cells_step_def cell_of_def fun_eq_iff Let_def)

lemma handle_action_refines: "loop_ok s \<Longrightarrow> refines act (cell_of s) (handle_action act s)"
  by (cases act)
    (simp_all add: on_return_refines on_queue_refines on_spawn_refines on_stop_refines,
      auto simp: on_delay_def on_logs_def on_metrics_def cells_step_def fun_eq_iff cell_of_def)

section \<open>Iterations and runs\<close>

definition received_actions :: "(('a, 'm) action option \<times> readings) list \<Rightarrow> ('a, 'm) action list" where
  "received_actions inputs = concat (map (\<lambda>(r, rd). case r of None \<Rightarrow> [] | Some act \<Rightarrow> [act]) inputs)"

lemma received_actions_simps [simp]:
  "received_actions [] = []"
  "received_actions ((None, rd) # inputs) = received_actions inputs"
  "received_actions ((Some act, rd) # inputs) = act # received_actions inputs"
  by (simp_all add: received_actions_def)

lemma cell_of_after [simp]: "cell_of (after_hit s) = cell_of s" "cell_of (after_miss s) = cell_of s"
  by (simp_all add: after_defs fun_eq_iff cell_of_def)

lemma loop_tail_cells:
  assumes "loop_tail name host rd events s = Ret (s', out, go)"
  shows "cell_of s' = cell_of s" "to_workers out = events"
  using assms
  by (auto elim!: loop_tail_Ret simp: fun_eq_iff cell_of_def report_phase_frame timer_phase_def
      Let_def split_beta)

lemma event_loop_step_refines:
  assumes ok: "loop_ok s" and step: "event_loop_step alive name host received rd s = Ret (s', out, go)"
  shows "(cell_of s', to_workers out) =
    (case received of None \<Rightarrow> (cell_of s, []) | Some act \<Rightarrow> cells_step act (cell_of s))"
  using step
proof (cases rule: event_loop_step_Ret)
  case miss
  then show ?thesis by (simp add: loop_tail_cells)
next
  case (handled act s2 events)
  then show ?thesis
    using handle_action_refines [OF after_hit_ok [OF ok], of act] by (simp add: loop_tail_cells)
next
  case (skipped act events)
  then show ?thesis
    using handle_action_refines [OF after_hit_ok [OF ok], of act] by simp
next
  case (shutdown act events)
  then show ?thesis
    using handle_action_refines [OF after_hit_ok [OF ok], of act] by simp
qed

lemma event_loop_run_refines:
  "loop_ok s \<Longrightarrow> event_loop_run alive name host inputs s = Ret (s', outs, go) \<Longrightarrow>
   (cell_of s', concat (map to_workers outs)) =
   cells_run (received_actions (take (length outs) inputs)) (cell_of s)"
proof (induction inputs arbitrary: s outs go)
  case Nil
  then show ?case by simp
next
  case (Cons input inputs)
  obtain received rd where input: "input = (received, rd)" by fastforce
  with Cons.prems(2) obtain s1 out go1 where
    step: "event_loop_step alive name host received rd s = Ret (s1, out, go1)"
    by auto
  note cells = event_loop_step_refines [OF Cons.prems(1) step]
  show ?case
  proof (cases go1)
    case True
    with Cons.prems(2) input step obtain outs' where
      run: "event_loop_run alive name host inputs s1 = Ret (s', outs', go)" and outs: "outs = out # outs'"
      by auto
    from Cons.IH [OF event_loop_step_keeps [OF Cons.prems(1) step] run]
    show ?thesis using cells outs unfolding input by (cases received) (auto simp: prod_eq_iff)
  next
    case False
    with Cons.prems(2) input step have "s' = s1" "outs = [out]" by auto
    with cells show ?thesis unfolding input by (cases received) (auto simp: prod_eq_iff)
  qed
qed

lemma event_loop_run_length:
  "event_loop_run alive name host inputs s = Ret (s', outs, go) \<Longrightarrow> length outs \<le> length inputs"
proof (induction inputs arbitrary: s outs go)
  case Nil
  then show ?case by simp
next
  case (Cons input inputs)
  then show ?case by (cases input) (fastforce split: if_splits)
qed

end
