(* ===== verification/Delivery.thy ===== *)
theory Delivery
  imports Scheduler_Spec
begin

text \<open>
  What a run of the event loop does with what it is given: nothing that goes in is lost,
  duplicated or reordered on its way out. The locale \<open>run_conservation\<close> lifts a law of one
  iteration (what goes out, joined with what is still held, is what was held joined with what
  came in) to runs; it is interpreted for the mailbox of a tag, for the delayed messages, for the
  logs and for the metrics. The last sections state what stopping and failing do.
\<close>

section \<open>Conservation over runs\<close>

locale run_conservation =
  fixes join :: "'x \<Rightarrow> 'x \<Rightarrow> 'x" and unit :: 'x
    and good :: "('a, 'm) event_loop \<Rightarrow> bool"
    and allowed :: "('a, 'm) action \<Rightarrow> bool"
    and held :: "('a, 'm) event_loop \<Rightarrow> 'x"
    and given :: "('a, 'm) action \<Rightarrow> 'x"
    and taken :: "('a, 'm) sent \<Rightarrow> 'x"
  assumes assoc: "join (join x y) z = join x (join y z)"
    and unit_left: "join unit x = x"
    and unit_right: "join x unit = x"
    and good_step: "good s \<Longrightarrow> (\<And>act. received = Some act \<Longrightarrow> allowed act) \<Longrightarrow>
      event_loop_step alive name host received rd s = Ret (s', out, go) \<Longrightarrow> good s'"
    and step_law: "good s \<Longrightarrow> (\<And>act. received = Some act \<Longrightarrow> allowed act) \<Longrightarrow>
      event_loop_step alive name host received rd s = Ret (s', out, go) \<Longrightarrow>
      join (taken out) (held s') =
      join (held s) (case received of None \<Rightarrow> unit | Some act \<Rightarrow> given act)"
begin

abbreviation total :: "'x list \<Rightarrow> 'x" where
  "total xs \<equiv> foldr join xs unit"

lemma run_law:
  "good s \<Longrightarrow> event_loop_run alive name host inputs s = Ret (s', outs, go) \<Longrightarrow>
   \<forall>act \<in> set (received_actions (take (length outs) inputs)). allowed act \<Longrightarrow>
   good s' \<and>
   join (total (map taken outs)) (held s') =
   join (held s) (total (map given (received_actions (take (length outs) inputs))))"
proof (induction inputs arbitrary: s outs go)
  case Nil
  then show ?case by (simp add: unit_left unit_right)
next
  case (Cons input inputs)
  obtain received rd where input: "input = (received, rd)" by fastforce
  with Cons.prems(2) obtain s1 out go1 where
    step: "event_loop_step alive name host received rd s = Ret (s1, out, go1)"
    by auto
  have len: "length outs \<noteq> 0" using Cons.prems(2) input by (auto split: if_splits)
  have allowed_now: "allowed act" if "received = Some act" for act
    using Cons.prems(3) input that len by (cases outs) auto
  note law = step_law [OF Cons.prems(1) allowed_now step]
  have s1: "good s1" using good_step [OF Cons.prems(1) allowed_now step] by simp
  let ?g = "case received of None \<Rightarrow> unit | Some act \<Rightarrow> given act"
  show ?case
  proof (cases go1)
    case True
    with Cons.prems(2) input step obtain outs' where
      run: "event_loop_run alive name host inputs s1 = Ret (s', outs', go)" and outs: "outs = out # outs'"
      by auto
    let ?G = "total (map given (received_actions (take (length outs') inputs)))"
    have sub: "\<forall>act \<in> set (received_actions (take (length outs') inputs)). allowed act"
      using Cons.prems(3) input outs by (cases received) auto
    note IH = Cons.IH [OF s1 run sub]
    have "join (total (map taken outs)) (held s') = join (taken out) (join (held s1) ?G)"
      using IH outs assoc by simp
    also have "\<dots> = join (join (held s) ?g) ?G" using law assoc by metis
    finally show ?thesis
      using IH outs input by (cases received) (simp_all add: assoc unit_left unit_right)
  next
    case False
    with Cons.prems(2) input step have "s' = s1" "outs = [out]" by auto
    with law s1 input show ?thesis by (cases received) (simp_all add: unit_left unit_right)
  qed
qed

end

lemma foldr_append_concat: "foldr (@) xs [] = concat xs"
  by (induction xs) auto

lemma foldr_plus_sum: "foldr (+) xs {#} = sum_list xs"
  by (induction xs) auto

section \<open>The mailbox of one tag\<close>

definition mails :: "tag \<Rightarrow> ('a, 'm) event list \<Rightarrow> 'm envelope list" where
  "mails tag events =
     concat (map (\<lambda>ev. case ev of Ev_Mail t actor e \<Rightarrow> if t = tag then [e] else [] | _ \<Rightarrow> []) events)"

definition queued :: "tag \<Rightarrow> ('a, 'm) action \<Rightarrow> 'm envelope list" where
  "queued tag act = (case act of Act_Queue t e \<Rightarrow> if t = tag then [e] else [] | _ \<Rightarrow> [])"

definition mailbox :: "tag \<Rightarrow> ('a, 'm, 'z) scheduler_scheme \<Rightarrow> 'm envelope list" where
  "mailbox tag s = (case queue s tag of None \<Rightarrow> [] | Some es \<Rightarrow> es)"

text \<open>An action that does not end the tag's actor: neither a stop nor a failed return.\<close>

fun keeps :: "tag \<Rightarrow> ('a, 'm) action \<Rightarrow> bool" where
  "keeps tag (Act_Stop t) = (t \<noteq> tag)"
| "keeps tag (Act_Return t actor ok) = (t \<noteq> tag \<or> ok)"
| "keeps tag _ = True"

fun waiting :: "('a, 'm) cell \<Rightarrow> 'm envelope list" where
  "waiting (Busy es) = es"
| "waiting _ = []"

lemma waiting_mailbox:
  assumes "loop_ok s"
  shows "waiting (cell_of s tag) = mailbox tag s"
proof (cases "tag \<in> active s")
  case True
  with assms obtain es where "queue s tag = Some es"
    using mailbox_of_active unfolding loop_ok_def by blast
  with True assms show ?thesis
    by (cases "actors s tag") (auto simp: cell_of_def mailbox_def loop_ok_defs)
next
  case False
  with assms have "queue s tag = None" by (auto simp: loop_ok_defs)
  with False show ?thesis by (simp add: cell_of_def mailbox_def)
qed

lemma cell_of_Absent: "cell_of s tag = Absent \<longleftrightarrow> tag \<notin> active s"
  by (cases "tag \<in> active s"; cases "actors s tag") (auto simp: cell_of_def)

lemma mails_simps [simp]:
  "mails tag [] = []"
  "mails tag (Ev_Mail t actor e # events) = (if t = tag then e # mails tag events else mails tag events)"
  "mails tag (Ev_Stop t actor # events) = mails tag events"
  "mails tag (Ev_Shutdown # events) = mails tag events"
  by (simp_all add: mails_def)

lemma mails_append [simp]: "mails tag (xs @ ys) = mails tag xs @ mails tag ys"
  by (simp add: mails_def)

lemma mails_concat: "mails tag (concat xss) = concat (map (mails tag) xss)"
  by (induction xss) auto

lemma cell_step_fifo:
  "c \<noteq> Absent \<Longrightarrow> keeps tag act \<Longrightarrow> action_tag act = Some tag \<Longrightarrow>
   fst (cell_step tag act c) \<noteq> Absent \<and>
   mails tag (snd (cell_step tag act c)) @ waiting (fst (cell_step tag act c)) =
   waiting c @ queued tag act"
  by (cases "(tag, act, c)" rule: cell_step.cases) (auto simp: queued_def)

text \<open>A cell only speaks for its own tag.\<close>

lemma cell_step_other: "t \<noteq> tag \<Longrightarrow> mails tag (snd (cell_step t act c)) = []"
  by (cases "(t, act, c)" rule: cell_step.cases) auto

lemma queued_other: "action_tag act \<noteq> Some tag \<Longrightarrow> queued tag act = []"
  by (cases act) (auto simp: queued_def)

lemma cells_step_other:
  "action_tag act \<noteq> Some tag \<Longrightarrow>
   fst (cells_step act f) tag = f tag \<and> mails tag (snd (cells_step act f)) = []"
  by (auto simp: cells_step_def cell_step_other split: option.splits)

lemma cells_step_fifo:
  assumes "f tag \<noteq> Absent" "keeps tag act"
  shows "fst (cells_step act f) tag \<noteq> Absent \<and>
         mails tag (snd (cells_step act f)) @ waiting (fst (cells_step act f) tag) =
         waiting (f tag) @ queued tag act"
proof (cases "action_tag act = Some tag")
  case True
  with cell_step_fifo [OF assms] show ?thesis by (simp add: cells_step_def)
next
  case False
  with assms cells_step_other [OF False, of f] queued_other [OF False] show ?thesis by simp
qed

lemma mailbox_step:
  assumes "loop_ok s" "tag \<in> active s" "\<And>act. received = Some act \<Longrightarrow> keeps tag act"
    and step: "event_loop_step alive name host received rd s = Ret (s', out, go)"
  shows "tag \<in> active s'"
    and "mails tag (to_workers out) @ mailbox tag s' =
         mailbox tag s @ (case received of None \<Rightarrow> [] | Some act \<Rightarrow> queued tag act)"
proof -
  note refined = event_loop_step_refines [OF assms(1) step]
  have ok': "loop_ok s'" using event_loop_step_keeps [OF assms(1) step] .
  have c: "cell_of s tag \<noteq> Absent" using assms(2) by (simp add: cell_of_Absent)
  have *: "cell_of s' tag \<noteq> Absent \<and>
    mails tag (to_workers out) @ waiting (cell_of s' tag) =
    waiting (cell_of s tag) @ (case received of None \<Rightarrow> [] | Some act \<Rightarrow> queued tag act)"
  proof (cases received)
    case None
    with refined c show ?thesis by simp
  next
    case (Some act)
    with refined have "cell_of s' = fst (cells_step act (cell_of s))"
      "to_workers out = snd (cells_step act (cell_of s))" by (simp_all add: prod_eq_iff)
    with Some cells_step_fifo [of "cell_of s" tag act] c assms(3) show ?thesis by simp
  qed
  show "tag \<in> active s'" using * by (simp add: cell_of_Absent)
  show "mails tag (to_workers out) @ mailbox tag s' =
    mailbox tag s @ (case received of None \<Rightarrow> [] | Some act \<Rightarrow> queued tag act)"
    using * waiting_mailbox [OF assms(1)] waiting_mailbox [OF ok'] by simp
qed

interpretation mailbox_law:
  run_conservation "(@)" "[]" "\<lambda>s. loop_ok s \<and> tag \<in> active s" "keeps tag" "mailbox tag"
    "queued tag" "\<lambda>out. mails tag (to_workers out)" for tag
proof (unfold_locales, goal_cases)
  case (4 s received alive name host rd s' out go)
  then show ?case using event_loop_step_keeps mailbox_step(1) [of s tag received] by blast
next
  case (5 s received alive name host rd s' out go)
  then show ?case using mailbox_step(2) [of s tag received] by blast
qed simp_all

section \<open>Delayed messages\<close>

definition requeue :: "'m entry \<Rightarrow> tag \<times> 'm envelope" where
  "requeue e = (entry_tag e, entry_envelope e)"

definition delayed :: "('a, 'm) action \<Rightarrow> (tag \<times> 'm envelope) multiset" where
  "delayed act = (case act of Act_Delay e \<Rightarrow> {#requeue e#} | _ \<Rightarrow> {#})"

definition requeued_list :: "('a, 'm) action list \<Rightarrow> (tag \<times> 'm envelope) list" where
  "requeued_list acts =
     concat (map (\<lambda>act. case act of Act_Queue tag e \<Rightarrow> [(tag, e)] | _ \<Rightarrow> []) acts)"

definition requeued :: "('a, 'm) sent \<Rightarrow> (tag \<times> 'm envelope) multiset" where
  "requeued out = mset (requeued_list (to_self out))"

definition pending :: "('a, 'm, 'z) scheduler_scheme \<Rightarrow> (tag \<times> 'm envelope) multiset" where
  "pending s = image_mset requeue (mset (tasks s))"

lemma requeued_due:
  "requeued_list (map (\<lambda>e. Act_Queue (entry_tag e) (entry_envelope e)) es) = map requeue es"
  by (induction es) (simp_all add: requeue_def requeued_list_def)

lemma drain_due_all:
  assumes "tasks_ok ts"
  shows "mset (fst (drain_due now ts)) + mset (snd (drain_due now ts)) = mset ts"
  using drain_due_entries [OF assms] drain_due_rest [OF assms]
  by (metis multiset_partition)

lemma loop_tail_pending:
  assumes "loop_ok s" "loop_tail name host rd events s = Ret (s', out, go)"
  shows "requeued out + pending s' = pending s"
  using assms(2)
proof (rule loop_tail_Ret)
  fix reports
  assume r: "report_phase name host rd (fst (timer_phase rd s)) = Ret (s', reports)"
    and out: "out = \<lparr>to_workers = events, to_self = snd (timer_phase rd s), to_background = reports\<rparr>"
  have "tasks s' = tasks (fst (timer_phase rd s))" using report_phase_frame(3) [OF r] .
  with out drain_due_all [of "tasks s"] assms(1) show ?thesis
    by (simp add: requeued_def requeued_due pending_def timer_phase_def Let_def split_beta loop_ok_def
        flip: image_mset_union)
qed

lemma handle_action_tasks:
  "handle_action act s = Ret (s', events, control) \<Longrightarrow> pending s' = pending s + delayed act"
  by (drule handle_action_frame)
    (auto simp: handled_frame_def pending_def delayed_def push_task_def entry_order.mset_push
      split: action.splits)

lemma pending_step:
  assumes ok: "loop_ok s" and step: "event_loop_step alive name host received rd s = Ret (s', out, go)"
  shows "requeued out + pending s' =
    pending s + (case received of None \<Rightarrow> {#} | Some act \<Rightarrow> delayed act)"
  using step
proof (cases rule: event_loop_step_Ret)
  case miss
  then show ?thesis
    using loop_tail_pending [OF after_miss_ok [OF ok]] by (simp add: pending_def after_miss_def)
next
  case (handled act s2 events)
  have "loop_ok s2" using handle_action_ok [OF after_hit_ok [OF ok], of act] handled(2) by simp
  then show ?thesis
    using loop_tail_pending [OF _ handled(3)] handle_action_tasks [OF handled(2)] handled(1)
    by (simp add: pending_def after_hit_def)
next
  case (skipped act events)
  then show ?thesis
    using handle_action_tasks [OF skipped(2)]
    by (simp add: pending_def after_hit_def requeued_def requeued_list_def nothing_sent_def)
next
  case (shutdown act events)
  then show ?thesis
    using handle_action_tasks [OF shutdown(2)]
    by (simp add: pending_def after_hit_def requeued_def requeued_list_def nothing_sent_def)
qed

interpretation timer_law:
  run_conservation "(+)" "{#}" loop_ok "\<lambda>_. True" pending delayed requeued
  by unfold_locales (auto simp: pending_step event_loop_step_keeps)

end
