(* ===== verification/Bookkeeping.thy ===== *)
theory Bookkeeping
  imports Delivery
begin

text \<open>
  The event loop's own books: the log lines and the metrics it collects until they are
  reported, its counters, and the timeout it polls with. The first two are conservation
  laws of the same shape as message delivery; the counters balance in the ring of 64-bit
  words, so the laws survive a wrap-around.
\<close>

section \<open>Logs\<close>

definition logged :: "('a, 'm) action \<Rightarrow> (tag \<times> (sys_time \<times> string) list) list" where
  "logged act = (case act of Act_Logs tag entries \<Rightarrow> [(tag, entries)] | _ \<Rightarrow> [])"

definition reported_logs :: "('a, 'm) sent \<Rightarrow> (tag \<times> (sys_time \<times> string) list) list" where
  "reported_logs out =
     concat (map (\<lambda>r. case r of Report_Logs name host ls \<Rightarrow> ls | _ \<Rightarrow> []) (to_background out))"

definition reported_metrics :: "string \<Rightarrow> ('a, 'm) sent \<Rightarrow> (sys_time \<times> f64) list" where
  "reported_metrics name out =
     concat (map (\<lambda>r. case r of
        Report_Metrics app host c m \<Rightarrow> (case m name of None \<Rightarrow> [] | Some es \<Rightarrow> es)
      | _ \<Rightarrow> []) (to_background out))"

definition held_metrics :: "string \<Rightarrow> ('a, 'm) event_loop \<Rightarrow> (sys_time \<times> f64) list" where
  "held_metrics name s = (case user_metrics s name of None \<Rightarrow> [] | Some es \<Rightarrow> es)"

definition measured :: "string \<Rightarrow> ('a, 'm) action \<Rightarrow> (sys_time \<times> f64) list" where
  "measured name act =
     (case act of Act_Metrics m \<Rightarrow> (case m name of None \<Rightarrow> [] | Some es \<Rightarrow> es) | _ \<Rightarrow> [])"

lemma report_phase_books:
  assumes "report_phase app host rd s = Ret (s', reports)"
    and "out = \<lparr>to_workers = ws, to_self = ts, to_background = reports\<rparr>"
  shows "reported_logs out @ logs s' = logs s"
    and "reported_metrics name out @ held_metrics name s' = held_metrics name s"
  using assms
  by (auto simp: report_phase_def reported_logs_def reported_metrics_def held_metrics_def Let_def
      split: if_splits)

lemma loop_tail_books:
  assumes "loop_tail app host rd events s = Ret (s', out, go)"
  shows "reported_logs out @ logs s' = logs s"
    and "reported_metrics name out @ held_metrics name s' = held_metrics name s"
proof -
  obtain reports where r: "report_phase app host rd (fst (timer_phase rd s)) = Ret (s', reports)"
    and out: "out = \<lparr>to_workers = events, to_self = snd (timer_phase rd s), to_background = reports\<rparr>"
    using assms by (rule loop_tail_Ret)
  have same: "logs (fst (timer_phase rd s)) = logs s"
    "held_metrics name (fst (timer_phase rd s)) = held_metrics name s"
    by (simp_all add: timer_phase_def held_metrics_def Let_def split_beta)
  show "reported_logs out @ logs s' = logs s"
    using report_phase_books(1) [OF r out] same by simp
  show "reported_metrics name out @ held_metrics name s' = held_metrics name s"
    using report_phase_books(2) [OF r out, of name] same by simp
qed

lemma handle_action_books:
  assumes "handle_action act s = Ret (s', events, control)"
  shows "logs s' = logs s @ logged act"
    and "held_metrics name s' = held_metrics name s @ measured name act"
  using handle_action_frame [OF assms]
  by (auto simp: handled_frame_def logged_def measured_def held_metrics_def merge_metrics_def
      split: action.splits option.splits)

lemma books_step:
  assumes "event_loop_step alive app host received rd s = Ret (s', out, go)"
  shows "reported_logs out @ logs s' =
         logs s @ (case received of None \<Rightarrow> [] | Some act \<Rightarrow> logged act)"
    and "reported_metrics name out @ held_metrics name s' =
         held_metrics name s @ (case received of None \<Rightarrow> [] | Some act \<Rightarrow> measured name act)"
proof -
  have same: "logs (after_hit s) = logs s" "logs (after_miss s) = logs s"
    "held_metrics name (after_hit s) = held_metrics name s"
    "held_metrics name (after_miss s) = held_metrics name s"
    by (simp_all add: after_defs held_metrics_def)
  have quiet: "reported_logs (nothing_sent\<lparr>to_workers := events\<rparr>) = []"
    "reported_metrics name (nothing_sent\<lparr>to_workers := events\<rparr>) = []" for events :: "('a, 'b) event list"
    by (simp_all add: nothing_sent_def reported_logs_def reported_metrics_def)
  have "reported_logs out @ logs s' =
         logs s @ (case received of None \<Rightarrow> [] | Some act \<Rightarrow> logged act) \<and>
        reported_metrics name out @ held_metrics name s' =
         held_metrics name s @ (case received of None \<Rightarrow> [] | Some act \<Rightarrow> measured name act)"
    using assms
  proof (cases rule: event_loop_step_Ret)
    case miss
    then show ?thesis using loop_tail_books same by fastforce
  next
    case (handled act s2 events)
    then show ?thesis
      using loop_tail_books [OF handled(3)] handle_action_books [OF handled(2)] same by simp
  next
    case (skipped act events)
    then show ?thesis using handle_action_books [OF skipped(2)] same quiet by simp
  next
    case (shutdown act events)
    then show ?thesis using handle_action_books [OF shutdown(2)] same quiet by simp
  qed
  then show "reported_logs out @ logs s' =
         logs s @ (case received of None \<Rightarrow> [] | Some act \<Rightarrow> logged act)"
    and "reported_metrics name out @ held_metrics name s' =
         held_metrics name s @ (case received of None \<Rightarrow> [] | Some act \<Rightarrow> measured name act)"
    by blast+
qed

interpretation log_law:
  run_conservation "(@)" "[]" "\<lambda>_. True" "\<lambda>_. True" logs logged reported_logs
  by unfold_locales (simp_all add: books_step)

interpretation metric_law:
  run_conservation "(@)" "[]" "\<lambda>_. True" "\<lambda>_. True" "held_metrics name" "measured name"
    "reported_metrics name" for name
  by unfold_locales (simp_all add: books_step)

section \<open>The counters\<close>

text \<open>
  Every iteration counts a hit or a miss and ends in a tick, but for a failed actor, which
  counts as a failure and skips the tick; every queued message counts once as a message.
\<close>

definition counters_ok :: "('a, 'm) event_loop \<Rightarrow> bool" where
  "counters_ok s \<longleftrightarrow>
     m_hit (counters s) + m_miss (counters s) = m_ticks (counters s) + m_failures (counters s) \<and>
     m_messages (counters s) = m_queues (counters s)"

text \<open>The balance between the count of what was received and the tick.\<close>

definition one_ahead :: "('a, 'm) event_loop \<Rightarrow> bool" where
  "one_ahead s \<longleftrightarrow>
     m_hit (counters s) + m_miss (counters s) = m_ticks (counters s) + m_failures (counters s) + 1 \<and>
     m_messages (counters s) = m_queues (counters s)"

lemma one_ahead_after [inv_intros]:
  "counters_ok s \<Longrightarrow> one_ahead (after_hit s)" "counters_ok s \<Longrightarrow> one_ahead (after_miss s)"
  by (simp_all add: counters_ok_def one_ahead_def after_defs algebra_simps)

lemma handle_action_counters:
  assumes "handle_action act s = Ret (s', events, control)" "one_ahead s"
  shows "if control = Continue_Main then counters_ok s' else one_ahead s'"
proof (cases act)
  case (Act_Return tag actor ok)
  then have "on_return tag actor ok s = Ret (s', events, control)" using assms by simp
  then show ?thesis
    using assms(2) by (cases rule: on_return_Ret) (simp_all add: one_ahead_def counters_ok_def algebra_simps)
qed (use assms in \<open>auto simp: on_queue_def on_drop_def on_spawn_def on_delay_def on_stop_action_def
    on_logs_def on_metrics_def one_ahead_def Let_def algebra_simps split: if_splits option.splits\<close>)

lemma report_phase_counters:
  "report_phase app host rd s = Ret (s', reports) \<Longrightarrow> one_ahead s \<Longrightarrow> counters_ok s'"
  by (auto simp: report_phase_def one_ahead_def counters_ok_def metrics_reset_def Let_def algebra_simps
      split: if_splits)

lemma loop_tail_counters:
  "loop_tail app host rd events s = Ret (s', out, go) \<Longrightarrow> one_ahead s \<Longrightarrow> counters_ok s'"
  by (erule loop_tail_Ret)
    (auto intro!: report_phase_counters simp: one_ahead_def timer_phase_def Let_def split_beta)

lemma counters_step:
  assumes "event_loop_step alive app host received rd s = Ret (s', out, go)" "counters_ok s"
    and "received \<noteq> Some Act_Shutdown"
  shows "counters_ok s'"
  using assms(1)
proof (cases rule: event_loop_step_Ret)
  case miss
  then show ?thesis using loop_tail_counters one_ahead_after(2) [OF assms(2)] by blast
next
  case (handled act s2 events)
  then show ?thesis
    using handle_action_counters [OF handled(2) one_ahead_after(1) [OF assms(2)]] loop_tail_counters
    by auto
next
  case (skipped act events)
  then show ?thesis
    using handle_action_counters [OF skipped(2) one_ahead_after(1) [OF assms(2)]] by simp
next
  case (shutdown act events)
  with assms(3) handle_action_frame [OF shutdown(2)] show ?thesis by (simp add: handled_frame_def)
qed

section \<open>The adaptive timeout\<close>

definition next_timeout :: "bool \<Rightarrow> nat \<Rightarrow> nat" where
  "next_timeout hit t =
     (if hit then max min_timeout_millis (t div 2) else min (t * 2) max_timeout_millis)"

lemma handle_action_timeout [frame_simps]:
  "handle_action act s = Ret (s', events, control) \<Longrightarrow> timeout_millis s' = timeout_millis s"
  by (drule handle_action_frame) (simp add: handled_frame_def)

lemma loop_tail_timeout [frame_simps]:
  "loop_tail app host rd events s = Ret (s', out, go) \<Longrightarrow> timeout_millis s' = timeout_millis s"
  by (erule loop_tail_Ret)
    (auto dest!: report_phase_frame(6) simp: timer_phase_def Let_def split_beta)

lemma timeout_step:
  assumes "event_loop_step alive app host received rd s = Ret (s', out, go)"
  shows "timeout_millis s' = next_timeout (received \<noteq> None) (timeout_millis s)"
  using assms
  by (cases rule: event_loop_step_Ret)
    (auto dest!: handle_action_timeout loop_tail_timeout simp: next_timeout_def after_defs)

lemma next_timeout_hits_pow:
  "(next_timeout True ^^ Suc n) t = max min_timeout_millis (t div 2 ^ Suc n)"
proof (induction n)
  case 0
  show ?case by (simp add: next_timeout_def)
next
  case (Suc n)
  have "(next_timeout True ^^ Suc (Suc n)) t = next_timeout True (max min_timeout_millis (t div 2 ^ Suc n))"
    using Suc by simp
  also have "\<dots> = max min_timeout_millis (t div 2 ^ Suc n div 2)"
    by (auto simp: next_timeout_def timeout_defs max_def)
  also have "t div 2 ^ Suc n div 2 = t div 2 ^ Suc (Suc n)"
    by (simp only: div_mult2_eq [symmetric] power_Suc2)
  finally show ?case .
qed

lemma next_timeout_misses_pow:
  "t \<le> max_timeout_millis \<Longrightarrow> (next_timeout False ^^ n) t = min (t * 2 ^ n) max_timeout_millis"
proof (induction n)
  case 0
  then show ?case by simp
next
  case (Suc n)
  then have "(next_timeout False ^^ Suc n) t = next_timeout False (min (t * 2 ^ n) max_timeout_millis)"
    by simp
  also have "\<dots> = min (t * 2 ^ Suc n) max_timeout_millis"
    by (simp add: next_timeout_def timeout_defs min_def)
  finally show ?case .
qed

lemma next_timeout_hits: "t \<le> max_timeout_millis \<Longrightarrow> (next_timeout True ^^ 8) t = min_timeout_millis"
  using next_timeout_hits_pow [of 7 t] by (auto simp: timeout_defs max_def)

lemma next_timeout_misses:
  "min_timeout_millis \<le> t \<Longrightarrow> t \<le> max_timeout_millis \<Longrightarrow>
   (next_timeout False ^^ 8) t = max_timeout_millis"
  using next_timeout_misses_pow [of t 8] by (auto simp: timeout_defs min_def)

section \<open>The configuration and the end of the loop\<close>

lemma handle_action_config [frame_simps]:
  "handle_action act s = Ret (s', events, control) \<Longrightarrow> sch_config s' = sch_config s"
  by (drule handle_action_frame) (simp add: handled_frame_def)

lemma loop_tail_config [frame_simps]:
  "loop_tail app host rd events s = Ret (s', out, go) \<Longrightarrow> sch_config s' = sch_config s"
  by (erule loop_tail_Ret)
    (auto dest!: report_phase_frame(5) simp: timer_phase_def Let_def split_beta)

lemma config_step:
  assumes "event_loop_step alive app host received rd s = Ret (s', out, go)"
  shows "sch_config s' = sch_config s"
  using assms
  by (cases rule: event_loop_step_Ret)
    (auto dest!: handle_action_config loop_tail_config simp: after_defs)

lemma handle_action_control:
  assumes "handle_action act s = Ret (s', events, control)"
  shows "control = Break_Main \<longleftrightarrow> act = Act_Shutdown"
    and "control = Continue_Main \<longleftrightarrow> (\<exists>tag actor. act = Act_Return tag actor False \<and> tag \<in> active s)"
  using handle_action_frame [OF assms] by (simp_all add: handled_frame_def)

lemma loop_end:
  assumes "event_loop_step alive app host received rd s = Ret (s', out, go)"
  shows "\<not> go \<longleftrightarrow> received = Some Act_Shutdown \<or>
    (eager_shutdown_enabled (sch_config s) \<and> active s' = {} \<and>
     (\<nexists>tag actor. received = Some (Act_Return tag actor False) \<and> tag \<in> active s))"
proof -
  have same: "active (after_hit s) = active s" "sch_config (after_hit s) = sch_config s"
    by (simp_all add: after_hit_def)
  note cfg = config_step [OF assms]
  from assms show ?thesis
  proof (cases rule: event_loop_step_Ret)
    case miss
    then show ?thesis using cfg by (auto elim!: loop_tail_Ret)
  next
    case (handled act s2 events)
    then show ?thesis
      using handle_action_control [OF handled(2)] same cfg by (auto elim!: loop_tail_Ret)
  next
    case (skipped act events)
    then show ?thesis using handle_action_control [OF skipped(2)] same by auto
  next
    case (shutdown act events)
    then show ?thesis using handle_action_control [OF shutdown(2)] same by auto
  qed
qed

lemma run_goes_on:
  "\<not> eager_shutdown_enabled (sch_config s) \<Longrightarrow> \<forall>(received, rd) \<in> set inputs. received \<noteq> Some Act_Shutdown \<Longrightarrow>
   event_loop_run alive app host inputs s = Ret (s', outs, go) \<Longrightarrow> go"
proof (induction inputs arbitrary: s outs)
  case Nil
  then show ?case by simp
next
  case (Cons input inputs)
  obtain received rd where input: "input = (received, rd)" by fastforce
  with Cons.prems(3) obtain s1 out go1 where
    step: "event_loop_step alive app host received rd s = Ret (s1, out, go1)" by auto
  have "go1" using loop_end [OF step] Cons.prems(1,2) input by auto
  with Cons.prems input step Cons.IH [of s1] config_step [OF step] show ?case by auto
qed

lemma unreported:
  assumes "event_loop_step alive app host received rd s = Ret (s', out, go)"
    and "\<not> logging_enabled (sch_config s)" "\<not> metric_reporting_enabled (sch_config s)"
  shows "reported_logs out = []" "reported_metrics name out = []"
proof -
  have tail: "to_background o' = []"
    if "loop_tail app host rd events r = Ret (r', o', g)" "sch_config r = sch_config s" for events r r' o' g
    using that assms(2,3)
    by (auto elim!: loop_tail_Ret simp: report_phase_def timer_phase_def Let_def split_beta
        split: if_splits)
  have "to_background out = []"
    using assms(1)
  proof (cases rule: event_loop_step_Ret)
    case miss
    then show ?thesis using tail [OF miss(2)] by (simp add: after_defs)
  next
    case (handled act s2 events)
    then show ?thesis
      using tail [OF handled(3)] handle_action_config [OF handled(2)] by (simp add: after_defs)
  qed (simp_all add: nothing_sent_def)
  then show "reported_logs out = []" "reported_metrics name out = []"
    by (simp_all add: reported_logs_def reported_metrics_def)
qed

lemma run_invariant:
  assumes step: "\<And>received rd s s' out go. P s \<Longrightarrow>
      event_loop_step alive app host received rd s = Ret (s', out, go) \<Longrightarrow> P s' \<and> Q out"
  shows "P s \<Longrightarrow> event_loop_run alive app host inputs s = Ret (s', outs, go) \<Longrightarrow>
    P s' \<and> (\<forall>out \<in> set outs. Q out)"
proof (induction inputs arbitrary: s outs go)
  case Nil
  then show ?case by simp
next
  case (Cons input inputs)
  then show ?case
    by (cases input) (fastforce split: if_splits dest: step)
qed

lemma event_loop_run_all:
  "event_loop_run alive app host inputs s = Ret (s', outs, True) \<Longrightarrow> length outs = length inputs"
proof (induction inputs arbitrary: s outs)
  case Nil
  then show ?case by simp
next
  case (Cons input inputs)
  then show ?case by (cases input) (fastforce split: if_splits)
qed

end
