(* ===== verification/Scheduler_Claims.thy ===== *)
theory Scheduler_Claims
  imports Bookkeeping
begin

text \<open>
  The properties of the scheduler thread, stated of \<open>event_loop_run\<close> and of the handlers of
  \<open>src/core.rs\<close>, each with a concrete run on which it applies.
\<close>

section \<open>Stopping an actor\<close>

fun event_tag :: "('a, 'm) event \<Rightarrow> tag option" where
  "event_tag (Ev_Mail t actor e) = Some t"
| "event_tag (Ev_Stop t actor) = Some t"
| "event_tag Ev_Shutdown = None"

definition events_for :: "tag \<Rightarrow> ('a, 'm) event list \<Rightarrow> ('a, 'm) event list" where
  "events_for tag events = filter (\<lambda>ev. event_tag ev = Some tag) events"

text \<open>What a tag without an actor still answers to: the return of an actor stopped in flight.\<close>

definition farewell :: "tag \<Rightarrow> ('a, 'm) action \<Rightarrow> ('a, 'm) event list" where
  "farewell tag act =
     (case act of Act_Return t actor ok \<Rightarrow> if t = tag \<and> ok then [Ev_Stop tag actor] else [] | _ \<Rightarrow> [])"

definition spawns :: "tag \<Rightarrow> ('a, 'm) action \<Rightarrow> bool" where
  "spawns tag act = (case act of Act_Spawn t actor \<Rightarrow> t = tag | _ \<Rightarrow> False)"

lemma cell_step_event_tag: "ev \<in> set (snd (cell_step t act c)) \<Longrightarrow> event_tag ev = Some t"
  by (cases "(t, act, c)" rule: cell_step.cases) auto

lemma cell_step_absent:
  "\<not> spawns tag act \<Longrightarrow> action_tag act = Some tag \<Longrightarrow>
   fst (cell_step tag act Absent) = Absent \<and> snd (cell_step tag act Absent) = farewell tag act"
  by (cases "(tag, act, Absent :: ('a, 'b) cell)" rule: cell_step.cases)
    (auto simp: farewell_def spawns_def)

lemma farewell_other: "action_tag act \<noteq> Some tag \<Longrightarrow> farewell tag act = []"
  by (cases act) (auto simp: farewell_def)

lemma farewell_tag: "ev \<in> set (farewell tag act) \<Longrightarrow> event_tag ev = Some tag"
  by (auto simp: farewell_def split: action.splits if_splits)

lemma cells_step_absent:
  assumes "f tag = Absent" "\<not> spawns tag act"
  shows "fst (cells_step act f) tag = Absent \<and>
         events_for tag (snd (cells_step act f)) = farewell tag act"
proof (cases "action_tag act = Some tag")
  case True
  with cell_step_absent [OF assms(2) True] assms(1) farewell_tag show ?thesis
    by (auto simp: cells_step_def events_for_def filter_id_conv)
next
  case False
  with assms(1) cell_step_event_tag farewell_other [OF False] show ?thesis
    by (fastforce simp: cells_step_def events_for_def filter_empty_conv split: option.splits)
qed

lemma stopped_step:
  assumes "loop_ok s" "tag \<notin> active s" "\<And>act. received = Some act \<Longrightarrow> \<not> spawns tag act"
    and step: "event_loop_step alive name host received rd s = Ret (s', out, go)"
  shows "tag \<notin> active s'"
    and "events_for tag (to_workers out) =
         (case received of None \<Rightarrow> [] | Some act \<Rightarrow> farewell tag act)"
proof -
  note refined = event_loop_step_refines [OF assms(1) step]
  have "cell_of s' tag = Absent \<and>
    events_for tag (to_workers out) = (case received of None \<Rightarrow> [] | Some act \<Rightarrow> farewell tag act)"
  proof (cases received)
    case None
    with refined assms(2) show ?thesis by (simp add: cell_of_Absent events_for_def)
  next
    case (Some act)
    with refined have "cell_of s' = fst (cells_step act (cell_of s))"
      "to_workers out = snd (cells_step act (cell_of s))" by (simp_all add: prod_eq_iff)
    moreover have "cell_of s tag = Absent" using assms(2) by (simp add: cell_of_Absent)
    ultimately show ?thesis using Some cells_step_absent [of "cell_of s" tag act] assms(3) by simp
  qed
  then show "tag \<notin> active s'"
    and "events_for tag (to_workers out) =
         (case received of None \<Rightarrow> [] | Some act \<Rightarrow> farewell tag act)"
    by (simp_all add: cell_of_Absent)
qed

interpretation stopped_law:
  run_conservation "(@)" "[]" "\<lambda>s. loop_ok s \<and> tag \<notin> active s" "\<lambda>act. \<not> spawns tag act"
    "\<lambda>s. []" "farewell tag" "\<lambda>out. events_for tag (to_workers out)" for tag
proof (unfold_locales, goal_cases)
  case (4 s received alive name host rd s' out go)
  then show ?case using event_loop_step_keeps stopped_step(1) [of s tag received] by blast
next
  case (5 s received alive name host rd s' out go)
  then show ?case using stopped_step(2) [of s tag received] by simp
qed simp_all

lemma events_for_concat: "events_for tag (concat xss) = concat (map (events_for tag) xss)"
  by (induction xss) (simp_all add: events_for_def)

section \<open>Concrete states for the witnesses\<close>

definition demo_config :: scheduler_config where
  "demo_config = default_scheduler_config\<lparr>eager_shutdown_enabled := False\<rparr>"

definition demo_readings :: readings where
  "demo_readings = \<lparr>rd_now = 0, rd_elapsed = 0, rd_system = 0, rd_restart = 0\<rparr>"

definition demo_idle :: "(nat, string) event_loop" where
  "demo_idle = (event_loop_init demo_config ''demo'' 0)
     \<lparr>actors := [''x'' \<mapsto> 7], queue := [''x'' \<mapsto> []], active := {''x''}\<rparr>"

definition demo_mail :: "string envelope" where
  "demo_mail = envelope_of ''hello''"

lemmas demo_defs = demo_config_def demo_readings_def demo_idle_def default_scheduler_config_def
  event_loop_init_def metrics_named_def

lemma demo_idle_ok: "loop_ok demo_idle"
  by (simp add: loop_ok_defs demo_defs timeout_defs entry_order.heap_order_def)

lemma demo_idle_simps:
  "active demo_idle = {''x''}" "queue demo_idle = [''x'' \<mapsto> []]" "actors demo_idle = [''x'' \<mapsto> 7]"
  "sch_config demo_idle = demo_config" "tasks demo_idle = []" "logs demo_idle = []"
  "user_metrics demo_idle = Map.empty" "started demo_idle = 0"
  by (simp_all add: demo_idle_def event_loop_init_def)

lemma demo_quiet:
  "\<not> eager_shutdown_enabled demo_config" "logging_enabled demo_config"
  "\<not> metric_reporting_enabled demo_config" "metric_reporting_interval demo_config = 1000000000"
  "delay_precision demo_config = 1000000"
  by (simp_all add: demo_defs)

definition demo_inputs :: "((nat, string) action option \<times> readings) list" where
  "demo_inputs =
     [(Some (Act_Queue ''x'' demo_mail), demo_readings),
      (Some (Act_Queue ''x'' (envelope_of ''again'')), demo_readings),
      (Some (Act_Return ''x'' 8 True), demo_readings)]"

lemma demo_run:
  "\<exists>s' out1 out2 out3.
    event_loop_run True ''demo'' ''localhost'' demo_inputs demo_idle = Ret (s', [out1, out2, out3], True) \<and>
    to_workers out1 = [Ev_Mail ''x'' 7 demo_mail] \<and> to_workers out2 = [] \<and>
    to_workers out3 = [Ev_Mail ''x'' 8 (envelope_of ''again'')]"
  by (simp add: demo_inputs_def event_loop_step_def on_queue_def on_return_def push_back_def pop_front_def
      loop_tail_def timer_phase_def report_phase_def drain_due.simps peek_task_def bh_peek_def
      demo_idle_simps demo_quiet demo_readings_def Let_def nothing_sent_def)

lemma demo_step:
  "\<exists>s' out go. event_loop_step True ''demo'' ''localhost'' received demo_readings demo_idle = Ret (s', out, go)"
  by (rule event_loop_step_total [OF demo_idle_ok]) (simp add: demo_readings_def)

lemma demo_received:
  "received_actions (take (length [out1, out2, out3]) demo_inputs) =
     [Act_Queue ''x'' demo_mail, Act_Queue ''x'' (envelope_of ''again''), Act_Return ''x'' 8 True]"
  by (simp add: demo_inputs_def)

section \<open>Safety and refinement\<close>





section \<open>Delivery\<close>

text \<open>
  C5. First in, first out: while an actor is bound to a tag and nobody stops it and it does not
  fail, the messages handed to the workers for it followed by those still in its mailbox are the
  messages that were in its mailbox followed by those queued to it, in order: none lost, none
  duplicated, none overtaken, whatever happens to the other tags.
\<close>

theorem mailbox_is_fifo:
  assumes "loop_ok s" "tag \<in> active s"
    and "event_loop_run alive name host inputs s = Ret (s', outs, go)"
    and "\<forall>act \<in> set (received_actions (take (length outs) inputs)). keeps tag act"
  shows "mails tag (concat (map to_workers outs)) @ mailbox tag s' =
         mailbox tag s @ concat (map (queued tag) (received_actions (take (length outs) inputs)))
         \<and> tag \<in> active s'"
  using mailbox_law.run_law [of s tag alive name host inputs s' outs go] assms
  by (simp add: foldr_append_concat mails_concat comp_def)

theorem mailbox_is_fifo_witness:
  "\<exists>s' outs go.
    event_loop_run True ''demo'' ''localhost'' demo_inputs demo_idle = Ret (s', outs, go) \<and>
    mails ''x'' (concat (map to_workers outs)) @ mailbox ''x'' s' = [demo_mail, envelope_of ''again'']"
proof -
  obtain s' out1 out2 out3 where
    r: "event_loop_run True ''demo'' ''localhost'' demo_inputs demo_idle = Ret (s', [out1, out2, out3], True)"
    using demo_run by blast
  have "\<forall>act \<in> set (received_actions (take (length [out1, out2, out3]) demo_inputs)). keeps ''x'' act"
    unfolding demo_received by simp
  from mailbox_is_fifo [OF demo_idle_ok _ r this]
  have "mails ''x'' (concat (map to_workers [out1, out2, out3])) @ mailbox ''x'' s' =
    [demo_mail, envelope_of ''again'']"
    unfolding demo_received by (simp add: demo_idle_simps mailbox_def queued_def)
  with r show ?thesis by blast
qed

text \<open>
  C9. No delayed message is lost or sent twice: over any run, the messages the timer loop sends
  back to the scheduler together with those still on the heap are, as a multiset, those that
  were on the heap together with those delayed during the run.
\<close>

theorem delayed_messages_conserved:
  assumes "loop_ok s" "event_loop_run alive name host inputs s = Ret (s', outs, go)"
  shows "sum_list (map requeued outs) + pending s' =
         pending s + sum_list (map delayed (received_actions (take (length outs) inputs)))"
  using timer_law.run_law [OF assms] by (simp add: foldr_plus_sum)

theorem delayed_messages_conserved_witness:
  "\<exists>s' outs go.
    event_loop_run True ''demo'' ''localhost'' demo_inputs demo_idle = Ret (s', outs, go) \<and>
    sum_list (map requeued outs) + pending s' = {#}"
proof -
  obtain s' out1 out2 out3 where
    r: "event_loop_run True ''demo'' ''localhost'' demo_inputs demo_idle = Ret (s', [out1, out2, out3], True)"
    using demo_run by blast
  from delayed_messages_conserved [OF demo_idle_ok r]
  have "sum_list (map requeued [out1, out2, out3]) + pending s' = {#}"
    unfolding demo_received by (simp add: demo_idle_simps pending_def delayed_def)
  with r show ?thesis by blast
qed

text \<open>
  C10. The timer loop of an iteration sends back exactly the entries due by its clock reading plus
  half the configured precision, each once and earliest deadline first, and leaves on the heap
  exactly the entries that are not due; so nothing is late by more than an iteration or early by
  more than half the precision.
\<close>

theorem timers_on_time:
  assumes "tasks_ok (tasks s)" "timer_phase rd s = (s', acts)"
  shows "\<exists>due. acts = map (\<lambda>e. Act_Queue (entry_tag e) (entry_envelope e)) due
     \<and> sorted (map entry_at due)
     \<and> (\<forall>e \<in> set due. entry_at e \<le> rd_now rd + delay_precision (sch_config s) div 2)
     \<and> (\<forall>e \<in> set (tasks s'). rd_now rd + delay_precision (sch_config s) div 2 < entry_at e)
     \<and> mset due + mset (tasks s') = mset (tasks s)"
proof -
  let ?now = "rd_now rd + delay_precision (sch_config s) div 2"
  let ?due = "fst (drain_due ?now (tasks s))"
  have eqs: "acts = map (\<lambda>e. Act_Queue (entry_tag e) (entry_envelope e)) ?due"
    "tasks s' = snd (drain_due ?now (tasks s))"
    using assms(2) by (auto simp: timer_phase_def Let_def split_beta)
  have "set ?due = {e \<in> set (tasks s). due_at ?now e}"
    using drain_due_entries [OF assms(1), of ?now] by (metis set_mset_filter set_mset_mset)
  moreover have "set (tasks s') = {e \<in> set (tasks s). \<not> due_at ?now e}"
    using drain_due_rest [OF assms(1), of ?now] eqs(2) by (metis set_mset_filter set_mset_mset)
  ultimately show ?thesis
    using eqs drain_due_ordered [OF assms(1), of ?now] drain_due_all [OF assms(1), of ?now]
    by (intro exI [of _ ?due]) (auto simp: due_at_def)
qed

definition demo_entry :: "nat \<Rightarrow> string entry" where
  "demo_entry t = \<lparr>entry_at = t, entry_tag = ''x'', entry_envelope = demo_mail\<rparr>"

theorem timers_on_time_witness:
  "\<exists>s' acts due.
     timer_phase demo_readings (demo_idle\<lparr>tasks := [demo_entry 400000, demo_entry 500001]\<rparr>) = (s', acts)
     \<and> acts = map (\<lambda>e. Act_Queue (entry_tag e) (entry_envelope e)) due
     \<and> (\<forall>e \<in> set due. entry_at e \<le> 500000) \<and> (\<forall>e \<in> set (tasks s'). 500000 < entry_at e)
     \<and> mset due + mset (tasks s') = {#demo_entry 400000, demo_entry 500001#}"
proof -
  let ?s = "demo_idle\<lparr>tasks := [demo_entry 400000, demo_entry 500001]\<rparr>"
  obtain s' acts where t: "timer_phase demo_readings ?s = (s', acts)" by fastforce
  have "tasks_ok (tasks ?s)"
    by (auto simp: entry_order.heap_order_def less_Suc_eq entry_le_iff demo_entry_def parent_def)
  from timers_on_time [OF this t] t show ?thesis
    by (auto simp: demo_idle_simps demo_quiet demo_readings_def)
qed

section \<open>Stopping and failing\<close>

text \<open>
  C16. Stopping an active tag takes effect at once: the tag is no longer active, its waiting
  messages are discarded, its actor is handed to a worker for \<open>on_stop\<close> if it is at rest (and
  only then), and no other tag's actor, mailbox or activity changes.
\<close>

theorem stop_takes_effect:
  assumes "tag \<in> active s"
  shows "\<exists>s'. handle_action (Act_Stop tag) s =
      Ret (s', case actors s tag of None \<Rightarrow> [] | Some actor \<Rightarrow> [Ev_Stop tag actor], Proceed)
    \<and> tag \<notin> active s' \<and> queue s' tag = None \<and> actors s' tag = None \<and> tasks s' = tasks s
    \<and> (\<forall>t. t \<noteq> tag \<longrightarrow>
         (t \<in> active s' \<longleftrightarrow> t \<in> active s) \<and> queue s' t = queue s t \<and> actors s' t = actors s t)"
  using assms by (auto simp: on_stop_action_def Let_def split: option.splits)

theorem stop_takes_effect_witness:
  "\<exists>s'. handle_action (Act_Stop ''x'') demo_idle = Ret (s', [Ev_Stop ''x'' 7], Proceed) \<and> ''x'' \<notin> active s'"
proof -
  have "''x'' \<in> active demo_idle" by (simp add: demo_idle_simps)
  from stop_takes_effect [OF this] show ?thesis by (auto simp: demo_idle_simps)
qed

text \<open>
  C14. Once a tag is not active, no message is delivered under it until it is spawned again: over
  any run without a spawn of the tag, all the workers get for it is one \<open>on_stop\<close> for each
  actor that a worker still held and returns without failing, in the order of the returns.
\<close>

theorem stopped_tag_is_silent:
  assumes "loop_ok s" "tag \<notin> active s"
    and "event_loop_run alive name host inputs s = Ret (s', outs, go)"
    and "\<forall>act \<in> set (received_actions (take (length outs) inputs)). \<not> spawns tag act"
  shows "events_for tag (concat (map to_workers outs)) =
         concat (map (farewell tag) (received_actions (take (length outs) inputs)))
         \<and> tag \<notin> active s'"
  using stopped_law.run_law [of s tag alive name host inputs s' outs go] assms
  by (simp add: foldr_append_concat events_for_concat comp_def)

theorem stopped_tag_is_silent_witness:
  "\<exists>s' outs go.
    event_loop_run True ''demo'' ''localhost'' demo_inputs (demo_idle\<lparr>active := {}, queue := Map.empty\<rparr>)
      = Ret (s', outs, go) \<and>
    events_for ''x'' (concat (map to_workers outs)) =
      concat (map (farewell ''x'') (received_actions (take (length outs) demo_inputs)))"
proof -
  let ?s = "demo_idle\<lparr>active := {}, queue := Map.empty\<rparr>"
  have ok: "loop_ok ?s" using demo_idle_ok by (simp add: loop_ok_defs)
  have "\<forall>(received, rd) \<in> set demo_inputs. 0 \<le> rd_system rd"
    by (simp add: demo_inputs_def demo_readings_def)
  then obtain s' outs go where
    r: "event_loop_run True ''demo'' ''localhost'' demo_inputs ?s = Ret (s', outs, go)"
    using event_loop_run_total [OF ok] by blast
  have "\<forall>act \<in> set (received_actions (take (length outs) demo_inputs)). \<not> spawns ''x'' act"
    by (auto simp: demo_inputs_def spawns_def take_Cons' split: if_splits)
  from stopped_tag_is_silent [OF ok _ r this] r show ?thesis by auto
qed



text \<open>
  C38. A tag that is stopped while a worker holds its actor and spawned again before that actor
  comes back is taken over by the stopped actor: its return is not told apart from a return of the
  new one, the new actor is discarded, and the next message goes to the old actor, whose \<open>on_stop\<close>
  is never called. Stated for any run that receives these six actions: all the workers get is the
  two messages for the old actor.
\<close>

theorem respawn_revives_stopped_actor:
  assumes "loop_ok s" "tag \<notin> active s"
    and "map fst inputs = map Some
      [Act_Spawn tag old, Act_Queue tag e1, Act_Stop tag, Act_Spawn tag new,
       Act_Return tag old' True, Act_Queue tag e2]"
    and run: "event_loop_run alive name host inputs s = Ret (s', outs, True)"
  shows "concat (map to_workers outs) = [Ev_Mail tag old e1, Ev_Mail tag old' e2] \<and> tag \<in> active s'
    \<and> actors s' tag = None"
proof -
  have "received_actions inputs =
    [Act_Spawn tag old, Act_Queue tag e1, Act_Stop tag, Act_Spawn tag new,
     Act_Return tag old' True, Act_Queue tag e2]"
    using assms(3) by (auto simp: received_actions_def)
  with event_loop_run_refines [OF assms(1) run] event_loop_run_all [OF run] assms(2)
  have "cell_of s' tag = Busy []" and
    ev: "concat (map to_workers outs) = [Ev_Mail tag old e1, Ev_Mail tag old' e2]"
    by (simp_all add: cells_step_def prod_eq_iff cell_of_def)
  then show ?thesis
    by (cases "tag \<in> active s'"; cases "actors s' tag") (simp_all add: cell_of_def)
qed

definition demo_respawn :: "((nat, string) action option \<times> readings) list" where
  "demo_respawn =
     [(Some (Act_Spawn ''x'' 1), demo_readings), (Some (Act_Queue ''x'' demo_mail), demo_readings),
      (Some (Act_Stop ''x''), demo_readings), (Some (Act_Spawn ''x'' 2), demo_readings),
      (Some (Act_Return ''x'' 1 True), demo_readings), (Some (Act_Queue ''x'' demo_mail), demo_readings)]"

lemma demo_respawn_run:
  "\<exists>s' outs. event_loop_run True ''demo'' ''localhost'' demo_respawn
     (event_loop_init demo_config ''demo'' 0) = Ret (s', outs, True)"
proof -
  let ?s = "event_loop_init demo_config ''demo'' 0 :: (nat, string) event_loop"
  have "\<forall>(received, rd) \<in> set demo_respawn. 0 \<le> rd_system rd"
    by (simp add: demo_respawn_def demo_readings_def)
  then obtain s' outs go where
    r: "event_loop_run True ''demo'' ''localhost'' demo_respawn ?s = Ret (s', outs, go)"
    using event_loop_run_total [OF loop_ok_init] by blast
  have "go"
    by (rule run_goes_on [OF _ _ r]) (simp_all add: event_loop_init_def demo_quiet demo_respawn_def)
  with r have "event_loop_run True ''demo'' ''localhost'' demo_respawn ?s = Ret (s', outs, True)"
    by simp
  then show ?thesis by blast
qed

theorem respawn_revives_stopped_actor_witness:
  "\<exists>s' outs. event_loop_run True ''demo'' ''localhost'' demo_respawn
     (event_loop_init demo_config ''demo'' 0) = Ret (s', outs, True)
   \<and> concat (map to_workers outs) = [Ev_Mail ''x'' 1 demo_mail, Ev_Mail ''x'' 1 demo_mail]"
proof -
  obtain s' outs where
    r: "event_loop_run True ''demo'' ''localhost'' demo_respawn
     (event_loop_init demo_config ''demo'' 0) = Ret (s', outs, True)"
    using demo_respawn_run by blast
  have a: "map fst demo_respawn = map Some
      [Act_Spawn ''x'' 1, Act_Queue ''x'' demo_mail, Act_Stop ''x'', Act_Spawn ''x'' 2,
       Act_Return ''x'' 1 True, Act_Queue ''x'' demo_mail]"
    by (simp add: demo_respawn_def)
  have "''x'' \<notin> active (event_loop_init demo_config ''demo'' 0)" by (simp add: event_loop_init_def)
  from respawn_revives_stopped_actor [OF loop_ok_init this a r] r show ?thesis by blast
qed

section \<open>The loop itself\<close>

text \<open>
  The loop ends on a shutdown, or, with eager shutdown, after an iteration that leaves no
  active actor; an iteration that frees a failed actor is the exception, it never ends the loop.
\<close>

theorem loop_ends_iff:
  assumes "event_loop_step alive name host received rd s = Ret (s', out, go)"
  shows "\<not> go \<longleftrightarrow> received = Some Act_Shutdown \<or>
    (eager_shutdown_enabled (sch_config s) \<and> active s' = {} \<and>
     (\<nexists>tag actor. received = Some (Act_Return tag actor False) \<and> tag \<in> active s))"
  using assms by (rule loop_end)

theorem loop_ends_iff_witness:
  "\<exists>s' out go. event_loop_step True ''demo'' ''localhost'' (Some Act_Shutdown) demo_readings demo_idle
    = Ret (s', out, go) \<and> \<not> go"
proof -
  obtain s' out go where
    r: "event_loop_step True ''demo'' ''localhost'' (Some Act_Shutdown) demo_readings demo_idle
      = Ret (s', out, go)"
    using demo_step by blast
  from loop_ends_iff [OF r] have "\<not> go" by blast
  with r show ?thesis by blast
qed

text \<open>
  The polling timeout: it halves on every action and doubles on every miss, stays between 1
  and 256 milliseconds, and eight hits or eight misses in a row take it to its lower or upper
  bound from wherever it was.
\<close>

theorem timeout_adapts:
  assumes "timeout_ok s" "event_loop_step alive name host received rd s = Ret (s', out, go)"
  shows "timeout_ok s' \<and> timeout_millis s' = next_timeout (received \<noteq> None) (timeout_millis s)
    \<and> (next_timeout True ^^ 8) (timeout_millis s) = min_timeout_millis
    \<and> (next_timeout False ^^ 8) (timeout_millis s) = max_timeout_millis"
proof -
  have bounds: "min_timeout_millis \<le> timeout_millis s" "timeout_millis s \<le> max_timeout_millis"
    using assms(1) by (simp_all add: timeout_ok_def)
  then have "timeout_ok s'"
    using timeout_step [OF assms(2)] by (auto simp: timeout_ok_def next_timeout_def timeout_defs)
  with timeout_step [OF assms(2)] next_timeout_hits next_timeout_misses bounds show ?thesis by simp
qed

theorem timeout_adapts_witness:
  "\<exists>s' out go. event_loop_step True ''demo'' ''localhost'' None demo_readings demo_idle
      = Ret (s', out, go) \<and> timeout_ok s' \<and> timeout_millis s' = 256"
proof -
  obtain s' out go where
    r: "event_loop_step True ''demo'' ''localhost'' None demo_readings demo_idle = Ret (s', out, go)"
    using demo_step by blast
  have ok: "timeout_ok demo_idle" using demo_idle_ok by (simp add: loop_ok_def)
  have "timeout_millis demo_idle = 256" by (simp add: demo_defs timeout_defs)
  with timeout_adapts [OF ok r] r show ?thesis by (auto simp: next_timeout_def timeout_defs)
qed

text \<open>
  The counters balance at every turn of the loop: hits and misses add up to ticks and
  failures, and each queued message is counted once, across reports and wrap-arounds.
\<close>

theorem counters_balance:
  assumes "counters_ok s" "received \<noteq> Some Act_Shutdown"
    and "event_loop_step alive name host received rd s = Ret (s', out, go)"
  shows "m_hit (counters s') + m_miss (counters s') = m_ticks (counters s') + m_failures (counters s')
    \<and> m_messages (counters s') = m_queues (counters s')"
  using counters_step [OF assms(3,1,2)] by (simp add: counters_ok_def)

theorem counters_balance_witness:
  "\<exists>s' out go. event_loop_step True ''demo'' ''localhost'' None demo_readings demo_idle
      = Ret (s', out, go) \<and>
    m_hit (counters s') + m_miss (counters s') = m_ticks (counters s') + m_failures (counters s')"
proof -
  obtain s' out go where
    r: "event_loop_step True ''demo'' ''localhost'' None demo_readings demo_idle = Ret (s', out, go)"
    using demo_step by blast
  have "counters_ok demo_idle" by (simp add: counters_ok_def demo_defs)
  from counters_balance [OF this _ r] r show ?thesis by auto
qed

section \<open>Reporting\<close>

text \<open>
  Every log line and every metric sample reaches the background job once and in order: over
  a run, what is reported followed by what is kept is what was kept followed by what came in.
\<close>

theorem logs_and_metrics_reported_once:
  assumes "event_loop_run alive app host inputs s = Ret (s', outs, go)"
  shows "concat (map reported_logs outs) @ logs s' =
      logs s @ concat (map logged (received_actions (take (length outs) inputs)))
    \<and> concat (map (reported_metrics name) outs) @ held_metrics name s' =
      held_metrics name s @ concat (map (measured name) (received_actions (take (length outs) inputs)))"
  using log_law.run_law [OF TrueI assms] metric_law.run_law [OF TrueI assms, of name]
  by (simp add: foldr_append_concat)

theorem logs_and_metrics_reported_once_witness:
  "\<exists>s' outs go. event_loop_run True ''demo'' ''localhost'' demo_inputs demo_idle = Ret (s', outs, go) \<and>
    concat (map reported_logs outs) @ logs s' = []"
proof -
  obtain s' out1 out2 out3 where
    r: "event_loop_run True ''demo'' ''localhost'' demo_inputs demo_idle = Ret (s', [out1, out2, out3], True)"
    using demo_run by blast
  from logs_and_metrics_reported_once [OF r]
  have "concat (map reported_logs [out1, out2, out3]) @ logs s' = []"
    unfolding demo_received by (simp add: demo_idle_simps logged_def)
  with r show ?thesis by blast
qed

text \<open>
  With logging and metric reporting switched off the loop still collects: it discards
  nothing, so what it keeps grows with every log line and every sample for as long as it runs.
\<close>

theorem unreported_books_grow:
  assumes run: "event_loop_run alive app host inputs s = Ret (s', outs, go)"
    and off: "\<not> logging_enabled (sch_config s)" "\<not> metric_reporting_enabled (sch_config s)"
  shows "logs s' = logs s @ concat (map logged (received_actions (take (length outs) inputs)))
    \<and> held_metrics name s' =
      held_metrics name s @ concat (map (measured name) (received_actions (take (length outs) inputs)))"
proof -
  have "\<forall>out \<in> set outs. reported_logs out = [] \<and> reported_metrics name out = []"
    using run_invariant [of "\<lambda>r. sch_config r = sch_config s" alive app host
        "\<lambda>out. reported_logs out = [] \<and> reported_metrics name out = []", OF _ refl run]
      config_step unreported off by metis
  then have "concat (map reported_logs outs) = []" "concat (map (reported_metrics name) outs) = []"
    by simp_all
  with log_law.run_law [OF TrueI run] metric_law.run_law [OF TrueI run, of name] show ?thesis
    by (simp add: foldr_append_concat)
qed

theorem unreported_books_grow_witness:
  "\<exists>s' outs go.
    event_loop_run True ''demo'' ''localhost'' [(Some (Act_Logs ''x'' [(5, ''line'')]), demo_readings)]
      (demo_idle\<lparr>sch_config := demo_config\<lparr>logging_enabled := False\<rparr>\<rparr>) = Ret (s', outs, go)
    \<and> (outs \<noteq> [] \<longrightarrow> logs s' = [(''x'', [(5, ''line'')])])"
proof -
  let ?s = "demo_idle\<lparr>sch_config := demo_config\<lparr>logging_enabled := False\<rparr>\<rparr>"
  let ?in = "[(Some (Act_Logs ''x'' [(5, ''line'')]), demo_readings)] :: ((nat, string) action option \<times> readings) list"
  have clock: "\<forall>(received, rd) \<in> set ?in. 0 \<le> rd_system rd" by (simp add: demo_readings_def)
  have "loop_ok ?s" using demo_idle_ok by (simp add: loop_ok_defs)
  then obtain s' outs go where
    r: "event_loop_run True ''demo'' ''localhost'' ?in ?s = Ret (s', outs, go)"
    using event_loop_run_total [OF _ clock] by blast
  have "logs s' = logs ?s @ concat (map logged (received_actions (take (length outs) ?in)))"
    by (rule unreported_books_grow [OF r, THEN conjunct1]) (simp_all add: demo_idle_simps demo_quiet)
  then have "outs \<noteq> [] \<longrightarrow> logs s' = [(''x'', [(5, ''line'')])]"
    by (cases outs) (simp_all add: demo_idle_simps logged_def)
  with r show ?thesis by blast
qed

end
