(* ===== verification/Worker.thy ===== *)
theory Worker
  imports Sender
begin

text \<open>
  The worker threads, \<open>worker_loop\<close> of \<open>src/core.rs\<close>. One turn of the loop is
  \<open>worker_turn\<close>: it runs the actor's method with the worker's \<open>Local\<close> as its sender and
  returns the sender with what was sent. A panic of \<open>receive\<close> is caught and reported to
  \<open>on_fail\<close>; a panic of \<open>on_fail\<close> or of \<open>on_stop\<close> is not, it unwinds out of the loop
  (\<open>Died\<close>), after what was sent until then.
\<close>

datatype worker_status = Looping | Stopped | Died

definition worker_mail ::
  "('a, 'm) behaviour \<Rightarrow> tag \<Rightarrow> 'a \<Rightarrow> 'm envelope \<Rightarrow> ('a, 'm) local_sender \<Rightarrow>
   ('a, 'm) local_sender \<times> worker_status"
where
  "worker_mail B tag actor envelope l =
     (let l1 = l\<lparr>local_tag := tag\<rparr>;
          (calls, actor', ok) = receive B tag envelope actor;
          l2 = local_calls calls l1
      in if ok then (local_drain (local_emit (Act_Return tag actor' True) l2), Looping)
         else let (calls', ok') = on_fail B tag actor';
                  l3 = local_calls calls' l2
              in if ok' then (local_drain (local_emit (Act_Return tag actor' False) l3), Looping)
                 else (l3, Died))"

definition worker_stop ::
  "('a, 'm) behaviour \<Rightarrow> tag \<Rightarrow> 'a \<Rightarrow> ('a, 'm) local_sender \<Rightarrow> ('a, 'm) local_sender \<times> worker_status"
where
  "worker_stop B tag actor l =
     (let l1 = l\<lparr>local_tag := tag\<rparr>;
          (calls, ok) = on_stop B tag actor;
          l2 = local_calls calls l1
      in if ok then (local_drain l2, Looping) else (l2, Died))"

primrec worker_turn ::
  "('a, 'm) behaviour \<Rightarrow> ('a, 'm) event \<Rightarrow> ('a, 'm) local_sender \<Rightarrow> ('a, 'm) local_sender \<times> worker_status"
where
  "worker_turn B (Ev_Mail tag actor envelope) l = worker_mail B tag actor envelope l"
| "worker_turn B (Ev_Stop tag actor) l = worker_stop B tag actor l"
| "worker_turn B Ev_Shutdown l = (l, Stopped)"

text \<open>\<open>worker_loop\<close> on the events it receives, until it breaks or dies.\<close>

fun worker_loop ::
  "('a, 'm) behaviour \<Rightarrow> ('a, 'm) event list \<Rightarrow> ('a, 'm) local_sender \<Rightarrow>
   ('a, 'm) local_sender \<times> worker_status"
where
  "worker_loop B [] l = (l, Looping)"
| "worker_loop B (ev # evs) l =
     (let (l', status) = worker_turn B ev l
      in if status = Looping then worker_loop B evs l' else (l', status))"

section \<open>What a turn sends\<close>

definition is_book :: "('a, 'm) action \<Rightarrow> bool" where
  "is_book act = (case act of Act_Logs t es \<Rightarrow> True | Act_Metrics m \<Rightarrow> True | _ \<Rightarrow> False)"

lemma local_drain_tx:
  "\<exists>books. local_tx (local_drain l) = local_tx l @ books \<and> (\<forall>act \<in> set books. is_book act)"
  by (auto simp: local_drain_def local_emit_def Let_def is_book_def)

lemma local_drain_tag [frame_simps]: "local_tag (local_drain l) = local_tag l"
  by (simp add: local_drain_def local_emit_def Let_def)

definition is_return :: "tag \<Rightarrow> ('a, 'm) action \<Rightarrow> bool" where
  "is_return tag act = (case act of Act_Return t actor ok \<Rightarrow> t = tag | _ \<Rightarrow> False)"

lemma call_actions_no_return: "filter (is_return tag) (concat (map call_actions calls)) = []"
proof (induction calls)
  case Nil
  then show ?case by simp
next
  case (Cons c calls)
  then show ?case by (cases c) (simp_all add: is_return_def)
qed

lemma books_no_return: "\<forall>act \<in> set books. is_book act \<Longrightarrow> filter (is_return tag) books = []"
  by (auto simp: filter_empty_conv is_book_def is_return_def split: action.splits)

text \<open>The sends of a turn on mail, in the order they are made.\<close>

lemma worker_mail_tx:
  assumes "receive B tag e actor = (calls, actor', ok)" "on_fail B tag actor' = (calls', ok')"
    and "worker_mail B tag actor e l = (l', status)"
  shows "if ok \<or> ok'
    then status = Looping \<and> local_logs l' = [] \<and> local_metrics l' = Map.empty \<and>
      (\<exists>books. (\<forall>act \<in> set books. is_book act) \<and>
         local_tx l' = local_tx l @ concat (map call_actions calls)
           @ (if ok then [] else concat (map call_actions calls')) @ [Act_Return tag actor' ok] @ books)
    else status = Died \<and>
      local_tx l' = local_tx l @ concat (map call_actions calls) @ concat (map call_actions calls')"
proof (cases ok)
  case True
  let ?l = "local_emit (Act_Return tag actor' True) (local_calls calls (l\<lparr>local_tag := tag\<rparr>))"
  obtain books where "local_tx (local_drain ?l) = local_tx ?l @ books" "\<forall>act \<in> set books. is_book act"
    using local_drain_tx by blast
  moreover have "l' = local_drain ?l" "status = Looping"
    using assms True by (simp_all add: worker_mail_def)
  ultimately show ?thesis using True by (simp add: local_drain_empty local_emit_def frame_simps)
next
  case False
  let ?l3 = "local_calls calls' (local_calls calls (l\<lparr>local_tag := tag\<rparr>))"
  let ?l = "local_emit (Act_Return tag actor' False) ?l3"
  show ?thesis
  proof (cases ok')
    case True
    obtain books where "local_tx (local_drain ?l) = local_tx ?l @ books" "\<forall>act \<in> set books. is_book act"
      using local_drain_tx by blast
    moreover have "l' = local_drain ?l" "status = Looping"
      using assms True False by (simp_all add: worker_mail_def)
    ultimately show ?thesis
      using True False by (simp add: local_drain_empty local_emit_def frame_simps)
  next
    case dead: False
    with assms False have "l' = ?l3" "status = Died" by (simp_all add: worker_mail_def)
    with False dead show ?thesis by (simp add: frame_simps)
  qed
qed

lemma worker_stop_tx:
  assumes "on_stop B tag actor = (calls, ok)" "worker_stop B tag actor l = (l', status)"
  shows "\<exists>books. (\<forall>act \<in> set books. is_book act) \<and>
    local_tx l' = local_tx l @ concat (map call_actions calls) @ books"
proof (cases ok)
  case True
  let ?l = "local_calls calls (l\<lparr>local_tag := tag\<rparr>)"
  obtain books where "local_tx (local_drain ?l) = local_tx ?l @ books" "\<forall>act \<in> set books. is_book act"
    using local_drain_tx by blast
  with True assms show ?thesis by (auto simp: worker_stop_def frame_simps)
next
  case False
  with assms show ?thesis by (auto simp: worker_stop_def frame_simps)
qed

text \<open>An actor goes back to the scheduler at most once for the mail that carried it out.\<close>

lemma worker_turn_returns:
  assumes "worker_turn B ev l = (l', status)" "local_tx l = []"
  shows "length (filter (is_return tag) (local_tx l')) \<le>
    (case ev of Ev_Mail t actor e \<Rightarrow> if t = tag then 1 else 0 | _ \<Rightarrow> 0)"
proof (cases ev)
  case (Ev_Mail t actor e)
  obtain calls actor' ok calls' ok' where
    r: "receive B t e actor = (calls, actor', ok)" and f: "on_fail B t actor' = (calls', ok')"
    by (metis surj_pair)
  have "worker_mail B t actor e l = (l', status)" using assms Ev_Mail by simp
  note tx = worker_mail_tx [OF r f this]
  show ?thesis
  proof (cases "ok \<or> ok'")
    case True
    with tx obtain books where "\<forall>act \<in> set books. is_book act"
      "local_tx l' = concat (map call_actions calls)
           @ (if ok then [] else concat (map call_actions calls')) @ [Act_Return t actor' ok] @ books"
      using assms(2) by auto
    with Ev_Mail books_no_return [of books tag] call_actions_no_return [of tag calls]
      call_actions_no_return [of tag calls'] show ?thesis by (simp add: is_return_def)
  next
    case False
    with tx Ev_Mail assms(2) call_actions_no_return [of tag calls]
      call_actions_no_return [of tag calls'] show ?thesis by simp
  qed
next
  case (Ev_Stop t actor)
  obtain calls ok where "on_stop B t actor = (calls, ok)" by fastforce
  with worker_stop_tx [OF this, of l l' status] assms Ev_Stop obtain books where
    "\<forall>act \<in> set books. is_book act" "local_tx l' = concat (map call_actions calls) @ books"
    by auto
  with Ev_Stop books_no_return [of books tag] call_actions_no_return [of tag calls] show ?thesis by simp
next
  case Ev_Shutdown
  with assms show ?thesis by simp
qed

section \<open>Properties\<close>

text \<open>
  C19. A worker gives an actor back exactly once per message, with the verdict: after all the sends the
  handler made (and those of \<open>on_fail\<close> when it panicked), in order, comes one \<open>Return\<close> that says
  whether the handler returned, then only log and metric batches, which leave nothing behind for
  the next actor. A panicking handler never takes the worker down, unless its own \<open>on_fail\<close>
  panics too: then the worker is lost and the actor is never given back.
\<close>

theorem worker_returns_actor_once:
  assumes "receive B tag e actor = (calls, actor', ok)" "on_fail B tag actor' = (calls', ok')"
    and "worker_turn B (Ev_Mail tag actor e) l = (l', status)"
  shows "if ok \<or> ok'
    then status = Looping \<and> local_logs l' = [] \<and> local_metrics l' = Map.empty \<and>
      (\<exists>books. (\<forall>act \<in> set books. is_book act) \<and>
         local_tx l' = local_tx l @ concat (map call_actions calls)
           @ (if ok then [] else concat (map call_actions calls')) @ [Act_Return tag actor' ok] @ books)
    else status = Died \<and>
      local_tx l' = local_tx l @ concat (map call_actions calls) @ concat (map call_actions calls')"
proof -
  have "worker_mail B tag actor e l = (l', status)" using assms(3) by simp
  then show ?thesis by (rule worker_mail_tx [OF assms(1,2)])
qed

definition demo_behaviour :: "(nat, string) behaviour" where
  "demo_behaviour =
     \<lparr>receive = (\<lambda>me e n. ([Log 0 ''got it'', Send ''y'' e], n + 1, n < 5)),
      on_fail = (\<lambda>me n. ([Send ''boss'' (envelope_of ''failed'')], True)),
      on_stop = default_on_stop\<rparr>"

theorem worker_returns_actor_once_witness:
  "\<exists>l'. worker_turn demo_behaviour (Ev_Mail ''x'' 5 (envelope_of ''hi'')) local_new = (l', Looping) \<and>
    (\<exists>books. local_tx l' = [Act_Queue ''y'' (envelope_of ''hi''), Act_Queue ''boss'' (envelope_of ''failed''),
      Act_Return ''x'' 6 False] @ books)"
proof -
  obtain l' status where
    t: "worker_turn demo_behaviour (Ev_Mail ''x'' 5 (envelope_of ''hi'')) local_new = (l', status)"
    by fastforce
  have r: "receive demo_behaviour ''x'' (envelope_of ''hi'') 5 =
    ([Log 0 ''got it'', Send ''y'' (envelope_of ''hi'')], 6, False)"
    and f: "on_fail demo_behaviour ''x'' 6 = ([Send ''boss'' (envelope_of ''failed'')], True)"
    by (simp_all add: demo_behaviour_def)
  from worker_returns_actor_once [OF r f t]
  have "status = Looping" "\<exists>books. local_tx l' = [Act_Queue ''y'' (envelope_of ''hi''),
    Act_Queue ''boss'' (envelope_of ''failed''), Act_Return ''x'' 6 False] @ books"
    by (auto simp: local_new_def)
  with t show ?thesis by blast
qed

end
