(* ===== verification/Transition.thy ===== *)
theory Transition
  imports Prelude
begin

text \<open>
  Transition systems the components are: a set of initial states, a step relation, and an
  invariant that holds initially and is kept by every step, hence holds in every state a
  system reaches; and the contract of the unbounded channels the threads talk over.
\<close>

locale invariant_of =
  fixes init :: "'s \<Rightarrow> bool" and step :: "'s \<Rightarrow> 's \<Rightarrow> bool" and inv :: "'s \<Rightarrow> bool"
  assumes init_inv: "init s \<Longrightarrow> inv s"
    and step_inv: "inv s \<Longrightarrow> step s t \<Longrightarrow> inv t"
begin

lemma steps_inv: "step\<^sup>*\<^sup>* s t \<Longrightarrow> inv s \<Longrightarrow> inv t"
  by (induction rule: rtranclp_induct) (auto intro: step_inv)

lemma reachable_inv: "init s \<Longrightarrow> step\<^sup>*\<^sup>* s t \<Longrightarrow> inv t"
  using steps_inv init_inv by blast

end

section \<open>Channels\<close>

text \<open>
  A channel of the crate \<open>crossbeam_channel\<close> is a parameter: the operations \<open>send\<close> and
  (non-blocking) \<open>recv\<close> on some state \<open>'q\<close>. What the crate documents, and all the runtime
  relies on, is that values come out in the order they went in.
\<close>

record ('e, 'q) chan =
  chan_send :: "'e \<Rightarrow> 'q \<Rightarrow> 'q"
  chan_recv :: "'q \<Rightarrow> ('e \<times> 'q) option"

locale unbounded_channel =
  fixes C :: "('e, 'q) chan" and content :: "'q \<Rightarrow> 'e list"
  assumes content_send: "content (chan_send C e q) = content q @ [e]"
    and recv_None: "chan_recv C q = None \<longleftrightarrow> content q = []"
    and recv_Some: "chan_recv C q = Some (e, q') \<Longrightarrow> content q = e # content q'"
begin

lemma content_sends: "content (fold (chan_send C) es q) = content q @ es"
  by (induction es arbitrary: q) (simp_all add: content_send)

end

text \<open>A list keeps the contract.\<close>

definition list_chan :: "('e, 'e list) chan" where
  "list_chan =
     \<lparr>chan_send = (\<lambda>e q. q @ [e]),
      chan_recv = (\<lambda>q. case q of [] \<Rightarrow> None | e # es \<Rightarrow> Some (e, es))\<rparr>"

interpretation list_chan: unbounded_channel list_chan "\<lambda>q. q"
  by unfold_locales (auto simp: list_chan_def split: list.splits)

lemma list_chan_simps [simp]:
  "chan_send list_chan e q = q @ [e]" "chan_recv list_chan [] = None"
  "chan_recv list_chan (e # q) = Some (e, q)"
  by (simp_all add: list_chan_def)

end
