(* ===== verification/Runtime.thy ===== *)
theory Runtime
  imports Scheduler_Spec Worker Transition
begin

text \<open>
  The threads of a runtime together: \<open>start_actor_runtime\<close>, \<open>Runtime::start\<close>,
  \<open>System::run\<close> and the methods of \<open>Run\<close>, of \<open>src/core.rs\<close>.

  The state holds the scheduler thread with its phase, the two channels, the worker threads
  and whether the \<open>Run\<close> handle is still held. \<open>rt_step\<close> is one move of one thread: an
  iteration of the event loop, a worker that takes an event and runs the actor, a worker that
  sends the next action of its turn, a worker that waits again or leaves, the scheduler thread
  that tells the workers to shut down and then drains the actions. \<open>client_step\<close> is a call of
  a method of \<open>Run\<close>. The moves interleave freely. An iteration of the event loop is one move: it
  is the only receiver of actions and the only sender of events.

  The channels of the crate \<open>crossbeam_channel\<close>, the code of the actors and the clock are
  parameters, gathered in the record \<open>world\<close>.
\<close>

section \<open>State\<close>

datatype ('a, 'm) worker =
    Waiting "('a, 'm) local_sender"
  | Sending "('a, 'm) action list" "('a, 'm) local_sender" worker_status
  | Gone

text \<open>
  \<open>Running\<close>: in \<open>event_loop\<close>; \<open>Closing k\<close>: \<open>k\<close> shutdown events are still to be sent;
  \<open>Draining\<close>: in the loop after them; \<open>Finished\<close>: the closure returned; \<open>Crashed\<close>: it panicked.
\<close>

datatype phase = Running | Closing nat | Draining | Finished | Crashed

record ('a, 'm, 'qe, 'qa) runtime_state =
  rt_loop :: "('a, 'm) event_loop"
  rt_phase :: phase
  rt_events :: 'qe
  rt_actions :: 'qa
  rt_workers :: "('a, 'm) worker list"
  rt_handle :: bool
  rt_spawned :: "tag \<Rightarrow> nat"

text \<open>\<open>rt_spawned\<close> is a ghost: how many spawns of a tag the scheduler accepted.\<close>

record ('a, 'm, 'qe, 'qa) world =
  w_behaviour :: "('a, 'm) behaviour"
  w_event_chan :: "(('a, 'm) event, 'qe) chan"
  w_action_chan :: "(('a, 'm) action, 'qa) chan"
  w_clock :: "readings \<Rightarrow> bool"
  w_name :: string
  w_host :: string

definition some_worker :: "('a, 'm, 'qe, 'qa) runtime_state \<Rightarrow> bool" where
  "some_worker s = (\<exists>w \<in> set (rt_workers s). w \<noteq> Gone)"

text \<open>The receiving end of the actions lives while the scheduler thread does.\<close>

definition listening_phase :: "phase \<Rightarrow> bool" where
  "listening_phase p \<longleftrightarrow> p \<noteq> Finished \<and> p \<noteq> Crashed"

section \<open>The methods of Run\<close>

definition run_send :: "(('a, 'm) action, 'qa) chan \<Rightarrow> string \<Rightarrow> 'm envelope \<Rightarrow> 'qa \<Rightarrow> 'qa" where
  "run_send C address envelope q =
     (let (tag, envelope') = adjust_remote_address address envelope
      in chan_send C (Act_Queue tag envelope') q)"

definition run_spawn :: "(('a, 'm) action, 'qa) chan \<Rightarrow> string \<Rightarrow> 'a \<Rightarrow> 'qa \<Rightarrow> 'qa" where
  "run_spawn C address actor q = chan_send C (Act_Spawn address actor) q"

definition run_spawn_default :: "(('a, 'm) action, 'qa) chan \<Rightarrow> 'a \<Rightarrow> string \<Rightarrow> 'qa \<Rightarrow> 'qa" where
  "run_spawn_default C default_actor address q = chan_send C (Act_Spawn address default_actor) q"

definition run_delay ::
  "(('a, 'm) action, 'qa) chan \<Rightarrow> instant \<Rightarrow> string \<Rightarrow> 'm envelope \<Rightarrow> duration \<Rightarrow> 'qa \<Rightarrow> 'qa"
where
  "run_delay C now address envelope d q =
     (let at = now + d;
          (tag, envelope') = adjust_remote_address address envelope
      in chan_send C (Act_Delay \<lparr>entry_at = at, entry_tag = tag, entry_envelope = envelope'\<rparr>) q)"

definition run_stop :: "(('a, 'm) action, 'qa) chan \<Rightarrow> string \<Rightarrow> 'qa \<Rightarrow> 'qa" where
  "run_stop C address q = chan_send C (Act_Stop address) q"

definition run_shutdown :: "(('a, 'm) action, 'qa) chan \<Rightarrow> 'qa \<Rightarrow> 'qa" where
  "run_shutdown C q = chan_send C Act_Shutdown q"

lemmas run_defs = run_send_def run_spawn_def run_spawn_default_def run_delay_def run_stop_def run_shutdown_def

section \<open>Starting\<close>

text \<open>
  \<open>start_actor_runtime\<close> submits the worker closures and the scheduler closure to the pool;
  \<open>now\<close> is the reading of \<open>Instant::now()\<close> when the event loop begins.
\<close>

definition start_actor_runtime ::
  "string \<Rightarrow> scheduler_config \<Rightarrow> instant \<Rightarrow> 'qe \<Rightarrow> 'qa \<Rightarrow> ('a, 'm, 'qe, 'qa) runtime_state"
where
  "start_actor_runtime name c now events actions =
     \<lparr>rt_loop = event_loop_init c name now, rt_phase = Running, rt_events = events,
      rt_actions = actions, rt_workers = replicate (actor_worker_threads c) (Waiting local_new),
      rt_handle = True, rt_spawned = (\<lambda>_. 0)\<rparr>"

text \<open>
  The remote actors are given by their constructors: \<open>Server::listen\<close> may fail, and tells the port
  it listens on, \<open>Client::new\<close> does not; the last two are the messages \<open>server::Loop\<close> and
  \<open>client::Loop\<close>.
\<close>

record ('a, 'm) remote_actors =
  new_server_actor :: "string \<Rightarrow> server_config \<Rightarrow> error + 'a \<times> u16"
  new_client_actor :: "u16 \<Rightarrow> client_config \<Rightarrow> 'a"
  server_loop_msg :: 'm
  client_loop_msg :: 'm

text \<open>
  \<open>Runtime::start\<close>. The first component is the error, if any. The threads are started before
  the server is: when it cannot listen they are left running, with the handle dropped.
\<close>

definition runtime_start ::
  "('a, 'm, 'qe, 'qa) world \<Rightarrow> ('a, 'm) remote_actors \<Rightarrow> config \<Rightarrow> instant \<Rightarrow> 'qe \<Rightarrow> 'qa \<Rightarrow>
   error option \<times> ('a, 'm, 'qe, 'qa) runtime_state"
where
  "runtime_start W R c now events actions =
     (let s = start_actor_runtime (w_name W) (cfg_scheduler c) now events actions;
          C = w_action_chan W
      in if remote_enabled (cfg_remote c)
         then case new_server_actor R (listening (cfg_remote c)) (server_cfg (cfg_remote c)) of
                Inl e \<Rightarrow> (Some e, s\<lparr>rt_handle := False\<rparr>)
              | Inr (server, port) \<Rightarrow>
                  let q1 = run_spawn C SERVER server (rt_actions s);
                      q2 = run_send C SERVER (envelope_of (server_loop_msg R)) q1;
                      client = new_client_actor R port (client_cfg (cfg_remote c));
                      q3 = run_spawn C CLIENT client q2;
                      q4 = run_send C CLIENT (envelope_of (client_loop_msg R)) q3
                  in (None, s\<lparr>rt_actions := q4\<rparr>)
         else (None, s))"

definition system_run ::
  "nat \<Rightarrow> ('a, 'm, 'qe, 'qa) world \<Rightarrow> ('a, 'm) remote_actors \<Rightarrow> config \<Rightarrow> instant \<Rightarrow> 'qe \<Rightarrow> 'qa \<Rightarrow>
   error option \<times> ('a, 'm, 'qe, 'qa) runtime_state option"
where
  "system_run pool_size W R c now events actions =
     (if pool_size < total_threads_required (cfg_scheduler c)
      then (Some (ThreadPoolTooSmall (total_threads_required (cfg_scheduler c)) pool_size), None)
      else let (e, s) = runtime_start W R c now events actions in (e, Some s))"

section \<open>Moves of the threads\<close>

definition receive_action ::
  "(('a, 'm) action, 'qa) chan \<Rightarrow> 'qa \<Rightarrow> ('a, 'm) action option \<times> 'qa"
where
  "receive_action C q = (case chan_recv C q of None \<Rightarrow> (None, q) | Some (act, q') \<Rightarrow> (Some act, q'))"

definition accepts_spawn :: "('a, 'm) event_loop \<Rightarrow> ('a, 'm) action option \<Rightarrow> tag \<Rightarrow> nat" where
  "accepts_spawn l received tag =
     (case received of Some (Act_Spawn t actor) \<Rightarrow> if t = tag \<and> tag \<notin> active l then 1 else 0 | _ \<Rightarrow> 0)"

definition after_iteration ::
  "('a, 'm, 'qe, 'qa) world \<Rightarrow> ('a, 'm) action option \<Rightarrow> 'qa \<Rightarrow> ('a, 'm) event_loop \<Rightarrow> ('a, 'm) sent \<Rightarrow>
   bool \<Rightarrow> ('a, 'm, 'qe, 'qa) runtime_state \<Rightarrow> ('a, 'm, 'qe, 'qa) runtime_state"
where
  "after_iteration W received actions l out go s =
     s\<lparr>rt_loop := l,
       rt_events := fold (chan_send (w_event_chan W)) (to_workers out) (rt_events s),
       rt_actions := fold (chan_send (w_action_chan W)) (to_self out) actions,
       rt_phase := if go then Running else Closing (length (rt_workers s)),
       rt_spawned := (\<lambda>tag. rt_spawned s tag + accepts_spawn (rt_loop s) received tag)\<rparr>"

inductive rt_step ::
  "('a, 'm, 'qe, 'qa) world \<Rightarrow> ('a, 'm, 'qe, 'qa) runtime_state \<Rightarrow> ('a, 'm, 'qe, 'qa) runtime_state \<Rightarrow> bool"
for W where
  iterate:
    "rt_phase s = Running \<Longrightarrow> w_clock W rd \<Longrightarrow>
     receive_action (w_action_chan W) (rt_actions s) = (received, actions) \<Longrightarrow>
     event_loop_step (some_worker s) (w_name W) (w_host W) received rd (rt_loop s) = Ret (l, out, go) \<Longrightarrow>
     rt_step W s (after_iteration W received actions l out go s)"
| loop_panics:
    "rt_phase s = Running \<Longrightarrow> w_clock W rd \<Longrightarrow>
     receive_action (w_action_chan W) (rt_actions s) = (received, actions) \<Longrightarrow>
     event_loop_step (some_worker s) (w_name W) (w_host W) received rd (rt_loop s) = Panic \<Longrightarrow>
     rt_step W s (s\<lparr>rt_phase := Crashed\<rparr>)"
| tell_shutdown:
    "rt_phase s = Closing (Suc k) \<Longrightarrow>
     rt_step W s (if some_worker s
                  then s\<lparr>rt_phase := Closing k,
                         rt_events := chan_send (w_event_chan W) Ev_Shutdown (rt_events s)\<rparr>
                  else s\<lparr>rt_phase := Crashed\<rparr>)"
| all_told: "rt_phase s = Closing 0 \<Longrightarrow> rt_step W s (s\<lparr>rt_phase := Draining\<rparr>)"
| drain:
    "rt_phase s = Draining \<Longrightarrow> chan_recv (w_action_chan W) (rt_actions s) = Some (act, actions) \<Longrightarrow>
     rt_step W s (s\<lparr>rt_actions := actions\<rparr>)"
| drained:
    "rt_phase s = Draining \<Longrightarrow> chan_recv (w_action_chan W) (rt_actions s) = None \<Longrightarrow>
     \<not> some_worker s \<Longrightarrow> \<not> rt_handle s \<Longrightarrow> rt_step W s (s\<lparr>rt_phase := Finished\<rparr>)"
| take_event:
    "i < length (rt_workers s) \<Longrightarrow> rt_workers s ! i = Waiting l \<Longrightarrow>
     chan_recv (w_event_chan W) (rt_events s) = Some (ev, events) \<Longrightarrow>
     worker_turn (w_behaviour W) ev (l\<lparr>local_tx := []\<rparr>) = (l', status) \<Longrightarrow>
     rt_step W s (s\<lparr>rt_events := events,
                    rt_workers := (rt_workers s)[i := Sending (local_tx l') (l'\<lparr>local_tx := []\<rparr>) status]\<rparr>)"
| send_next:
    "i < length (rt_workers s) \<Longrightarrow> rt_workers s ! i = Sending (act # acts) l status \<Longrightarrow>
     listening_phase (rt_phase s) \<Longrightarrow>
     rt_step W s (s\<lparr>rt_actions := chan_send (w_action_chan W) act (rt_actions s),
                    rt_workers := (rt_workers s)[i := Sending acts l status]\<rparr>)"
| send_fails:
    "i < length (rt_workers s) \<Longrightarrow> rt_workers s ! i = Sending (act # acts) l status \<Longrightarrow>
     \<not> listening_phase (rt_phase s) \<Longrightarrow>
     rt_step W s (s\<lparr>rt_workers := (rt_workers s)[i := Gone]\<rparr>)"
| turn_over:
    "i < length (rt_workers s) \<Longrightarrow> rt_workers s ! i = Sending [] l status \<Longrightarrow>
     rt_step W s (s\<lparr>rt_workers := (rt_workers s)[i := if status = Looping then Waiting l else Gone]\<rparr>)"
| disconnected:
    "i < length (rt_workers s) \<Longrightarrow> rt_workers s ! i = Waiting l \<Longrightarrow>
     chan_recv (w_event_chan W) (rt_events s) = None \<Longrightarrow> \<not> listening_phase (rt_phase s) \<Longrightarrow>
     rt_step W s (s\<lparr>rt_workers := (rt_workers s)[i := Gone]\<rparr>)"

text \<open>What the holder of \<open>Run\<close> may do; a send to a scheduler thread that is gone panics there.\<close>

inductive client_step ::
  "('a, 'm, 'qe, 'qa) world \<Rightarrow> ('a, 'm, 'qe, 'qa) runtime_state \<Rightarrow> ('a, 'm, 'qe, 'qa) runtime_state \<Rightarrow> bool"
for W where
  send: "rt_handle s \<Longrightarrow> listening_phase (rt_phase s) \<Longrightarrow>
    client_step W s (s\<lparr>rt_actions := run_send (w_action_chan W) address envelope (rt_actions s)\<rparr>)"
| spawn: "rt_handle s \<Longrightarrow> listening_phase (rt_phase s) \<Longrightarrow>
    client_step W s (s\<lparr>rt_actions := run_spawn (w_action_chan W) address actor (rt_actions s)\<rparr>)"
| spawn_default: "rt_handle s \<Longrightarrow> listening_phase (rt_phase s) \<Longrightarrow>
    client_step W s (s\<lparr>rt_actions := run_spawn_default (w_action_chan W) actor address (rt_actions s)\<rparr>)"
| delay: "rt_handle s \<Longrightarrow> listening_phase (rt_phase s) \<Longrightarrow>
    client_step W s (s\<lparr>rt_actions := run_delay (w_action_chan W) now address envelope d (rt_actions s)\<rparr>)"
| stop: "rt_handle s \<Longrightarrow> listening_phase (rt_phase s) \<Longrightarrow>
    client_step W s (s\<lparr>rt_actions := run_stop (w_action_chan W) address (rt_actions s)\<rparr>)"
| shutdown: "rt_handle s \<Longrightarrow> listening_phase (rt_phase s) \<Longrightarrow>
    client_step W s (s\<lparr>rt_actions := run_shutdown (w_action_chan W) (rt_actions s), rt_handle := False\<rparr>)"
| drop_handle: "rt_handle s \<Longrightarrow> client_step W s (s\<lparr>rt_handle := False\<rparr>)"

definition system_step ::
  "('a, 'm, 'qe, 'qa) world \<Rightarrow> ('a, 'm, 'qe, 'qa) runtime_state \<Rightarrow> ('a, 'm, 'qe, 'qa) runtime_state \<Rightarrow> bool"
where
  "system_step W s t \<longleftrightarrow> rt_step W s t \<or> client_step W s t"

end
