(* ===== verification/Runtime_Inv.thy ===== *)
theory Runtime_Inv
  imports Runtime
begin

text \<open>
  Two invariants of the running system, over all interleavings of its threads and of the calls
  on \<open>Run\<close>. \<open>sound\<close>: the scheduler is well formed and the actors of a tag that are somewhere in
  the system (at rest, on their way to a worker, with a worker, on their way back) are at most
  as many as its accepted spawns. \<open>attended\<close>, where no \<open>on_fail\<close> and no \<open>on_stop\<close>
  panics: no thread crashes, every worker that is alive will be told to leave exactly once, and
  every active tag has an actor somewhere. Both are proved move by move and read off the
  reachable states through the locale \<open>invariant_of\<close>.
\<close>

section \<open>Where the actors are\<close>

definition in_cell :: "('a, 'm) cell \<Rightarrow> nat" where
  "in_cell c = (case c of Idle actor \<Rightarrow> 1 | _ \<Rightarrow> 0)"

definition in_event :: "tag \<Rightarrow> ('a, 'm) event \<Rightarrow> bool" where
  "in_event tag ev = (case ev of Ev_Mail t actor e \<Rightarrow> t = tag | Ev_Stop t actor \<Rightarrow> False | Ev_Shutdown \<Rightarrow> False)"

primrec in_worker :: "tag \<Rightarrow> ('a, 'm) worker \<Rightarrow> nat" where
  "in_worker tag (Waiting l) = 0"
| "in_worker tag (Sending acts l status) = length (filter (is_return tag) acts)"
| "in_worker tag Gone = 0"

definition flying :: "(tag \<Rightarrow> ('a, 'm) event list \<Rightarrow> ('a, 'm) worker list \<Rightarrow> ('a, 'm) action list \<Rightarrow> nat)" where
  "flying tag events workers actions =
     length (filter (in_event tag) events) + sum_list (map (in_worker tag) workers)
     + length (filter (is_return tag) actions)"

definition objects ::
  "('qe \<Rightarrow> ('a, 'm) event list) \<Rightarrow> ('qa \<Rightarrow> ('a, 'm) action list) \<Rightarrow> tag \<Rightarrow>
   ('a, 'm, 'qe, 'qa) runtime_state \<Rightarrow> nat"
where
  "objects ce ca tag s =
     in_cell (cell_of (rt_loop s) tag) + flying tag (ce (rt_events s)) (rt_workers s) (ca (rt_actions s))"

lemma flying_worker:
  "i < length ws \<Longrightarrow>
   flying tag evs (ws[i := w]) acts + in_worker tag (ws ! i) = flying tag evs ws acts + in_worker tag w"
  using sum_list_map_update [of i ws "in_worker tag" w] by (simp add: flying_def)

lemma flying_event: "flying tag (ev # evs) ws acts = flying tag evs ws acts + (if in_event tag ev then 1 else 0)"
  by (simp add: flying_def)

lemma flying_events: "flying tag (evs @ evs') ws acts = flying tag evs ws acts + length (filter (in_event tag) evs')"
  by (simp add: flying_def)

lemma flying_action: "flying tag evs ws (act # acts) = flying tag evs ws acts + (if is_return tag act then 1 else 0)"
  by (simp add: flying_def)

lemma flying_actions: "flying tag evs ws (acts @ acts') = flying tag evs ws acts + length (filter (is_return tag) acts')"
  by (simp add: flying_def)

lemmas flying_simps = flying_event flying_events flying_action flying_actions

section \<open>One iteration of the event loop\<close>

text \<open>What an action does to the actors of a tag: those at rest, those sent out, those new.\<close>

definition spawned_by :: "tag \<Rightarrow> ('a, 'm) action \<Rightarrow> ('a, 'm) cell \<Rightarrow> nat" where
  "spawned_by tag act c = (case act of Act_Spawn t actor \<Rightarrow> if t = tag \<and> c = Absent then 1 else 0 | _ \<Rightarrow> 0)"

lemma cell_step_objects:
  assumes "action_tag act = Some tag"
  shows "in_cell (fst (cell_step tag act c)) + length (filter (in_event tag) (snd (cell_step tag act c)))
    \<le> in_cell c + (if is_return tag act then 1 else 0) + spawned_by tag act c"
    and "fst (cell_step tag act c) \<noteq> Absent \<Longrightarrow>
      1 \<le> in_cell (fst (cell_step tag act c)) + length (filter (in_event tag) (snd (cell_step tag act c))) \<or>
      c \<noteq> Absent \<and> \<not> is_return tag act \<and>
      in_cell c \<le> in_cell (fst (cell_step tag act c)) + length (filter (in_event tag) (snd (cell_step tag act c)))"
  using assms
  by (cases "(tag, act, c)" rule: cell_step.cases;
      auto simp: in_cell_def in_event_def is_return_def spawned_by_def)+

lemma no_tag_no_return: "action_tag act \<noteq> Some tag \<Longrightarrow> \<not> is_return tag act \<and> spawned_by tag act c = 0"
  by (cases act) (auto simp: is_return_def spawned_by_def)

lemma cell_step_other_tag:
  "t \<noteq> tag \<Longrightarrow> filter (in_event tag) (snd (cell_step t act c)) = []"
  by (cases "(t, act, c)" rule: cell_step.cases) (auto simp: in_event_def)

lemma cells_step_objects:
  fixes f :: "tag \<Rightarrow> ('a, 'm) cell"
  defines "r \<equiv> \<lambda>act. cells_step act f"
  shows "in_cell (fst (r act) tag) + length (filter (in_event tag) (snd (r act)))
      \<le> in_cell (f tag) + (if is_return tag act then 1 else 0) + spawned_by tag act (f tag) \<and>
    (fst (r act) tag \<noteq> Absent \<longrightarrow>
      1 \<le> in_cell (fst (r act) tag) + length (filter (in_event tag) (snd (r act))) \<or>
      f tag \<noteq> Absent \<and> \<not> is_return tag act \<and>
      in_cell (f tag) \<le> in_cell (fst (r act) tag) + length (filter (in_event tag) (snd (r act))))"
proof (cases "action_tag act = Some tag")
  case True
  then show ?thesis
    using cell_step_objects [OF True, of "f tag"] by (simp add: r_def cells_step_def)
next
  case False
  then have "fst (r act) tag = f tag" "filter (in_event tag) (snd (r act)) = []"
    using cell_step_other_tag [of _ tag act] by (auto simp: r_def cells_step_def split: option.splits)
  with no_tag_no_return [OF False] show ?thesis by simp
qed

lemma cell_of_Absent_iff: "cell_of s tag = Absent \<longleftrightarrow> tag \<notin> active s"
  by (cases "(tag \<in> active s, actors s tag, queue s tag)" rule: cell_at.cases) (auto simp: cell_of_def)

text \<open>The timer loop sends mail only.\<close>

lemma step_to_self_no_return:
  assumes "event_loop_step alive name host received rd s = Ret (s', out, go)"
  shows "filter (is_return tag) (to_self out) = []"
proof -
  have timers: "filter (is_return tag) (snd (timer_phase rd s1)) = []" for s1 :: "('a, 'b) event_loop"
    by (simp add: timer_phase_def Let_def split_beta filter_empty_conv is_return_def)
  from assms show ?thesis
    by (cases rule: event_loop_step_Ret) (auto elim!: loop_tail_Ret simp: timers nothing_sent_def)
qed

definition given_back :: "tag \<Rightarrow> ('a, 'm) action option \<Rightarrow> nat" where
  "given_back tag received =
     (case received of None \<Rightarrow> 0 | Some act \<Rightarrow> if is_return tag act then 1 else 0)"

lemma iteration_objects:
  assumes ok: "loop_ok s" and step: "event_loop_step alive name host received rd s = Ret (s', out, go)"
  shows "in_cell (cell_of s' tag) + length (filter (in_event tag) (to_workers out))
      \<le> in_cell (cell_of s tag) + given_back tag received + accepts_spawn s received tag \<and>
    (tag \<in> active s' \<longrightarrow>
      1 \<le> in_cell (cell_of s' tag) + length (filter (in_event tag) (to_workers out)) \<or>
      tag \<in> active s \<and> given_back tag received = 0 \<and>
      in_cell (cell_of s tag) \<le> in_cell (cell_of s' tag) + length (filter (in_event tag) (to_workers out)))"
proof (cases received)
  case None
  with event_loop_step_refines [OF ok step] have "cell_of s' = cell_of s" "to_workers out = []" by simp_all
  then show ?thesis
    using None cell_of_Absent_iff [of s tag] cell_of_Absent_iff [of s' tag] by (simp add: given_back_def)
next
  case (Some act)
  with event_loop_step_refines [OF ok step] have cells: "cell_of s' = fst (cells_step act (cell_of s))"
    "to_workers out = snd (cells_step act (cell_of s))" by (simp_all add: prod_eq_iff)
  have "spawned_by tag act (cell_of s tag) = accepts_spawn s received tag"
    using Some by (auto simp: spawned_by_def accepts_spawn_def cell_of_Absent_iff split: action.splits)
  then show ?thesis
    using cells_step_objects [of act "cell_of s" tag] cells Some
      cell_of_Absent_iff [of s tag] cell_of_Absent_iff [of s' tag]
    by (cases "is_return tag act") (simp_all add: given_back_def)
qed

section \<open>The contract of the channels\<close>

definition channels_ok ::
  "('a, 'm, 'qe, 'qa) world \<Rightarrow> ('qe \<Rightarrow> ('a, 'm) event list) \<Rightarrow> ('qa \<Rightarrow> ('a, 'm) action list) \<Rightarrow> bool"
where
  "channels_ok W ce ca \<longleftrightarrow>
     unbounded_channel (w_event_chan W) ce \<and> unbounded_channel (w_action_chan W) ca"

lemma channels_send:
  assumes "channels_ok W ce ca"
  shows "ce (chan_send (w_event_chan W) ev qe) = ce qe @ [ev]"
    and "ce (fold (chan_send (w_event_chan W)) evs qe) = ce qe @ evs"
    and "ca (chan_send (w_action_chan W) act qa) = ca qa @ [act]"
    and "ca (fold (chan_send (w_action_chan W)) acts qa) = ca qa @ acts"
  using assms unfolding channels_ok_def
  by (simp_all add: unbounded_channel.content_send unbounded_channel.content_sends)

lemma channels_recv_None:
  assumes "channels_ok W ce ca"
  shows "chan_recv (w_event_chan W) qe = None \<longleftrightarrow> ce qe = []"
    and "chan_recv (w_action_chan W) qa = None \<longleftrightarrow> ca qa = []"
  using assms unfolding channels_ok_def by (simp_all add: unbounded_channel.recv_None)

lemma channels_recv_Some:
  assumes "channels_ok W ce ca"
  shows "chan_recv (w_event_chan W) qe = Some (ev, qe') \<Longrightarrow> ce qe = ev # ce qe'"
    and "chan_recv (w_action_chan W) qa = Some (act, qa') \<Longrightarrow> ca qa = act # ca qa'"
  using assms unfolding channels_ok_def by (auto dest: unbounded_channel.recv_Some)

lemma receive_action_content:
  assumes "channels_ok W ce ca" "receive_action (w_action_chan W) qa = (received, qa')"
  shows "ca qa = (case received of None \<Rightarrow> [] | Some act \<Rightarrow> [act]) @ ca qa'"
  using assms(2) channels_recv_None(2) [OF assms(1), of qa] channels_recv_Some(2) [OF assms(1), of qa]
  by (auto simp: receive_action_def split: option.splits)

section \<open>The first invariant\<close>

definition sound ::
  "('qe \<Rightarrow> ('a, 'm) event list) \<Rightarrow> ('qa \<Rightarrow> ('a, 'm) action list) \<Rightarrow>
   ('a, 'm, 'qe, 'qa) runtime_state \<Rightarrow> bool"
where
  "sound ce ca s \<longleftrightarrow> loop_ok (rt_loop s) \<and> (\<forall>tag. objects ce ca tag s \<le> rt_spawned s tag)"

lemma sound_mono:
  assumes "sound ce ca s" "rt_loop t = rt_loop s" "rt_spawned t = rt_spawned s"
    "\<And>tag. flying tag (ce (rt_events t)) (rt_workers t) (ca (rt_actions t))
       \<le> flying tag (ce (rt_events s)) (rt_workers s) (ca (rt_actions s))"
  shows "sound ce ca t"
  unfolding sound_def
proof (intro conjI allI)
  show "loop_ok (rt_loop t)" using assms(1,2) by (simp add: sound_def)
  fix tag
  have "objects ce ca tag s \<le> rt_spawned s tag" using assms(1) by (simp add: sound_def)
  with assms(2,3) assms(4) [of tag] show "objects ce ca tag t \<le> rt_spawned t tag"
    by (simp add: objects_def)
qed

lemma worker_turn_objects:
  assumes "worker_turn B ev (l\<lparr>local_tx := []\<rparr>) = (l', status)"
  shows "length (filter (is_return tag) (local_tx l')) \<le> (if in_event tag ev then 1 else 0)"
  using worker_turn_returns [OF assms, of tag] by (cases ev) (auto simp: in_event_def)

lemma iterate_sound:
  assumes ch: "channels_ok W ce ca" and s: "sound ce ca s"
    and recv: "receive_action (w_action_chan W) (rt_actions s) = (received, actions)"
    and step: "event_loop_step alive name host received rd (rt_loop s) = Ret (l, out, go)"
  shows "sound ce ca (after_iteration W received actions l out go s)"
  unfolding sound_def
proof (intro conjI allI)
  have ok: "loop_ok (rt_loop s)" using s by (simp add: sound_def)
  show "loop_ok (rt_loop (after_iteration W received actions l out go s))"
    using event_loop_step_keeps [OF ok step] by (simp add: after_iteration_def)
  fix tag
  have "objects ce ca tag s \<le> rt_spawned s tag" using s by (simp add: sound_def)
  moreover have "flying tag (ce (rt_events s)) (rt_workers s) (ca (rt_actions s)) =
    flying tag (ce (rt_events s)) (rt_workers s) (ca actions) + given_back tag received"
    using receive_action_content [OF ch recv] by (auto simp: flying_def given_back_def split: option.splits)
  ultimately show "objects ce ca tag (after_iteration W received actions l out go s)
    \<le> rt_spawned (after_iteration W received actions l out go s) tag"
    using iteration_objects [OF ok step, of tag] step_to_self_no_return [OF step, of tag]
    by (simp add: objects_def after_iteration_def channels_send [OF ch] flying_simps)
qed

lemma rt_step_sound:
  assumes ch: "channels_ok W ce ca" and "rt_step W s t" "sound ce ca s"
  shows "sound ce ca t"
  using assms(2)
proof cases
  case (iterate rd received actions l out go)
  then show ?thesis using iterate_sound [OF ch assms(3)] by blast
next
  case (take_event i l ev events l' status)
  have "flying tag (ce events) ((rt_workers s)[i := Sending (local_tx l') (l'\<lparr>local_tx := []\<rparr>) status])
      (ca (rt_actions s)) \<le> flying tag (ce (rt_events s)) (rt_workers s) (ca (rt_actions s))" for tag
    using flying_worker [OF take_event(2), of tag "ce events"] worker_turn_objects [OF take_event(5), of tag]
      take_event(3) channels_recv_Some(1) [OF ch take_event(4)]
    by (simp add: flying_event)
  with take_event show ?thesis by (intro sound_mono [OF assms(3)]) simp_all
next
  case (send_next i act acts l status)
  have "flying tag (ce (rt_events s)) ((rt_workers s)[i := Sending acts l status])
      (ca (chan_send (w_action_chan W) act (rt_actions s)))
    \<le> flying tag (ce (rt_events s)) (rt_workers s) (ca (rt_actions s))" for tag
    using flying_worker [OF send_next(2), of tag "ce (rt_events s)" "Sending acts l status" "ca (rt_actions s)"]
      send_next(3) by (simp add: channels_send [OF ch] flying_actions split: if_splits)
  with send_next show ?thesis by (intro sound_mono [OF assms(3)]) simp_all
next
  case (send_fails i act acts l status)
  have "flying tag (ce (rt_events s)) ((rt_workers s)[i := Gone]) (ca (rt_actions s))
    \<le> flying tag (ce (rt_events s)) (rt_workers s) (ca (rt_actions s))" for tag
    using flying_worker [OF send_fails(2), of tag "ce (rt_events s)" Gone "ca (rt_actions s)"] by simp
  with send_fails show ?thesis by (intro sound_mono [OF assms(3)]) simp_all
next
  case (turn_over i l status)
  let ?w = "if status = Looping then Waiting l else Gone"
  have "flying tag (ce (rt_events s)) ((rt_workers s)[i := ?w]) (ca (rt_actions s))
    \<le> flying tag (ce (rt_events s)) (rt_workers s) (ca (rt_actions s))" for tag
    using flying_worker [OF turn_over(2), of tag "ce (rt_events s)" ?w "ca (rt_actions s)"]
    by (simp split: if_splits)
  with turn_over show ?thesis by (intro sound_mono [OF assms(3)]) simp_all
next
  case (disconnected i l)
  have "flying tag (ce (rt_events s)) ((rt_workers s)[i := Gone]) (ca (rt_actions s))
    \<le> flying tag (ce (rt_events s)) (rt_workers s) (ca (rt_actions s))" for tag
    using flying_worker [OF disconnected(2), of tag "ce (rt_events s)" Gone "ca (rt_actions s)"] by simp
  with disconnected show ?thesis by (intro sound_mono [OF assms(3)]) simp_all
next
  case (drain act actions)
  with channels_recv_Some(2) [OF ch drain(3)] show ?thesis
    by (intro sound_mono [OF assms(3)]) (simp_all add: flying_action)
qed (intro sound_mono [OF assms(3)]; simp add: channels_send [OF ch] flying_events in_event_def)+

lemma client_step_sound:
  assumes ch: "channels_ok W ce ca" and "client_step W s t" "sound ce ca s"
  shows "sound ce ca t"
  using assms(2)
  by cases (intro sound_mono [OF assms(3)];
    simp add: run_defs split_beta channels_send [OF ch] flying_actions is_return_def)+

section \<open>The second invariant\<close>

text \<open>The farewell methods of the actors return, and the clock is past the Unix epoch.\<close>

definition steady :: "('a, 'm, 'qe, 'qa) world \<Rightarrow> bool" where
  "steady W \<longleftrightarrow>
     (\<forall>tag actor. snd (on_fail (w_behaviour W) tag actor) \<and> snd (on_stop (w_behaviour W) tag actor)) \<and>
     (\<forall>rd. w_clock W rd \<longrightarrow> 0 \<le> rd_system rd)"

text \<open>The workers that will still look for an event, and the shutdowns that are still to come.\<close>

primrec live :: "('a, 'm) worker \<Rightarrow> nat" where
  "live (Waiting l) = 1"
| "live (Sending acts l status) = (if status = Looping then 1 else 0)"
| "live Gone = 0"

definition is_shutdown :: "('a, 'm) event \<Rightarrow> bool" where
  "is_shutdown ev = (case ev of Ev_Shutdown \<Rightarrow> True | _ \<Rightarrow> False)"

definition untold :: "('a, 'm, 'qe, 'qa) runtime_state \<Rightarrow> nat" where
  "untold s = (case rt_phase s of Running \<Rightarrow> length (rt_workers s) | Closing k \<Rightarrow> k | _ \<Rightarrow> 0)"

definition attended ::
  "('qe \<Rightarrow> ('a, 'm) event list) \<Rightarrow> ('qa \<Rightarrow> ('a, 'm) action list) \<Rightarrow>
   ('a, 'm, 'qe, 'qa) runtime_state \<Rightarrow> bool"
where
  "attended ce ca s \<longleftrightarrow>
     rt_phase s \<noteq> Crashed \<and> rt_workers s \<noteq> [] \<and> (rt_phase s = Finished \<longrightarrow> \<not> some_worker s) \<and>
     sum_list (map live (rt_workers s)) = untold s + length (filter is_shutdown (ce (rt_events s))) \<and>
     (rt_phase s = Running \<longrightarrow> (\<forall>tag \<in> active (rt_loop s). 1 \<le> objects ce ca tag s))"

lemma live_le: "sum_list (map live ws) \<le> length ws"
proof (induction ws)
  case (Cons w ws)
  then show ?case by (cases w) auto
qed simp

lemma live_some: "sum_list (map live (rt_workers s)) \<noteq> 0 \<Longrightarrow> some_worker s"
proof (rule ccontr)
  assume "sum_list (map live (rt_workers s)) \<noteq> 0" "\<not> some_worker s"
  then have "w = Gone" if "w \<in> set (rt_workers s)" for w using that by (simp add: some_worker_def)
  then have "sum_list (map live (rt_workers s)) = 0" by (fastforce simp: sum_list_eq_0_iff)
  with \<open>sum_list (map live (rt_workers s)) \<noteq> 0\<close> show False ..
qed

lemma busy_some: "i < length (rt_workers s) \<Longrightarrow> rt_workers s ! i \<noteq> Gone \<Longrightarrow> some_worker s"
  unfolding some_worker_def using nth_mem by blast

lemma attended_busy:
  assumes "attended ce ca s" "i < length (rt_workers s)" "rt_workers s ! i \<noteq> Gone"
  shows "listening_phase (rt_phase s)"
  using assms busy_some [OF assms(2,3)] by (auto simp: attended_def listening_phase_def)

lemma steady_turn:
  assumes "steady W" "worker_turn (w_behaviour W) ev (l\<lparr>local_tx := []\<rparr>) = (l', status)"
  shows "(status = Looping) = (\<not> is_shutdown ev)"
    and "length (filter (is_return tag) (local_tx l')) = (if in_event tag ev then 1 else 0)"
proof -
  have "(status = Looping) = (\<not> is_shutdown ev) \<and>
    length (filter (is_return tag) (local_tx l')) = (if in_event tag ev then 1 else 0)"
  proof (cases ev)
    case (Ev_Mail t actor e)
    obtain calls actor' ok calls' ok' where
      r: "receive (w_behaviour W) t e actor = (calls, actor', ok)"
      and f: "on_fail (w_behaviour W) t actor' = (calls', ok')"
      by (metis surj_pair)
    have ok': "ok'" using assms(1) f unfolding steady_def by (metis snd_conv)
    have turn: "worker_mail (w_behaviour W) t actor e (l\<lparr>local_tx := []\<rparr>) = (l', status)"
      using assms(2) Ev_Mail by simp
    from worker_mail_tx [OF r f turn] ok' obtain books where "status = Looping" "\<forall>act \<in> set books. is_book act"
      "local_tx l' = concat (map call_actions calls)
           @ (if ok then [] else concat (map call_actions calls')) @ [Act_Return t actor' ok] @ books"
      by auto
    with Ev_Mail books_no_return [of books tag] call_actions_no_return [of tag calls]
      call_actions_no_return [of tag calls'] show ?thesis
      by (auto simp: is_shutdown_def in_event_def is_return_def)
  next
    case (Ev_Stop t actor)
    obtain calls ok where c: "on_stop (w_behaviour W) t actor = (calls, ok)" by fastforce
    then have ok using assms(1) unfolding steady_def by (metis snd_conv)
    with c assms(2) Ev_Stop have "status = Looping" by (auto simp: worker_stop_def)
    then show ?thesis
      using worker_turn_objects [OF assms(2), of tag] Ev_Stop by (simp add: is_shutdown_def in_event_def)
  next
    case Ev_Shutdown
    then show ?thesis using assms(2) by (auto simp: is_shutdown_def in_event_def)
  qed
  then show "(status = Looping) = (\<not> is_shutdown ev)"
    "length (filter (is_return tag) (local_tx l')) = (if in_event tag ev then 1 else 0)" by blast+
qed

lemma cell_step_no_shutdown: "filter is_shutdown (snd (cell_step tag act c)) = []"
  by (cases "(tag, act, c)" rule: cell_step.cases) (auto simp: is_shutdown_def)

lemma cells_step_no_shutdown: "filter is_shutdown (snd (cells_step act f)) = []"
  by (simp add: cells_step_def cell_step_no_shutdown split: option.split)

lemma step_no_shutdown:
  assumes "loop_ok s" "event_loop_step alive name host received rd s = Ret (s', out, go)"
  shows "filter is_shutdown (to_workers out) = []"
  using event_loop_step_refines [OF assms] cells_step_no_shutdown
  by (auto simp: prod_eq_iff split: option.splits)

text \<open>Moves that leave the event loop and the phase alone.\<close>

lemma attended_frame:
  assumes "attended ce ca s" "rt_loop t = rt_loop s" "rt_phase t = rt_phase s" "listening_phase (rt_phase s)"
    "length (rt_workers t) = length (rt_workers s)"
    "sum_list (map live (rt_workers t)) + length (filter is_shutdown (ce (rt_events s))) =
     sum_list (map live (rt_workers s)) + length (filter is_shutdown (ce (rt_events t)))"
    "\<And>tag. rt_phase s = Running \<Longrightarrow>
       flying tag (ce (rt_events s)) (rt_workers s) (ca (rt_actions s))
       \<le> flying tag (ce (rt_events t)) (rt_workers t) (ca (rt_actions t))"
  shows "attended ce ca t"
  unfolding attended_def
proof (intro conjI impI ballI)
  show "rt_phase t \<noteq> Crashed" "rt_workers t \<noteq> []"
    using assms(1,3,5) by (auto simp: attended_def)
  show "\<not> some_worker t" if "rt_phase t = Finished"
    using that assms(3,4) by (simp add: listening_phase_def)
  show "sum_list (map live (rt_workers t)) = untold t + length (filter is_shutdown (ce (rt_events t)))"
    using assms(1,3,5,6) by (simp add: attended_def untold_def split: phase.splits)
  fix tag
  assume "rt_phase t = Running" "tag \<in> active (rt_loop t)"
  then have "1 \<le> objects ce ca tag s" "rt_phase s = Running" using assms(1,2,3) by (auto simp: attended_def)
  with assms(2) assms(7) [of tag] show "1 \<le> objects ce ca tag t" by (simp add: objects_def)
qed

lemma live_worker:
  "i < length ws \<Longrightarrow> sum_list (map live (ws[i := w])) + live (ws ! i) = sum_list (map live ws) + live w"
  by (rule sum_list_map_update)

lemma iterate_attended:
  assumes ch: "channels_ok W ce ca" and s: "sound ce ca s" "attended ce ca s" "rt_phase s = Running"
    and recv: "receive_action (w_action_chan W) (rt_actions s) = (received, actions)"
    and step: "event_loop_step alive name host received rd (rt_loop s) = Ret (l, out, go)"
  shows "attended ce ca (after_iteration W received actions l out go s)"
  unfolding attended_def
proof (intro conjI impI ballI)
  let ?t = "after_iteration W received actions l out go s"
  have ok: "loop_ok (rt_loop s)" using s by (simp add: sound_def)
  show "rt_phase ?t \<noteq> Crashed" "rt_workers ?t \<noteq> []"
    using s by (auto simp: attended_def after_iteration_def)
  show "\<not> some_worker ?t" if "rt_phase ?t = Finished"
    using that by (simp add: after_iteration_def split: if_splits)
  show "sum_list (map live (rt_workers ?t)) = untold ?t + length (filter is_shutdown (ce (rt_events ?t)))"
    using s step_no_shutdown [OF ok step]
    by (simp add: attended_def after_iteration_def untold_def channels_send [OF ch])
  fix tag
  assume "tag \<in> active (rt_loop ?t)"
  then have "tag \<in> active l" by (simp add: after_iteration_def)
  moreover have "flying tag (ce (rt_events s)) (rt_workers s) (ca (rt_actions s)) =
    flying tag (ce (rt_events s)) (rt_workers s) (ca actions) + given_back tag received"
    using receive_action_content [OF ch recv] by (auto simp: flying_def given_back_def split: option.splits)
  moreover have "1 \<le> objects ce ca tag s" if "tag \<in> active (rt_loop s)"
    using that s by (simp add: attended_def)
  ultimately show "1 \<le> objects ce ca tag ?t"
    using iteration_objects [OF ok step, of tag] step_to_self_no_return [OF step, of tag]
    by (auto simp: objects_def after_iteration_def channels_send [OF ch] flying_simps)
qed

lemma rt_step_attended:
  assumes ch: "channels_ok W ce ca" and W: "steady W"
    and "rt_step W s t" and s: "sound ce ca s" "attended ce ca s"
  shows "attended ce ca t"
  using assms(3)
proof cases
  case (iterate rd received actions l out go)
  then show ?thesis using iterate_attended [OF ch s] by blast
next
  case (loop_panics rd received actions)
  have "sum_list (map live (rt_workers s)) \<noteq> 0"
    using s(2) loop_panics(2) by (simp add: attended_def untold_def)
  then have "some_worker s" by (rule live_some)
  moreover have "0 \<le> rd_system rd" using W loop_panics by (simp add: steady_def)
  ultimately have False
    using event_loop_step_total [of "rt_loop s" rd "w_name W" "w_host W" received] loop_panics s(1)
    by (auto simp: sound_def)
  then show ?thesis ..
next
  case (tell_shutdown k)
  have "sum_list (map live (rt_workers s)) = Suc k + length (filter is_shutdown (ce (rt_events s)))"
    using s(2) tell_shutdown(2) by (simp add: attended_def untold_def)
  then show ?thesis
    using tell_shutdown s(2) live_some [of s]
    by (simp add: attended_def untold_def channels_send [OF ch] is_shutdown_def)
next
  case all_told
  then show ?thesis using s(2) by (simp add: attended_def untold_def)
next
  case (drain act actions)
  then show ?thesis using s(2) by (simp add: attended_def untold_def)
next
  case drained
  then show ?thesis using s(2) by (simp add: attended_def untold_def some_worker_def)
next
  case (take_event i l ev events l' status)
  note turn = steady_turn [OF W take_event(5)]
  let ?w = "Sending (local_tx l') (l'\<lparr>local_tx := []\<rparr>) status"
  show ?thesis
    using flying_worker [OF take_event(2), of _ "ce events" ?w] live_worker [OF take_event(2), of ?w]
      take_event(1,3) channels_recv_Some(1) [OF ch take_event(4)] turn attended_busy [OF s(2) take_event(2)]
    by (intro attended_frame [OF s(2)]) (simp_all add: flying_event split: if_splits)
next
  case (send_next i act acts l status)
  have "flying tag (ce (rt_events s)) (rt_workers s) (ca (rt_actions s))
    \<le> flying tag (ce (rt_events s)) ((rt_workers s)[i := Sending acts l status])
        (ca (chan_send (w_action_chan W) act (rt_actions s)))" for tag
    using flying_worker [OF send_next(2), of tag "ce (rt_events s)" "Sending acts l status" "ca (rt_actions s)"]
      send_next(3) by (cases "is_return tag act") (simp_all add: channels_send [OF ch] flying_actions)
  with live_worker [OF send_next(2), of "Sending acts l status"] send_next(1,3,4) show ?thesis
    by (intro attended_frame [OF s(2)]) simp_all
next
  case (send_fails i act acts l status)
  then show ?thesis using attended_busy [OF s(2) send_fails(2)] by simp
next
  case (turn_over i l status)
  let ?w = "if status = Looping then Waiting l else Gone"
  show ?thesis
    using flying_worker [OF turn_over(2), of _ "ce (rt_events s)" ?w "ca (rt_actions s)"]
      live_worker [OF turn_over(2), of ?w] turn_over(1,3) attended_busy [OF s(2) turn_over(2)]
    by (intro attended_frame [OF s(2)]) (simp_all split: if_splits)
next
  case (disconnected i l)
  then show ?thesis using attended_busy [OF s(2) disconnected(2)] by simp
qed

lemma client_step_attended:
  assumes ch: "channels_ok W ce ca" and "client_step W s t" "attended ce ca s"
  shows "attended ce ca t"
  using assms(2)
proof cases
  case drop_handle
  then show ?thesis
    using assms(3) by (simp add: attended_def untold_def objects_def some_worker_def split: phase.splits)
qed (intro attended_frame [OF assms(3)];
    simp add: run_defs split_beta channels_send [OF ch] flying_actions)+

section \<open>Reachable states\<close>

text \<open>The states \<open>System::run\<close> starts in, on new channels.\<close>

definition started ::
  "('a, 'm, 'qe, 'qa) world \<Rightarrow> ('qe \<Rightarrow> ('a, 'm) event list) \<Rightarrow> ('qa \<Rightarrow> ('a, 'm) action list) \<Rightarrow>
   ('a, 'm, 'qe, 'qa) runtime_state \<Rightarrow> bool"
where
  "started W ce ca s \<longleftrightarrow>
     (\<exists>pool_size R c now events actions e.
        ce events = [] \<and> ca actions = [] \<and> system_run pool_size W R c now events actions = (e, Some s))"

text \<open>The remote actors are spawned with actions; nothing else distinguishes a started runtime.\<close>

lemma runtime_start_frame:
  assumes "runtime_start W R c now events actions = (e, s)"
  shows "\<exists>handle q. s = (start_actor_runtime (w_name W) (cfg_scheduler c) now events actions)
      \<lparr>rt_handle := handle, rt_actions := q\<rparr> \<and>
    (channels_ok W ce ca \<longrightarrow> ca actions = [] \<longrightarrow> (\<forall>tag. filter (is_return tag) (ca q) = []))"
proof -
  have "s = (start_actor_runtime (w_name W) (cfg_scheduler c) now events actions)
    \<lparr>rt_handle := rt_handle s, rt_actions := rt_actions s\<rparr>"
    using assms by (auto simp: runtime_start_def Let_def split: if_splits sum.splits)
  moreover have "channels_ok W ce ca \<longrightarrow> ca actions = [] \<longrightarrow> (\<forall>tag. filter (is_return tag) (ca (rt_actions s)) = [])"
    using assms
    by (auto simp: runtime_start_def Let_def run_defs start_actor_runtime_def channels_send is_return_def
        CLIENT_def SERVER_def adjust_remote_address_def split: if_splits sum.splits)
  ultimately show ?thesis by blast
qed

lemma started_state:
  assumes "started W ce ca s" "channels_ok W ce ca"
  obtains c now where "rt_loop s = event_loop_init c (w_name W) now" "rt_phase s = Running"
    "ce (rt_events s) = []" "\<And>tag. filter (is_return tag) (ca (rt_actions s)) = []"
    "rt_workers s = replicate (actor_worker_threads c) (Waiting local_new)" "rt_spawned s = (\<lambda>_. 0)"
proof -
  from assms(1) obtain pool_size R c now events actions e where
    "ce events = []" "ca actions = []" "system_run pool_size W R c now events actions = (e, Some s)"
    unfolding started_def by blast
  moreover from this have "runtime_start W R c now events actions = (e, s)"
    by (auto simp: system_run_def split: if_splits prod.splits)
  note runtime_start_frame [OF this, of ce ca]
  ultimately show ?thesis
    using assms(2) that [of "cfg_scheduler c" now] by (auto simp: start_actor_runtime_def)
qed

lemma no_workers_busy: "sum_list (map (in_worker tag) (replicate n (Waiting l))) = 0"
  by (simp add: sum_list_eq_0_iff)

lemma started_sound: "started W ce ca s \<Longrightarrow> channels_ok W ce ca \<Longrightarrow> sound ce ca s"
  by (erule (1) started_state)
    (simp add: sound_def objects_def flying_def loop_ok_init cell_of_init in_cell_def no_workers_busy)

lemma started_attended:
  assumes "started W ce ca s" "channels_ok W ce ca" "rt_workers s \<noteq> []"
  shows "attended ce ca s"
proof -
  have "sum_list (map live (replicate n (Waiting l :: ('b, 'c) worker))) = n" for n l
    by (simp add: sum_list_replicate)
  with assms show ?thesis
    by (elim started_state) (auto simp: attended_def untold_def event_loop_init_def)
qed

interpretation sound_law:
  invariant_of "started W ce ca" "system_step W" "\<lambda>s. channels_ok W ce ca \<longrightarrow> sound ce ca s" for W ce ca
  by unfold_locales (auto simp: system_step_def intro: started_sound rt_step_sound client_step_sound)

interpretation attended_law:
  invariant_of "\<lambda>s. started W ce ca s \<and> rt_workers s \<noteq> []" "system_step W"
    "\<lambda>s. channels_ok W ce ca \<and> steady W \<longrightarrow> sound ce ca s \<and> attended ce ca s" for W ce ca
  by unfold_locales
    (auto simp: system_step_def intro: started_sound started_attended rt_step_sound client_step_sound
      rt_step_attended client_step_attended)

end
