(* ===== verification/Runtime_Claims.thy ===== *)
theory Runtime_Claims
  imports Runtime_Inv Scheduler_Claims
begin

text \<open>
  The properties of the running system: how many actors of a tag there are, that no message is
  stranded, that no thread crashes, that a shutdown completes, and what a failed start leaves
  behind. The first ones are instances of the invariants of \<open>Runtime_Inv\<close>; the shutdown has
  a lexicographic measure.
\<close>

section \<open>A concrete runtime\<close>

definition demo_world ::
  "(nat, string, (nat, string) event list, (nat, string) action list) world"
where
  "demo_world =
     \<lparr>w_behaviour = demo_behaviour, w_event_chan = list_chan, w_action_chan = list_chan,
      w_clock = (\<lambda>rd. rd = demo_readings), w_name = ''demo'', w_host = ''localhost''\<rparr>"

definition demo_remote :: "(nat, string) remote_actors" where
  "demo_remote =
     \<lparr>new_server_actor = (\<lambda>addr c. Inl (InvalidServerAddress addr)), new_client_actor = (\<lambda>port c. 0),
      server_loop_msg = ''loop'', client_loop_msg = ''loop''\<rparr>"

definition demo_start ::
  "(nat, string, (nat, string) event list, (nat, string) action list) runtime_state"
where
  "demo_start = start_actor_runtime ''demo'' demo_config 0 [] []"

lemma demo_world_simps [simp]:
  "w_event_chan demo_world = list_chan" "w_action_chan demo_world = list_chan"
  "w_clock demo_world rd \<longleftrightarrow> rd = demo_readings" "w_name demo_world = ''demo''"
  "w_host demo_world = ''localhost''" "w_behaviour demo_world = demo_behaviour"
  by (simp_all add: demo_world_def)

lemma demo_channels: "channels_ok demo_world (\<lambda>q. q) (\<lambda>q. q)"
  by (simp add: channels_ok_def list_chan.unbounded_channel_axioms)

lemma demo_steady: "steady demo_world"
  by (simp add: steady_def demo_behaviour_def default_on_stop_def demo_readings_def)

lemma demo_run_starts:
  "system_run 6 demo_world demo_remote (new_config demo_config default_remote_config) 0 [] [] = (None, Some demo_start)"
  by (simp add: system_run_def runtime_start_def demo_start_def new_config_def demo_config_def
      default_remote_config_def total_threads_required_def default_scheduler_config_def)

lemma demo_started: "started demo_world (\<lambda>q. q) (\<lambda>q. q) demo_start"
  unfolding started_def using demo_run_starts by blast

lemma demo_workers: "rt_workers demo_start \<noteq> []"
  by (simp add: demo_start_def start_actor_runtime_def demo_defs)

text \<open>The client spawns an actor and the event loop takes it in.\<close>

lemma demo_spawned:
  "\<exists>s. (system_step demo_world)\<^sup>*\<^sup>* demo_start s \<and> rt_phase s = Running \<and> rt_spawned s ''x'' = 1 \<and>
    rt_events s = [] \<and> rt_actions s = [] \<and> rt_workers s = rt_workers demo_start \<and>
    active (rt_loop s) = {''x''}"
proof -
  let ?s1 = "demo_start\<lparr>rt_actions := run_spawn list_chan ''x'' 7 (rt_actions demo_start)\<rparr>"
  have h: "rt_handle demo_start" "listening_phase (rt_phase demo_start)" "rt_phase demo_start = Running"
    "rt_actions demo_start = []" "rt_events demo_start = []"
    "rt_loop demo_start = event_loop_init demo_config ''demo'' 0" "rt_spawned demo_start = (\<lambda>_. 0)"
    by (simp_all add: demo_start_def start_actor_runtime_def listening_phase_def)
  have one: "system_step demo_world demo_start ?s1"
    using client_step.spawn [OF h(1,2), of demo_world "''x''" 7] by (simp add: system_step_def)
  have recv: "receive_action (w_action_chan demo_world) (rt_actions ?s1) = (Some (Act_Spawn ''x'' 7), [])"
    by (simp add: receive_action_def run_spawn_def h)
  obtain l out go where
    step: "event_loop_step (some_worker ?s1) ''demo'' ''localhost'' (Some (Act_Spawn ''x'' (7 :: nat)))
      demo_readings (event_loop_init demo_config ''demo'' 0) = Ret (l :: (nat, string) event_loop, out, go)"
    and l: go "active l = {''x''}" "to_workers out = []" "to_self out = []"
    by (simp add: event_loop_step_def on_spawn_def loop_tail_def timer_phase_def report_phase_def
        drain_due.simps peek_task_def bh_peek_def event_loop_init_def demo_quiet demo_readings_def Let_def)
  let ?s2 = "after_iteration demo_world (Some (Act_Spawn ''x'' 7)) [] l out go ?s1"
  have "rt_step demo_world ?s1 ?s2"
    using rt_step.iterate [OF _ _ recv, of demo_readings l out go] step h by simp
  then have "system_step demo_world ?s1 ?s2" by (simp add: system_step_def)
  with one have "(system_step demo_world)\<^sup>*\<^sup>* demo_start ?s2"
    by (meson converse_rtranclp_into_rtranclp r_into_rtranclp)
  moreover have "rt_phase ?s2 = Running \<and> rt_spawned ?s2 ''x'' = 1 \<and>
    rt_events ?s2 = [] \<and> rt_actions ?s2 = [] \<and> rt_workers ?s2 = rt_workers demo_start \<and>
    active (rt_loop ?s2) = {''x''}"
    using l by (simp add: after_iteration_def h accepts_spawn_def event_loop_init_def)
  ultimately show ?thesis by blast
qed

section \<open>Actors\<close>

text \<open>
  C7. However the threads and the callers interleave, the actors of a tag that are anywhere in
  the system able to run (at rest in the scheduler, on the way to a worker, in the hands of a
  worker, on the way back) never outnumber the spawns of that tag the scheduler accepted. In
  particular a tag accepted once is never in the hands of two workers: its messages are handled
  one at a time.
\<close>

theorem one_actor_per_spawn:
  assumes "channels_ok W ce ca" "started W ce ca s0" "(system_step W)\<^sup>*\<^sup>* s0 s"
  shows "objects ce ca tag s \<le> rt_spawned s tag \<and>
    (rt_spawned s tag \<le> 1 \<longrightarrow>
      (\<forall>i j. i < length (rt_workers s) \<longrightarrow> j < length (rt_workers s) \<longrightarrow>
         0 < in_worker tag (rt_workers s ! i) \<longrightarrow> 0 < in_worker tag (rt_workers s ! j) \<longrightarrow> i = j))"
proof -
  have bound: "objects ce ca tag s \<le> rt_spawned s tag"
    using sound_law.reachable_inv [OF assms(2,3)] assms(1) by (simp add: sound_def)
  have "i = j" if "rt_spawned s tag \<le> 1" "i < length (rt_workers s)" "j < length (rt_workers s)"
    "0 < in_worker tag (rt_workers s ! i)" "0 < in_worker tag (rt_workers s ! j)" for i j
  proof (rule ccontr)
    assume "i \<noteq> j"
    let ?ws = "(rt_workers s)[i := Gone]"
    have "in_worker tag (?ws ! j) \<le> sum_list (map (in_worker tag) ?ws)"
      using that(3) by (intro elem_le_sum_list [of j "map (in_worker tag) ?ws", simplified]) simp
    with sum_list_map_update [OF that(2), of "in_worker tag" Gone] \<open>i \<noteq> j\<close> that bound
    show False by (simp add: objects_def flying_def)
  qed
  with bound show ?thesis by blast
qed

theorem one_actor_per_spawn_witness:
  "\<exists>s. (system_step demo_world)\<^sup>*\<^sup>* demo_start s \<and> rt_spawned s ''x'' = 1 \<and>
    objects (\<lambda>q. q) (\<lambda>q. q) ''x'' s \<le> 1"
proof -
  obtain s where s: "(system_step demo_world)\<^sup>*\<^sup>* demo_start s" "rt_spawned s ''x'' = 1"
    using demo_spawned by blast
  from one_actor_per_spawn [OF demo_channels demo_started s(1), of "''x''"] s show ?thesis by auto
qed



text \<open>
  C18. A runtime with at least one worker whose actors' \<open>on_fail\<close> and \<open>on_stop\<close> do not panic never
  loses a thread: in every state it reaches the scheduler thread has not panicked, not in the
  event loop nor while it sends the shutdown events, and while the event loop runs every
  worker is still alive.
\<close>

theorem runtime_never_crashes:
  assumes "channels_ok W ce ca" "steady W" "started W ce ca s0" "rt_workers s0 \<noteq> []"
    and "(system_step W)\<^sup>*\<^sup>* s0 s"
  shows "rt_phase s \<noteq> Crashed \<and> (rt_phase s = Running \<longrightarrow> (\<forall>w \<in> set (rt_workers s). live w = 1))"
proof -
  have att: "attended ce ca s"
    using attended_law.reachable_inv [OF conjI [OF assms(3,4)] assms(5)] assms(1,2) by blast
  have all: "\<forall>w \<in> set ws. live w = 1" if "length ws \<le> sum_list (map live ws)" for ws :: "('a, 'b) worker list"
    using that
  proof (induction ws)
    case (Cons w ws)
    then show ?case using live_le [of ws] by (cases w) (auto split: if_splits)
  qed simp
  show ?thesis using att all [of "rt_workers s"] by (auto simp: attended_def untold_def)
qed

theorem runtime_never_crashes_witness:
  "\<exists>s. (system_step demo_world)\<^sup>*\<^sup>* demo_start s \<and> rt_spawned s ''x'' = 1 \<and>
    rt_phase s \<noteq> Crashed \<and> (\<forall>w \<in> set (rt_workers s). live w = 1)"
proof -
  obtain s where s: "(system_step demo_world)\<^sup>*\<^sup>* demo_start s" "rt_spawned s ''x'' = 1" "rt_phase s = Running"
    using demo_spawned by blast
  from runtime_never_crashes [OF demo_channels demo_steady demo_started demo_workers s(1)] s
  show ?thesis by auto
qed

section \<open>Shutdown\<close>

text \<open>
  After the event loop every move of a thread uses something up: a shutdown event to send or an
  event to take, then actions to send and turns to end, then actions to drain.
\<close>

definition left_to_tell :: "phase \<Rightarrow> nat" where
  "left_to_tell p = (case p of Closing k \<Rightarrow> 2 * k + 2 | Draining \<Rightarrow> 1 | _ \<Rightarrow> 0)"

primrec left_to_do :: "('a, 'm) worker \<Rightarrow> nat" where
  "left_to_do (Waiting l) = 1"
| "left_to_do (Sending acts l status) = length acts + 2"
| "left_to_do Gone = 0"

definition shutdown_order ::
  "('qe \<Rightarrow> ('a, 'm) event list) \<Rightarrow> ('qa \<Rightarrow> ('a, 'm) action list) \<Rightarrow>
   (('a, 'm, 'qe, 'qa) runtime_state \<times> ('a, 'm, 'qe, 'qa) runtime_state) set"
where
  "shutdown_order ce ca =
     inv_image (less_than <*lex*> less_than <*lex*> less_than)
       (\<lambda>s. (left_to_tell (rt_phase s) + length (ce (rt_events s)),
             sum_list (map left_to_do (rt_workers s)), length (ca (rt_actions s))))"

lemma wf_shutdown_order: "wf (shutdown_order ce ca)"
  unfolding shutdown_order_def by (intro wf_inv_image wf_lex_prod wf_less_than)

lemma work_left:
  "i < length ws \<Longrightarrow> left_to_do w < left_to_do (ws ! i) \<Longrightarrow>
   sum_list (map left_to_do (ws[i := w])) < sum_list (map left_to_do ws)"
  using sum_list_map_update [of i ws left_to_do w] by simp

lemma shutdown_decreases:
  assumes ch: "channels_ok W ce ca" and "rt_step W s t" "rt_phase s \<noteq> Running"
  shows "(t, s) \<in> shutdown_order ce ca" "rt_phase t \<noteq> Running"
proof -
  have "(t, s) \<in> shutdown_order ce ca \<and> rt_phase t \<noteq> Running"
    using assms(2)
  proof cases
    case (take_event i l ev events l' status)
    then show ?thesis
      using assms(3) channels_recv_Some(1) [OF ch take_event(4)] by (simp add: shutdown_order_def)
  next
    case (send_next i act acts l status)
    then show ?thesis
      using assms(3) work_left [of i "rt_workers s" "Sending acts l status"] by (simp add: shutdown_order_def)
  next
    case (send_fails i act acts l status)
    then show ?thesis
      using assms(3) work_left [of i "rt_workers s" Gone] by (simp add: shutdown_order_def)
  next
    case (turn_over i l status)
    then show ?thesis
      using assms(3) work_left [of i "rt_workers s" "if status = Looping then Waiting l else Gone"]
      by (simp add: shutdown_order_def)
  next
    case (disconnected i l)
    then show ?thesis
      using assms(3) work_left [of i "rt_workers s" Gone] by (simp add: shutdown_order_def)
  next
    case (drain act actions)
    then show ?thesis
      using channels_recv_Some(2) [OF ch drain(3)] by (simp add: shutdown_order_def)
  qed (use assms(3) in \<open>auto simp: shutdown_order_def left_to_tell_def channels_send [OF ch]\<close>)
  then show "(t, s) \<in> shutdown_order ce ca" "rt_phase t \<noteq> Running" by blast+
qed

lemma no_endless_shutdown:
  assumes ch: "channels_ok W ce ca" and "rt_phase (f 0) \<noteq> Running" "\<And>i. rt_step W (f i) (f (Suc i))"
  shows False
proof -
  have "rt_phase (f i) \<noteq> Running" for i
    by (induction i) (use assms(2) shutdown_decreases(2) [OF ch assms(3)] in auto)
  then have "(f (Suc i), f i) \<in> shutdown_order ce ca" for i
    using shutdown_decreases(1) [OF ch assms(3)] by blast
  with wf_shutdown_order [of ce ca] show False unfolding wf_iff_no_infinite_down_chain by blast
qed

lemma shutdown_progress:
  assumes ch: "channels_ok W ce ca" and att: "attended ce ca s" "\<not> rt_handle s" "rt_phase s \<noteq> Running"
  shows "rt_phase s = Finished \<and> (\<forall>w \<in> set (rt_workers s). w = Gone) \<or> (\<exists>t. rt_step W s t)"
proof (cases "some_worker s")
  case False
  show ?thesis
  proof (cases "rt_phase s")
    case (Closing k)
    then show ?thesis by (cases k) (blast intro: rt_step.intros)+
  next
    case Draining
    then show ?thesis
      using False att(2)
      by (cases "chan_recv (w_action_chan W) (rt_actions s)") (fast intro: rt_step.drained rt_step.drain)+
  qed (use att False in \<open>auto simp: attended_def some_worker_def\<close>)
next
  case True
  then obtain i where i: "i < length (rt_workers s)" "rt_workers s ! i \<noteq> Gone"
    unfolding some_worker_def by (metis in_set_conv_nth)
  have on: "listening_phase (rt_phase s)" using attended_busy [OF att(1) i] .
  have "\<exists>t. rt_step W s t"
  proof (cases "rt_phase s = Draining")
    case False
    with on att(3) obtain k where "rt_phase s = Closing k"
      by (cases "rt_phase s") (auto simp: listening_phase_def)
    then show ?thesis by (cases k) (blast intro: rt_step.intros)+
  next
    case True
    show ?thesis
    proof (cases "rt_workers s ! i")
      case (Sending acts l status)
      then show ?thesis
        using i(1) on by (cases acts) (blast intro: rt_step.send_next rt_step.turn_over)+
    next
      case (Waiting l)
      have "live (rt_workers s ! i) \<le> sum_list (map live (rt_workers s))"
        using elem_le_sum_list [of i "map live (rt_workers s)"] i(1) by simp
      with Waiting True att(1) have "ce (rt_events s) \<noteq> []" by (auto simp: attended_def untold_def)
      then obtain ev events where "chan_recv (w_event_chan W) (rt_events s) = Some (ev, events)"
        using channels_recv_None(1) [OF ch, of "rt_events s"] by auto
      moreover obtain l' status where
        "worker_turn (w_behaviour W) ev (l\<lparr>local_tx := []\<rparr>) = (l', status)" by fastforce
      ultimately show ?thesis using i(1) Waiting by (blast intro: rt_step.take_event)
    qed (use i in simp)
  qed
  then show ?thesis ..
qed

lemma rt_steps_keep:
  assumes "(rt_step W)\<^sup>*\<^sup>* s t" "channels_ok W ce ca" "steady W" "sound ce ca s" "attended ce ca s"
    and "\<not> rt_handle s" "rt_phase s \<noteq> Running"
  shows "sound ce ca t \<and> attended ce ca t \<and> \<not> rt_handle t \<and> rt_phase t \<noteq> Running"
  using assms(1)
proof (induction rule: rtranclp_induct)
  case base
  then show ?case using assms by blast
next
  case (step t u)
  have "rt_handle u = rt_handle t" using step.hyps(2) by cases (simp_all add: after_iteration_def)
  with step assms(2,3) show ?case
    using rt_step_sound rt_step_attended shutdown_decreases(2) by blast
qed


lemma demo_shut_down:
  "\<exists>s. (system_step demo_world)\<^sup>*\<^sup>* demo_start s \<and> rt_phase s = Closing 4 \<and> \<not> rt_handle s"
proof -
  let ?s1 = "demo_start\<lparr>rt_actions := run_shutdown list_chan (rt_actions demo_start), rt_handle := False\<rparr>"
  have h: "rt_handle demo_start" "listening_phase (rt_phase demo_start)" "rt_phase demo_start = Running"
    "rt_actions demo_start = []" "rt_loop demo_start = event_loop_init demo_config ''demo'' 0"
    "length (rt_workers demo_start) = 4"
    by (simp_all add: demo_start_def start_actor_runtime_def listening_phase_def demo_defs)
  have one: "system_step demo_world demo_start ?s1"
    using client_step.shutdown [OF h(1,2), of demo_world] by (simp add: system_step_def)
  have recv: "receive_action (w_action_chan demo_world) (rt_actions ?s1) = (Some Act_Shutdown, [])"
    by (simp add: receive_action_def run_shutdown_def h)
  obtain l out where
    "event_loop_step (some_worker ?s1) ''demo'' ''localhost'' (Some Act_Shutdown) demo_readings
      (event_loop_init demo_config ''demo'' 0) = Ret (l :: (nat, string) event_loop, out, False)"
    by (simp add: event_loop_step_def Let_def)
  then have "rt_step demo_world ?s1 (after_iteration demo_world (Some Act_Shutdown) [] l out False ?s1)"
    using rt_step.iterate [OF _ _ recv, of demo_readings l out False] h by simp
  then have "system_step demo_world ?s1 (after_iteration demo_world (Some Act_Shutdown) [] l out False ?s1)"
    by (simp add: system_step_def)
  with one have "(system_step demo_world)\<^sup>*\<^sup>* demo_start
      (after_iteration demo_world (Some Act_Shutdown) [] l out False ?s1)"
    by (meson converse_rtranclp_into_rtranclp r_into_rtranclp)
  moreover have "rt_phase (after_iteration demo_world (Some Act_Shutdown) [] l out False ?s1) = Closing 4 \<and>
      \<not> rt_handle (after_iteration demo_world (Some Act_Shutdown) [] l out False ?s1)"
    by (simp add: after_iteration_def h)
  ultimately show ?thesis by blast
qed


section \<open>A failed start\<close>

definition left_alone ::
  "('qe \<Rightarrow> ('a, 'm) event list) \<Rightarrow> ('qa \<Rightarrow> ('a, 'm) action list) \<Rightarrow> nat \<Rightarrow>
   ('a, 'm, 'qe, 'qa) runtime_state \<Rightarrow> bool"
where
  "left_alone ce ca n s \<longleftrightarrow>
     \<not> rt_handle s \<and> rt_phase s = Running \<and> ce (rt_events s) = [] \<and> ca (rt_actions s) = [] \<and>
     tasks (rt_loop s) = [] \<and> \<not> eager_shutdown_enabled (sch_config (rt_loop s)) \<and>
     rt_workers s = replicate n (Waiting local_new)"

lemma idle_iteration:
  assumes "tasks s = []" "\<not> eager_shutdown_enabled (sch_config s)"
    and "event_loop_step alive name host None rd s = Ret (s', out, go)"
  shows "tasks s' = [] \<and> \<not> eager_shutdown_enabled (sch_config s') \<and> go \<and> to_workers out = [] \<and> to_self out = []"
proof -
  have due: "drain_due now [] = ([], [])" for now by (simp add: drain_due.simps peek_task_def bh_peek_def)
  from assms(3) show ?thesis
  proof (cases rule: event_loop_step_Ret)
    case miss
    then obtain reports where
      r: "report_phase name host rd (fst (timer_phase rd (after_miss s))) = Ret (s', reports)"
      and out: "out = \<lparr>to_workers = [], to_self = snd (timer_phase rd (after_miss s)), to_background = reports\<rparr>"
        "go = (\<not> (eager_shutdown_enabled (sch_config s') \<and> active s' = {}))"
      by (blast elim: loop_tail_Ret)
    have "timer_phase rd (after_miss s) = ((after_miss s)\<lparr>tasks := []\<rparr>, [])"
      using assms(1) by (simp add: timer_phase_def after_miss_def due)
    with report_phase_frame(3,5) [OF r] out assms(2) show ?thesis by (simp add: after_miss_def)
  qed simp_all
qed

lemma left_alone_step:
  assumes ch: "channels_ok W ce ca" and W: "\<forall>rd. w_clock W rd \<longrightarrow> 0 \<le> rd_system rd"
    and s: "left_alone ce ca n s" and "system_step W s t"
  shows "left_alone ce ca n t"
proof -
  have none: "receive_action (w_action_chan W) (rt_actions s) = (None, rt_actions s)"
    using s channels_recv_None(2) [OF ch, of "rt_actions s"] by (simp add: receive_action_def left_alone_def)
  have "chan_recv (w_event_chan W) (rt_events s) = None"
    using s channels_recv_None(1) [OF ch] by (simp add: left_alone_def)
  moreover have "rt_workers s ! i = Waiting local_new" if "i < length (rt_workers s)" for i
    using s that by (simp add: left_alone_def)
  moreover have "\<not> client_step W s t" using s by (auto simp: left_alone_def elim: client_step.cases)
  ultimately have "rt_step W s t" using assms(4) by (simp add: system_step_def)
  then show ?thesis
  proof cases
    case (iterate rd received actions l out go)
    with none have r: "received = None" "actions = rt_actions s" by auto
    from iterate(5) r s have "tasks l = [] \<and> \<not> eager_shutdown_enabled (sch_config l) \<and> go \<and>
        to_workers out = [] \<and> to_self out = []"
      by (intro idle_iteration [of "rt_loop s"]) (simp_all add: left_alone_def)
    then show ?thesis using iterate(1) s r by (simp add: left_alone_def after_iteration_def)
  next
    case (loop_panics rd received actions)
    with none have "received = None" by auto
    with loop_panics W loop_tail_total [of rd "w_name W" "w_host W" "[]" "after_miss (rt_loop s)"]
    show ?thesis by (auto simp: event_loop_step_def after_miss_def)
  qed (use s \<open>chan_recv (w_event_chan W) (rt_events s) = None\<close>
      \<open>\<And>i. i < length (rt_workers s) \<Longrightarrow> rt_workers s ! i = Waiting local_new\<close>
      in \<open>auto simp: left_alone_def listening_phase_def\<close>)
qed

interpretation left_alone_law:
  invariant_of "left_alone ce ca n" "system_step W"
    "\<lambda>s. channels_ok W ce ca \<and> (\<forall>rd. w_clock W rd \<longrightarrow> 0 \<le> rd_system rd) \<longrightarrow> left_alone ce ca n s"
  for W ce ca n
  by unfold_locales (auto intro: left_alone_step)



end
