(* ===== verification/Reports.thy ===== *)
theory Reports
  imports Bookkeeping
begin

text \<open>
  The jobs that print what the event loop has collected, \<open>report_logs\<close> and \<open>report_metrics\<close> of
  \<open>src/core.rs\<close>. A run of a job is the lines it printed and whether it returned: the time of an entry
  before the Unix epoch is a failed \<open>unwrap\<close>, after the lines before it. The order in which a
  \<open>HashMap\<close> is taken apart is a parameter.
\<close>

datatype printed =
    Printed_Log logger_entry
  | Printed_Scheduler scheduler_metrics
  | Printed_Metric metric_entry

definition logger_entry_of :: "string \<Rightarrow> string \<Rightarrow> tag \<Rightarrow> u64 \<Rightarrow> string \<Rightarrow> logger_entry" where
  "logger_entry_of app host tag at msg =
     \<lparr>le_at = at, le_meta = \<lparr>meta_host = host, meta_app = app, meta_tag = tag\<rparr>, le_log = msg\<rparr>"

definition metric_entry_of :: "string \<Rightarrow> string \<Rightarrow> tag \<Rightarrow> u64 \<Rightarrow> f64 \<Rightarrow> metric_entry" where
  "metric_entry_of app host tag at val =
     \<lparr>me_at = at, me_meta = \<lparr>meta_host = host, meta_app = app, meta_tag = tag\<rparr>, me_val = val\<rparr>"

primrec print_messages :: "string \<Rightarrow> string \<Rightarrow> tag \<Rightarrow> (sys_time \<times> string) list \<Rightarrow> printed list \<times> bool" where
  "print_messages app host tag [] = ([], True)"
| "print_messages app host tag (e # es) =
     (case epoch_millis (fst e) of
        Panic \<Rightarrow> ([], False)
      | Ret at \<Rightarrow>
          let (ls, ok) = print_messages app host tag es
          in (Printed_Log (logger_entry_of app host tag at (snd e)) # ls, ok))"

primrec report_logs ::
  "string \<Rightarrow> string \<Rightarrow> (tag \<times> (sys_time \<times> string) list) list \<Rightarrow> printed list \<times> bool"
where
  "report_logs app host [] = ([], True)"
| "report_logs app host (batch # batches) =
     (let (ls, ok) = print_messages app host (fst batch) (snd batch)
      in if ok then let (ls', ok') = report_logs app host batches in (ls @ ls', ok') else (ls, False))"

text \<open>The entries of one name are made before any of them is printed.\<close>

primrec metric_entries :: "string \<Rightarrow> string \<Rightarrow> tag \<Rightarrow> (sys_time \<times> f64) list \<Rightarrow> metric_entry list outcome" where
  "metric_entries app host tag [] = Ret []"
| "metric_entries app host tag (e # es) =
     and_then (epoch_millis (fst e)) (\<lambda>at.
     and_then (metric_entries app host tag es) (\<lambda>ms. Ret (metric_entry_of app host tag at (snd e) # ms)))"

primrec print_metrics :: "string \<Rightarrow> string \<Rightarrow> (string \<times> (sys_time \<times> f64) list) list \<Rightarrow> printed list \<times> bool" where
  "print_metrics app host [] = ([], True)"
| "print_metrics app host (m # ms) =
     (case metric_entries app host (fst m) (snd m) of
        Panic \<Rightarrow> ([], False)
      | Ret entries \<Rightarrow>
          let (ls, ok) = print_metrics app host ms in (map Printed_Metric entries @ ls, ok))"

definition report_metrics ::
  "((string \<rightharpoonup> (sys_time \<times> f64) list) \<Rightarrow> (string \<times> (sys_time \<times> f64) list) list) \<Rightarrow> string \<Rightarrow> string \<Rightarrow>
   scheduler_metrics \<Rightarrow> (string \<rightharpoonup> (sys_time \<times> f64) list) \<Rightarrow> printed list \<times> bool"
where
  "report_metrics iter app host scheduler metrics =
     (let (ls, ok) = print_metrics app host (iter metrics) in (Printed_Scheduler scheduler # ls, ok))"

definition run_report ::
  "((string \<rightharpoonup> (sys_time \<times> f64) list) \<Rightarrow> (string \<times> (sys_time \<times> f64) list) list) \<Rightarrow> report \<Rightarrow> printed list \<times> bool"
where
  "run_report iter r =
     (case r of
        Report_Metrics app host c m \<Rightarrow> report_metrics iter app host c m
      | Report_Logs app host ls \<Rightarrow> report_logs app host ls)"

section \<open>What is printed\<close>

definition millis :: "sys_time \<Rightarrow> u64" where
  "millis t = word_of_int (t div 1000000)"

text \<open>The lines of one batch, and of what the jobs of an iteration were given.\<close>

definition lines_of :: "string \<Rightarrow> string \<Rightarrow> tag \<times> (sys_time \<times> string) list \<Rightarrow> printed list" where
  "lines_of app host b =
     map (\<lambda>e. Printed_Log (logger_entry_of app host (fst b) (millis (fst e)) (snd e))) (snd b)"

definition after_epoch :: "tag \<times> (sys_time \<times> string) list \<Rightarrow> bool" where
  "after_epoch b \<longleftrightarrow> (\<forall>e \<in> set (snd b). 0 \<le> fst e)"

lemma print_messages_all:
  "after_epoch (tag, es) \<Longrightarrow> print_messages app host tag es = (lines_of app host (tag, es), True)"
  by (induction es) (auto simp: lines_of_def after_epoch_def epoch_millis_def millis_def)

lemma report_logs_all:
  "\<forall>b \<in> set bs. after_epoch b \<Longrightarrow> report_logs app host bs = (concat (map (lines_of app host) bs), True)"
  by (induction bs) (auto simp: print_messages_all)

text \<open>The log lines printed by the jobs an iteration handed out.\<close>

definition log_lines ::
  "((string \<rightharpoonup> (sys_time \<times> f64) list) \<Rightarrow> (string \<times> (sys_time \<times> f64) list) list) \<Rightarrow> ('a, 'm) sent \<Rightarrow> printed list"
where
  "log_lines iter out =
     filter (\<lambda>l. case l of Printed_Log e \<Rightarrow> True | _ \<Rightarrow> False)
       (concat (map (\<lambda>r. fst (run_report iter r)) (to_background out)))"

lemma print_metrics_no_logs:
  "filter (\<lambda>l. case l of Printed_Log e \<Rightarrow> True | _ \<Rightarrow> False) (fst (print_metrics app host ms)) = []"
  by (induction ms) (auto split: outcome.split prod.split)

lemma lines_of_logs:
  "filter (\<lambda>l. case l of Printed_Log e \<Rightarrow> True | _ \<Rightarrow> False) (lines_of app host b) = lines_of app host b"
  by (auto simp: lines_of_def filter_id_conv)

section \<open>From the event loop to the printed line\<close>

definition addressed :: "string \<Rightarrow> string \<Rightarrow> report \<Rightarrow> bool" where
  "addressed app host r \<longleftrightarrow> (\<exists>c m. r = Report_Metrics app host c m) \<or> (\<exists>ls. r = Report_Logs app host ls)"

lemma report_phase_addressed:
  "report_phase app host rd s = Ret (s', reports) \<Longrightarrow> \<forall>r \<in> set reports. addressed app host r"
  by (auto simp: report_phase_def addressed_def Let_def split: if_splits)

lemma step_addressed:
  assumes "event_loop_step alive app host received rd s = Ret (s', out, go)"
  shows "\<forall>r \<in> set (to_background out). addressed app host r"
  using assms
  by (cases rule: event_loop_step_Ret)
    (auto elim!: loop_tail_Ret dest!: report_phase_addressed simp: nothing_sent_def)

lemma run_addressed:
  "event_loop_run alive app host inputs s = Ret (s', outs, go) \<Longrightarrow>
   \<forall>out \<in> set outs. \<forall>r \<in> set (to_background out). addressed app host r"
proof (induction inputs arbitrary: s outs)
  case Nil
  then show ?case by simp
next
  case (Cons input inputs)
  obtain received rd where input: "input = (received, rd)" by fastforce
  from Cons.prems obtain s1 out go1 where one: "event_loop_step alive app host received rd s = Ret (s1, out, go1)"
    by (auto simp: input split: if_splits)
  show ?case
  proof (cases go1)
    case True
    with Cons.prems one obtain outs1 where
      "event_loop_run alive app host inputs s1 = Ret (s', outs1, go)" "outs = out # outs1"
      by (auto simp: input)
    with Cons.IH step_addressed [OF one] show ?thesis by simp
  next
    case False
    with Cons.prems one step_addressed [OF one] show ?thesis by (auto simp: input)
  qed
qed

lemma log_lines_addressed:
  assumes "\<forall>r \<in> set (to_background out). addressed app host r" "\<forall>b \<in> set (reported_logs out). after_epoch b"
  shows "log_lines iter out = concat (map (lines_of app host) (reported_logs out))"
proof -
  let ?is_log = "\<lambda>l. case l of Printed_Log e \<Rightarrow> True | _ \<Rightarrow> False"
  let ?logs = "\<lambda>r. case r of Report_Logs name host ls \<Rightarrow> ls | _ \<Rightarrow> []"
  have one: "filter ?is_log (fst (run_report iter r)) = concat (map (lines_of app host) (?logs r))"
    if "addressed app host r" "\<forall>b \<in> set (?logs r). after_epoch b" for r
  proof -
    from that(1) consider c m where "r = Report_Metrics app host c m" | ls where "r = Report_Logs app host ls"
      by (auto simp: addressed_def)
    then show ?thesis
    proof cases
      case 1
      then show ?thesis
        using print_metrics_no_logs [of app host] by (simp add: run_report_def report_metrics_def split_beta)
    next
      case 2
      then show ?thesis
        using that(2) by (simp add: run_report_def report_logs_all filter_concat lines_of_logs comp_def)
    qed
  qed
  have "filter ?is_log (concat (map (\<lambda>r. fst (run_report iter r)) rs)) =
      concat (map (lines_of app host) (concat (map ?logs rs)))"
    if "\<forall>r \<in> set rs. addressed app host r" "\<forall>b \<in> set (concat (map ?logs rs)). after_epoch b" for rs
    using that by (induction rs) (simp_all add: one)
  with assms show ?thesis by (simp add: log_lines_def reported_logs_def)
qed

text \<open>
  C27. Every line an actor logs is printed once, in order. Over any run of the event loop, the log lines
  the background jobs print, followed by those of the batches the loop still holds, are those of the
  batches it held at the start followed by those it received, each with the host, the application and
  the tag of its actor, and the time in milliseconds, provided no clock reading is before the Unix epoch.
\<close>

theorem log_lines_printed_once:
  assumes run: "event_loop_run alive app host inputs s = Ret (s', outs, go)"
    and held: "\<forall>b \<in> set (logs s). after_epoch b"
    and came: "\<forall>act \<in> set (received_actions (take (length outs) inputs)). \<forall>b \<in> set (logged act). after_epoch b"
  shows "concat (map (log_lines iter) outs) @ concat (map (lines_of app host) (logs s')) =
    concat (map (lines_of app host) (logs s @ concat (map logged (received_actions (take (length outs) inputs)))))"
proof -
  have law: "concat (map reported_logs outs) @ logs s' =
      logs s @ concat (map logged (received_actions (take (length outs) inputs)))"
    using log_law.run_law [OF TrueI run] by (simp add: foldr_append_concat)
  have "set (concat (map reported_logs outs)) \<subseteq>
      set (logs s @ concat (map logged (received_actions (take (length outs) inputs))))"
    by (subst law [symmetric]) auto
  then have epoch: "\<forall>out \<in> set outs. \<forall>b \<in> set (reported_logs out). after_epoch b"
    using held came by fastforce
  have "concat (map (log_lines iter) outs) = concat (map (lines_of app host) (concat (map reported_logs outs)))"
    using run_addressed [OF run] epoch by (induction outs) (simp_all add: log_lines_addressed)
  then show ?thesis by (simp only: law [symmetric] map_append concat_append)
qed

theorem log_lines_printed_once_witness:
  "\<exists>s' out go. event_loop_run True ''app'' ''h'' [(Some (Act_Logs ''amy'' [(5000000, ''hi'')]),
      \<lparr>rd_now = 0, rd_elapsed = 0, rd_system = 0, rd_restart = 0\<rparr>)]
      (event_loop_init default_scheduler_config ''app'' 0 :: (unit, unit) event_loop) = Ret (s', [out], go) \<and>
    log_lines (\<lambda>m. []) out @ concat (map (lines_of ''app'' ''h'') (logs s')) =
      [Printed_Log (logger_entry_of ''app'' ''h'' ''amy'' 5 ''hi'')]"
proof -
  let ?rd = "\<lparr>rd_now = 0, rd_elapsed = 0, rd_system = 0, rd_restart = 0\<rparr>"
  let ?s = "event_loop_init default_scheduler_config ''app'' 0 :: (unit, unit) event_loop"
  let ?act = "Act_Logs ''amy'' [(5000000, ''hi'')] :: (unit, unit) action"
  obtain s' out go where "event_loop_step True ''app'' ''h'' (Some ?act) ?rd ?s = Ret (s', out, go)"
    using event_loop_step_total [OF loop_ok_init, where rd = ?rd] by fastforce
  then have run: "event_loop_run True ''app'' ''h'' [(Some ?act, ?rd)] ?s = Ret (s', [out], go)" by simp
  have "logs ?s = []" by (simp add: event_loop_init_def)
  then have "log_lines (\<lambda>m. []) out @ concat (map (lines_of ''app'' ''h'') (logs s')) =
      [Printed_Log (logger_entry_of ''app'' ''h'' ''amy'' 5 ''hi'')]"
    using log_lines_printed_once [OF run, of "\<lambda>m. []"]
    by (simp add: received_actions_def logged_def after_epoch_def lines_of_def millis_def)
  with run show ?thesis by blast
qed

end
