(* ===== verification/Pool.thy ===== *)
theory Pool
  imports Transition Config "HOL-Library.Sublist"
begin

text \<open>
  The thread pool of \<open>src/pool.rs\<close>: a channel of jobs, one worker thread per slot, and the
  drop of the pool, which sends one stop per worker and joins them. A task is opaque; a worker
  that runs one is done with it when it returns or panics (the panic is caught). The channel is
  a parameter, as are the core identifiers the crate \<open>core_affinity\<close> reports.
\<close>

section \<open>State\<close>

datatype 'f job = Task 'f | Stop_Job

datatype 'f pool_status = Idle_Thread | Runs 'f | Ended

record ('f, 'core) pool_worker =
  pw_name :: string
  pw_core :: "'core option"
  pw_status :: "'f pool_status"

text \<open>\<open>Open\<close> until the pool is dropped; \<open>Stopping k\<close> while \<open>k\<close> stops are to be sent; then \<open>Joining\<close>.\<close>

datatype pool_phase = Open | Stopping nat | Joining | Dropped

record ('f, 'core, 'q) pool =
  pl_phase :: pool_phase
  pl_jobs :: 'q
  pl_workers :: "('f, 'core) pool_worker list"
  pl_early :: "'f list"
  pl_submitted :: "'f list"
  pl_taken :: "'f list"

text \<open>
  The last three are ghosts: the tasks sent before the drop began, all tasks sent, and the tasks
  taken by the workers, each in order.
\<close>

definition new_worker :: "nat \<Rightarrow> 'core option \<Rightarrow> ('f, 'core) pool_worker" where
  "new_worker i core = \<lparr>pw_name = ''worker-'' @ show_nat i, pw_core = core, pw_status = Idle_Thread\<rparr>"

definition pool_new :: "'core list option \<Rightarrow> nat \<Rightarrow> 'q \<Rightarrow> ('f, 'core, 'q) pool outcome" where
  "pool_new cores slots jobs =
     and_then (unwrap cores) (\<lambda>core_ids.
       Ret \<lparr>pl_phase = Open, pl_jobs = jobs,
            pl_workers = map (\<lambda>i. new_worker i (if i < length core_ids then Some (core_ids ! i) else None)) [0..<slots],
            pl_early = [], pl_submitted = [], pl_taken = []\<rparr>)"

definition pool_for_config :: "'core list option \<Rightarrow> config \<Rightarrow> 'q \<Rightarrow> ('f, 'core, 'q) pool outcome" where
  "pool_for_config cores c jobs = pool_new cores (total_threads_required (cfg_scheduler c)) jobs"

definition pool_size :: "('f, 'core, 'q) pool \<Rightarrow> nat" where
  "pool_size p = length (pl_workers p)"

definition thread_lives :: "('f, 'core) pool_worker \<Rightarrow> bool" where
  "thread_lives w \<longleftrightarrow> pw_status w \<noteq> Ended"

section \<open>Operations and moves\<close>

text \<open>\<open>submit\<close>, and the closure \<open>link\<close> returns, which holds a sender of its own.\<close>

definition pool_submit :: "('f job, 'q) chan \<Rightarrow> 'f \<Rightarrow> ('f, 'core, 'q) pool \<Rightarrow> ('f, 'core, 'q) pool" where
  "pool_submit C f p =
     p\<lparr>pl_jobs := chan_send C (Task f) (pl_jobs p),
       pl_early := (if pl_phase p = Open then pl_early p @ [f] else pl_early p),
       pl_submitted := pl_submitted p @ [f]\<rparr>"

text \<open>\<open>Run::submit\<close> hands its closure to the pool the system runs on.\<close>

definition run_submit :: "('f job, 'q) chan \<Rightarrow> 'f \<Rightarrow> ('f, 'core, 'q) pool \<Rightarrow> ('f, 'core, 'q) pool" where
  "run_submit C f p = pool_submit C f p"

definition pool_run_job :: "'f job \<Rightarrow> nat \<Rightarrow> 'q \<Rightarrow> ('f, 'core, 'q) pool \<Rightarrow> ('f, 'core, 'q) pool" where
  "pool_run_job job i jobs p =
     (case job of
        Task f \<Rightarrow> p\<lparr>pl_jobs := jobs, pl_taken := pl_taken p @ [f],
                    pl_workers := (pl_workers p)[i := (pl_workers p ! i)\<lparr>pw_status := Runs f\<rparr>]\<rparr>
      | Stop_Job \<Rightarrow> p\<lparr>pl_jobs := jobs,
                      pl_workers := (pl_workers p)[i := (pl_workers p ! i)\<lparr>pw_status := Ended\<rparr>]\<rparr>)"

inductive pool_step ::
  "('f job, 'q) chan \<Rightarrow> ('f, 'core, 'q) pool \<Rightarrow> ('f, 'core, 'q) pool \<Rightarrow> bool" for C
where
  send_stop: "pl_phase p = Stopping (Suc k) \<Longrightarrow>
    pool_step C p (p\<lparr>pl_phase := Stopping k, pl_jobs := chan_send C Stop_Job (pl_jobs p)\<rparr>)"
| join: "pl_phase p = Stopping 0 \<Longrightarrow> pool_step C p (p\<lparr>pl_phase := Joining\<rparr>)"
| joined: "pl_phase p = Joining \<Longrightarrow> \<forall>w \<in> set (pl_workers p). \<not> thread_lives w \<Longrightarrow>
    pool_step C p (p\<lparr>pl_phase := Dropped\<rparr>)"
| recv_job: "i < length (pl_workers p) \<Longrightarrow> pw_status (pl_workers p ! i) = Idle_Thread \<Longrightarrow>
    chan_recv C (pl_jobs p) = Some (job, jobs) \<Longrightarrow> pool_step C p (pool_run_job job i jobs p)"
| task_over: "i < length (pl_workers p) \<Longrightarrow> pw_status (pl_workers p ! i) = Runs f \<Longrightarrow>
    pool_step C p (p\<lparr>pl_workers := (pl_workers p)[i := (pl_workers p ! i)\<lparr>pw_status := Idle_Thread\<rparr>]\<rparr>)"

text \<open>
  What the owner of the pool and the holders of links do. A send on a pool whose threads are all
  gone panics in the sender and changes nothing here.
\<close>

inductive pool_use ::
  "('f job, 'q) chan \<Rightarrow> ('f, 'core, 'q) pool \<Rightarrow> ('f, 'core, 'q) pool \<Rightarrow> bool" for C
where
  submit: "pl_phase p = Open \<Longrightarrow> pool_use C p (pool_submit C f p)"
| link: "\<exists>w \<in> set (pl_workers p). thread_lives w \<Longrightarrow> pool_use C p (pool_submit C f p)"
| drop_pool: "pl_phase p = Open \<Longrightarrow> pool_use C p (p\<lparr>pl_phase := Stopping (length (pl_workers p))\<rparr>)"

section \<open>The invariant\<close>

fun tasks_of :: "'f job list \<Rightarrow> 'f list" where
  "tasks_of [] = []"
| "tasks_of (Task f # jobs) = f # tasks_of jobs"
| "tasks_of (Stop_Job # jobs) = tasks_of jobs"

lemma tasks_of_append [simp]: "tasks_of (xs @ ys) = tasks_of xs @ tasks_of ys"
  by (induction xs rule: tasks_of.induct) simp_all

definition is_stop :: "'f job \<Rightarrow> bool" where
  "is_stop job = (case job of Stop_Job \<Rightarrow> True | Task f \<Rightarrow> False)"

lemma is_stop_simps [simp]: "is_stop Stop_Job" "\<not> is_stop (Task f)"
  by (simp_all add: is_stop_def)

definition stops_left :: "('f, 'core, 'q) pool \<Rightarrow> nat" where
  "stops_left p = (case pl_phase p of Open \<Rightarrow> length (pl_workers p) | Stopping k \<Rightarrow> k | _ \<Rightarrow> 0)"

text \<open>
  Every thread alive has a stop of its own to come; the tasks come out in the order they went in;
  those sent before the drop are in front of every stop.
\<close>

definition pool_ok :: "('q \<Rightarrow> 'f job list) \<Rightarrow> ('f, 'core, 'q) pool \<Rightarrow> bool" where
  "pool_ok content p \<longleftrightarrow>
     length (filter thread_lives (pl_workers p)) = stops_left p + length (filter is_stop (content (pl_jobs p))) \<and>
     pl_taken p @ tasks_of (content (pl_jobs p)) = pl_submitted p \<and>
     prefix (pl_early p) (pl_submitted p) \<and>
     (pl_phase p = Open \<longrightarrow> pl_early p = pl_submitted p) \<and>
     (length (pl_taken p) \<le> length (pl_early p) \<longrightarrow>
        prefix (map Task (drop (length (pl_taken p)) (pl_early p))) (content (pl_jobs p))) \<and>
     (length (pl_taken p) < length (pl_early p) \<longrightarrow> (\<forall>w \<in> set (pl_workers p). thread_lives w)) \<and>
     (pl_phase p = Dropped \<longrightarrow> (\<forall>w \<in> set (pl_workers p). \<not> thread_lives w))"

lemma pool_ok_stops:
  "pool_ok content p \<Longrightarrow>
   length (filter thread_lives (pl_workers p)) = stops_left p + length (filter is_stop (content (pl_jobs p)))"
  unfolding pool_ok_def by blast

lemma pool_ok_order: "pool_ok content p \<Longrightarrow> pl_taken p @ tasks_of (content (pl_jobs p)) = pl_submitted p"
  unfolding pool_ok_def by blast

lemma pool_ok_dropped: "pool_ok content p \<Longrightarrow> pl_phase p = Dropped \<Longrightarrow> w \<in> set (pl_workers p) \<Longrightarrow> \<not> thread_lives w"
  unfolding pool_ok_def by blast

text \<open>Moves that add jobs other than tasks and leave the tasks alone.\<close>

lemma pool_ok_frame:
  assumes "pool_ok content p"
    and "pl_taken q = pl_taken p" "pl_submitted q = pl_submitted p" "pl_early q = pl_early p"
    and "content (pl_jobs q) = content (pl_jobs p) @ stops" "tasks_of stops = []"
    and "pl_phase q = Open \<Longrightarrow> pl_phase p = Open"
    and "length (filter thread_lives (pl_workers q)) + stops_left p =
      length (filter thread_lives (pl_workers p)) + stops_left q + length (filter is_stop stops)"
    and "\<forall>w \<in> set (pl_workers p). thread_lives w \<Longrightarrow> \<forall>w \<in> set (pl_workers q). thread_lives w"
    and "pl_phase q = Dropped \<Longrightarrow> \<forall>w \<in> set (pl_workers q). \<not> thread_lives w"
  shows "pool_ok content q"
proof -
  have "length (filter thread_lives (pl_workers q)) = stops_left q + length (filter is_stop (content (pl_jobs q)))"
    using pool_ok_stops [OF assms(1)] assms(5,8) by simp
  moreover have "prefix fs (content (pl_jobs p)) \<Longrightarrow> prefix fs (content (pl_jobs q))" for fs
    using assms(5) by simp
  moreover have "tasks_of (content (pl_jobs q)) = tasks_of (content (pl_jobs p))"
    using assms(5,6) by simp
  ultimately show ?thesis
    using assms(1,7,9,10) unfolding pool_ok_def assms(2-4) by auto
qed

lemma tasks_of_map [simp]: "tasks_of (map Task fs) = fs"
  by (induction fs) simp_all

lemma filter_lives_update:
  assumes "i < length ws" "thread_lives (ws ! i)"
  shows "length (filter thread_lives (ws[i := w])) =
    (if thread_lives w then length (filter thread_lives ws) else length (filter thread_lives ws) - 1)"
    and "thread_lives w \<Longrightarrow> \<forall>w \<in> set ws. thread_lives w \<Longrightarrow> \<forall>w \<in> set (ws[i := w]). thread_lives w"
    and "0 < length (filter thread_lives ws)"
  using assms
proof -
  have "length (filter thread_lives (ws[i := w])) + 1 =
      length (filter thread_lives ws) + (if thread_lives w then 1 else 0)"
    using assms
  proof (induction ws arbitrary: i)
    case (Cons v ws)
    then show ?case by (cases i) auto
  qed simp
  then show "length (filter thread_lives (ws[i := w])) =
    (if thread_lives w then length (filter thread_lives ws) else length (filter thread_lives ws) - 1)"
    by (simp split: if_splits)
  show "0 < length (filter thread_lives ws)"
    using assms by (auto simp: length_greater_0_conv filter_empty_conv)
qed (use set_update_subset_insert in fast)

lemma pool_new_ok:
  assumes "pool_new cores slots jobs = Ret p" "content jobs = []"
  shows "pool_ok content p" "pl_phase p = Open" "pool_size p = slots"
  using assms
  by (auto simp: pool_new_def pool_ok_def stops_left_def pool_size_def thread_lives_def new_worker_def
      filter_id_conv)

lemma no_stops: "filter is_stop jobs = [] \<Longrightarrow> map Task (tasks_of jobs) = jobs"
  by (induction jobs rule: tasks_of.induct) simp_all

lemma open_pool:
  assumes "pool_ok content p" "pl_phase p = Open"
  shows "map Task (tasks_of (content (pl_jobs p))) = content (pl_jobs p)"
proof (rule no_stops)
  have "length (filter thread_lives (pl_workers p)) \<le> length (pl_workers p)" by simp
  moreover have "length (filter thread_lives (pl_workers p)) =
      length (pl_workers p) + length (filter is_stop (content (pl_jobs p)))"
    using pool_ok_stops [OF assms(1)] assms(2) by (simp add: stops_left_def)
  ultimately have "length (filter is_stop (content (pl_jobs p))) = 0" by linarith
  then show "filter is_stop (content (pl_jobs p)) = []" by simp
qed

lemma pool_submit_ok:
  assumes C: "unbounded_channel C content" and p: "pool_ok content p"
  shows "pool_ok content (pool_submit C f p)"
proof (cases "pl_phase p = Open")
  case True
  let ?n = "length (pl_taken p)"
  from p have taken: "pl_taken p @ tasks_of (content (pl_jobs p)) = pl_submitted p" by (simp add: pool_ok_def)
  then have "drop ?n (pl_submitted p @ [f]) = tasks_of (content (pl_jobs p)) @ [f]"
    by (metis append_eq_conv_conj append_assoc)
  moreover have early: "pl_early p = pl_submitted p" using p True by (simp add: pool_ok_def)
  moreover have "\<forall>w \<in> set (pl_workers p). thread_lives w"
  proof -
    have "length (pl_workers p) \<le> length (filter thread_lives (pl_workers p))"
      using pool_ok_stops [OF p] True by (simp add: stops_left_def)
    then have "length (filter thread_lives (pl_workers p)) = length (pl_workers p)"
      by (simp add: le_antisym)
    then show ?thesis by (metis length_filter_less nat_neq_iff)
  qed
  ultimately show ?thesis
    using p True open_pool [OF p True] unbounded_channel.content_send [OF C]
    by (simp add: pool_ok_def pool_submit_def stops_left_def)
next
  case False
  with p unbounded_channel.content_send [OF C] show ?thesis
    by (simp add: pool_ok_def pool_submit_def stops_left_def split: pool_phase.splits)
qed

lemma pool_run_ok:
  assumes C: "unbounded_channel C content" and p: "pool_ok content p"
    and w: "i < length (pl_workers p)" "pw_status (pl_workers p ! i) = Idle_Thread"
    and recv: "chan_recv C (pl_jobs p) = Some (job, jobs)"
  shows "pool_ok content (pool_run_job job i jobs p)"
proof -
  have content: "content (pl_jobs p) = job # content jobs"
    using unbounded_channel.recv_Some [OF C recv] .
  have lives: "thread_lives (pl_workers p ! i)" using w(2) by (simp add: thread_lives_def)
  then have "pl_phase p \<noteq> Dropped" using pool_ok_dropped [OF p] w(1) nth_mem by blast
  note upd = filter_lives_update [OF w(1) lives]
  show ?thesis
  proof (cases job)
    case (Task f)
    let ?w = "(pl_workers p ! i)\<lparr>pw_status := Runs f\<rparr>"
    have "thread_lives ?w" by (simp add: thread_lives_def)
    moreover have "length (pl_taken p) < length (pl_early p) \<Longrightarrow>
      prefix (map Task (drop (Suc (length (pl_taken p))) (pl_early p))) (content jobs)"
      using p content by (auto simp: pool_ok_def Cons_nth_drop_Suc [symmetric])
    ultimately show ?thesis
      using p content upd(1,2) [of ?w] Task \<open>pl_phase p \<noteq> Dropped\<close>
      by (auto simp: pool_ok_def pool_run_job_def stops_left_def split: pool_phase.splits)
  next
    case Stop_Job
    let ?w = "(pl_workers p ! i)\<lparr>pw_status := Ended\<rparr>"
    have "\<not> thread_lives ?w" by (simp add: thread_lives_def)
    moreover have late: "\<not> length (pl_taken p) < length (pl_early p)"
    proof
      assume "length (pl_taken p) < length (pl_early p)"
      with p content Stop_Job show False
        by (auto simp: pool_ok_def Cons_nth_drop_Suc [symmetric])
    qed
    ultimately show ?thesis
      using p content upd(1) [of ?w] upd(3) Stop_Job \<open>pl_phase p \<noteq> Dropped\<close>
      by (auto simp: pool_ok_def pool_run_job_def stops_left_def split: pool_phase.splits)
  qed
qed

lemma pool_step_ok:
  assumes C: "unbounded_channel C content" and "pool_step C p q" "pool_ok content p"
  shows "pool_ok content q"
  using assms(2)
proof cases
  case (send_stop k)
  show ?thesis
    by (rule pool_ok_frame [OF assms(3), of _ "[Stop_Job]"])
      (simp_all add: send_stop stops_left_def unbounded_channel.content_send [OF C])
next
  case (recv_job i job jobs)
  then show ?thesis using pool_run_ok [OF C assms(3)] by blast
next
  case (task_over i f)
  let ?w = "(pl_workers p ! i)\<lparr>pw_status := Idle_Thread\<rparr>"
  have "thread_lives (pl_workers p ! i)" "thread_lives ?w" using task_over(3) by (simp_all add: thread_lives_def)
  note upd = filter_lives_update(1,2) [OF task_over(2) this(1), of ?w] this(2)
  have "stops_left q = stops_left p"
    unfolding task_over(1) by (simp add: stops_left_def split: pool_phase.split)
  moreover have "pl_phase p \<noteq> Dropped"
    using pool_ok_dropped [OF assms(3)] task_over(2) \<open>thread_lives (pl_workers p ! i)\<close> nth_mem by blast
  ultimately show ?thesis
    by (intro pool_ok_frame [OF assms(3), of _ "[]"]) (use upd in \<open>simp_all add: task_over(1)\<close>)
next
  case join
  show ?thesis by (rule pool_ok_frame [OF assms(3), of _ "[]"]) (simp_all add: join stops_left_def)
next
  case joined
  show ?thesis
    by (rule pool_ok_frame [OF assms(3), of _ "[]"]) (use joined in \<open>simp_all add: stops_left_def\<close>)
qed

lemma pool_use_ok:
  assumes C: "unbounded_channel C content" and "pool_use C p q" "pool_ok content p"
  shows "pool_ok content q"
  using assms(2)
proof cases
  case drop_pool
  show ?thesis by (rule pool_ok_frame [OF assms(3), of _ "[]"]) (simp_all add: drop_pool stops_left_def)
qed (use pool_submit_ok [OF C assms(3)] in simp_all)

definition pool_move :: "('f job, 'q) chan \<Rightarrow> ('f, 'core, 'q) pool \<Rightarrow> ('f, 'core, 'q) pool \<Rightarrow> bool" where
  "pool_move C p q \<longleftrightarrow> pool_step C p q \<or> pool_use C p q"

definition new_pool :: "('q \<Rightarrow> 'f job list) \<Rightarrow> nat \<Rightarrow> ('f, 'core, 'q) pool \<Rightarrow> bool" where
  "new_pool content slots p \<longleftrightarrow> (\<exists>cores jobs. content jobs = [] \<and> pool_new cores slots jobs = Ret p)"

interpretation pool_law:
  invariant_of "new_pool content slots" "pool_move C"
    "\<lambda>p. unbounded_channel C content \<longrightarrow> pool_ok content p" for C content slots
  by unfold_locales (auto simp: new_pool_def pool_move_def intro: pool_new_ok pool_step_ok pool_use_ok)

lemma pool_reachable:
  "unbounded_channel C content \<Longrightarrow> new_pool content slots p0 \<Longrightarrow> (pool_move C)\<^sup>*\<^sup>* p0 p \<Longrightarrow> pool_ok content p"
  using pool_law.reachable_inv by blast

lemma pool_workers_const:
  assumes "(pool_move C)\<^sup>*\<^sup>* p q"
  shows "length (pl_workers q) = length (pl_workers p)"
  using assms
proof (induction rule: rtranclp_induct)
  case (step q r)
  then show ?case
    by (auto simp: pool_move_def pool_submit_def pool_run_job_def split: job.splits
        elim!: pool_step.cases pool_use.cases)
qed simp

section \<open>A concrete pool\<close>

definition demo_pool :: "(nat, nat, nat job list) pool" where
  "demo_pool = \<lparr>pl_phase = Open, pl_jobs = [], pl_workers = [new_worker 0 (Some 5)],
     pl_early = [], pl_submitted = [], pl_taken = []\<rparr>"

lemma demo_pool_new: "new_pool (\<lambda>q. q) 1 demo_pool"
  unfolding new_pool_def
  by (intro exI [of _ "Some [5]"] exI [of _ "[]"]) (simp add: pool_new_def demo_pool_def)

lemma eight_steps:
  "r p0 p1 \<Longrightarrow> r p1 p2 \<Longrightarrow> r p2 p3 \<Longrightarrow> r p3 p4 \<Longrightarrow> r p4 p5 \<Longrightarrow> r p5 p6 \<Longrightarrow> r p6 p7 \<Longrightarrow> r p7 p8 \<Longrightarrow> r\<^sup>*\<^sup>* p0 p8"
  by (meson converse_rtranclp_into_rtranclp rtranclp.rtrancl_refl)

text \<open>A task is submitted, the pool is dropped, the task is run, the thread is stopped and joined.\<close>

lemma demo_pool_run:
  "\<exists>p. (pool_move list_chan)\<^sup>*\<^sup>* demo_pool p \<and> pl_phase p = Dropped \<and> pl_early p = [42]"
proof -
  let ?p1 = "pool_submit list_chan 42 demo_pool"
  let ?p2 = "?p1\<lparr>pl_phase := Stopping (length (pl_workers ?p1))\<rparr>"
  let ?p3 = "?p2\<lparr>pl_phase := Stopping 0, pl_jobs := chan_send list_chan Stop_Job (pl_jobs ?p2)\<rparr>"
  let ?p4 = "?p3\<lparr>pl_phase := Joining\<rparr>"
  let ?p5 = "pool_run_job (Task 42) 0 [Stop_Job] ?p4"
  let ?p6 = "?p5\<lparr>pl_workers := (pl_workers ?p5)[0 := (pl_workers ?p5 ! 0)\<lparr>pw_status := Idle_Thread\<rparr>]\<rparr>"
  let ?p7 = "pool_run_job Stop_Job 0 [] ?p6"
  let ?p8 = "?p7\<lparr>pl_phase := Dropped\<rparr>"
  note run = demo_pool_def pool_submit_def pool_run_job_def new_worker_def
  have "pool_move list_chan demo_pool ?p1" "pool_move list_chan ?p1 ?p2"
    unfolding pool_move_def by (intro disjI2 pool_use.submit pool_use.drop_pool; simp add: run)+
  moreover have "pool_move list_chan ?p2 ?p3"
    unfolding pool_move_def by (intro disjI1 pool_step.send_stop) (simp add: run)
  moreover have "pool_move list_chan ?p3 ?p4"
    unfolding pool_move_def by (intro disjI1 pool_step.join) simp
  moreover have "pool_move list_chan ?p4 ?p5"
    unfolding pool_move_def by (intro disjI1 pool_step.recv_job) (simp_all add: run)
  moreover have "pool_move list_chan ?p5 ?p6"
    unfolding pool_move_def by (intro disjI1 pool_step.task_over [of _ _ 42]) (simp_all add: run)
  moreover have "pool_move list_chan ?p6 ?p7"
    unfolding pool_move_def by (intro disjI1 pool_step.recv_job) (simp_all add: run)
  moreover have "pool_move list_chan ?p7 ?p8"
    unfolding pool_move_def by (intro disjI1 pool_step.joined) (simp_all add: run thread_lives_def)
  ultimately have "(pool_move list_chan)\<^sup>*\<^sup>* demo_pool ?p8"
    by (rule eight_steps)
  moreover have "pl_phase ?p8 = Dropped \<and> pl_early ?p8 = [42]" by (simp add: run)
  ultimately show ?thesis by blast
qed

section \<open>Properties\<close>

text \<open>
  C25. A dropped pool has run everything it was given. Once \<open>drop\<close> has joined the threads of a pool of
  at least one thread, every task submitted before the drop began was taken by a worker exactly
  once and in submission order, before anything sent later through a link, and every thread has left its
  loop, so every task taken is over. Panicking tasks change nothing.
\<close>

theorem dropped_pool_ran_all:
  assumes "unbounded_channel C content" "new_pool content slots p0" "0 < slots"
    and "(pool_move C)\<^sup>*\<^sup>* p0 p" "pl_phase p = Dropped"
  shows "prefix (pl_early p) (pl_taken p) \<and> prefix (pl_taken p) (pl_submitted p) \<and>
    (\<forall>w \<in> set (pl_workers p). pw_status w = Ended)"
proof -
  have ok: "pool_ok content p" using pool_reachable assms(1,2,4) by blast
  have "length (pl_workers p0) = slots"
    using assms(2) by (auto simp: new_pool_def pool_new_def)
  with pool_workers_const [OF assms(4)] assms(3) have "pl_workers p \<noteq> []" by auto
  then obtain w where "w \<in> set (pl_workers p)" by (meson last_in_set)
  with pool_ok_dropped [OF ok assms(5)] have "\<not> (\<forall>w \<in> set (pl_workers p). thread_lives w)" by blast
  with ok have "length (pl_early p) \<le> length (pl_taken p)" unfolding pool_ok_def by (meson not_le)
  moreover have "prefix (pl_early p) (pl_submitted p)" using ok unfolding pool_ok_def by blast
  moreover have taken: "prefix (pl_taken p) (pl_submitted p)"
    using pool_ok_order [OF ok] by (metis prefixI)
  ultimately have "prefix (pl_early p) (pl_taken p)" by (meson prefix_length_prefix)
  with taken pool_ok_dropped [OF ok assms(5)] show ?thesis by (auto simp: thread_lives_def)
qed

theorem dropped_pool_ran_all_witness:
  "\<exists>p. (pool_move list_chan)\<^sup>*\<^sup>* demo_pool p \<and> pl_early p = [42] \<and> prefix [42] (pl_taken p)"
proof -
  obtain p where p: "(pool_move list_chan)\<^sup>*\<^sup>* demo_pool p" "pl_phase p = Dropped" "pl_early p = [42]"
    using demo_pool_run by blast
  from dropped_pool_ran_all [OF list_chan.unbounded_channel_axioms demo_pool_new _ p(1,2)] p show ?thesis
    by auto
qed

definition stop_order :: "('q \<Rightarrow> 'f job list) \<Rightarrow> (('f, 'core, 'q) pool \<times> ('f, 'core, 'q) pool) set" where
  "stop_order content =
     inv_image (less_than <*lex*> less_than)
       (\<lambda>p. ((case pl_phase p of Open \<Rightarrow> 0 | Stopping k \<Rightarrow> 2 * k + 2 | Joining \<Rightarrow> 1 | Dropped \<Rightarrow> 0)
               + length (content (pl_jobs p)),
             sum_list (map (\<lambda>w. if pw_status w = Idle_Thread then 0 else 1) (pl_workers p))))"

lemma wf_stop_order: "wf (stop_order content)"
  unfolding stop_order_def by (intro wf_inv_image wf_lex_prod wf_less_than)

lemma pool_step_decreases:
  assumes C: "unbounded_channel C content" and "pool_step C p q"
  shows "(q, p) \<in> stop_order content"
  using assms(2)
proof cases
  case (recv_job i job jobs)
  with unbounded_channel.recv_Some [OF C recv_job(4)] show ?thesis
    by (simp add: stop_order_def pool_run_job_def split: job.split pool_phase.split)
next
  case (task_over i f)
  let ?w = "(pl_workers p ! i)\<lparr>pw_status := Idle_Thread\<rparr>"
  let ?n = "\<lambda>w :: ('a, 'c) pool_worker. if pw_status w = Idle_Thread then 0 else 1 :: nat"
  from task_over(2,3) have "sum_list (map ?n ((pl_workers p)[i := ?w])) < sum_list (map ?n (pl_workers p))"
    using sum_list_map_update [of i "pl_workers p" ?n ?w] by simp
  with task_over show ?thesis by (simp add: stop_order_def split: pool_phase.split)
qed (simp_all add: stop_order_def unbounded_channel.content_send [OF C])

lemma pool_progress:
  assumes C: "unbounded_channel C content" and ok: "pool_ok content p" and "pl_phase p \<noteq> Open"
  shows "pl_phase p = Dropped \<or> (\<exists>q. pool_step C p q)"
proof (cases "pl_phase p")
  case (Stopping k)
  then show ?thesis by (cases k) (blast intro: pool_step.send_stop pool_step.join)+
next
  case Joining
  show ?thesis
  proof (cases "\<exists>w \<in> set (pl_workers p). thread_lives w")
    case False
    with Joining show ?thesis by (blast intro: pool_step.joined)
  next
    case True
    then obtain i where i: "i < length (pl_workers p)" "thread_lives (pl_workers p ! i)"
      by (metis in_set_conv_nth)
    show ?thesis
    proof (cases "pw_status (pl_workers p ! i)")
      case Idle_Thread
      have "content (pl_jobs p) \<noteq> []"
        using pool_ok_stops [OF ok] filter_lives_update(3) [OF i] Joining by (auto simp: stops_left_def)
      then obtain job jobs where "chan_recv C (pl_jobs p) = Some (job, jobs)"
        using unbounded_channel.recv_None [OF C, of "pl_jobs p"] by auto
      with i Idle_Thread show ?thesis by (blast intro: pool_step.recv_job)
    next
      case (Runs f)
      with i show ?thesis by (blast intro: pool_step.task_over)
    qed (use i in \<open>simp add: thread_lives_def\<close>)
  qed
qed (use assms(3) in simp_all)



end
