(* ===== verification/Bytes.thy ===== *)
theory Bytes
  imports Prelude
begin

text \<open>
  The byte containers of the third-party crates, hence parameters: \<open>BytesMut\<close> and \<open>Bytes\<close> of
  the crate \<open>bytes\<close>, which write and read integers in big-endian order, and
  \<open>ByteStream\<close> of the crate \<open>parsed\<close>, a bounded buffer that is filled at its end and read at a
  cursor. The locales say what the code relies on; a buffer that keeps the contract is given
  for each.
\<close>

section \<open>The writer: BytesMut\<close>

record 'b bytes_mut =
  bm_new :: 'b
  bm_with_capacity :: "nat \<Rightarrow> 'b"
  bm_put_u32 :: "u32 \<Rightarrow> 'b \<Rightarrow> 'b"
  bm_put_u16 :: "u16 \<Rightarrow> 'b \<Rightarrow> 'b"
  bm_put_u8 :: "byte \<Rightarrow> 'b \<Rightarrow> 'b"
  bm_put_u64 :: "u64 \<Rightarrow> 'b \<Rightarrow> 'b"
  bm_put :: "byte list \<Rightarrow> 'b \<Rightarrow> 'b"
  bm_freeze :: "'b \<Rightarrow> byte list"
  bm_split :: "'b \<Rightarrow> byte list"

locale big_endian_writer =
  fixes B :: "'b bytes_mut" and written :: "'b \<Rightarrow> byte list"
  assumes new: "written (bm_new B) = []"
    and with_capacity: "written (bm_with_capacity B n) = []"
    and put_u32: "written (bm_put_u32 B x b) = written b @ be 4 (unat x)"
    and put_u16: "written (bm_put_u16 B y b) = written b @ be 2 (unat y)"
    and put_u8: "written (bm_put_u8 B z b) = written b @ [z]"
    and put_u64: "written (bm_put_u64 B w b) = written b @ be 8 (unat w)"
    and put: "written (bm_put B bs b) = written b @ bs"
    and freeze: "bm_freeze B b = written b"
    and split: "bm_split B b = written b"

definition list_writer :: "byte list bytes_mut" where
  "list_writer =
     \<lparr>bm_new = [], bm_with_capacity = (\<lambda>n. []), bm_put_u32 = (\<lambda>x b. b @ be 4 (unat x)),
      bm_put_u16 = (\<lambda>y b. b @ be 2 (unat y)), bm_put_u8 = (\<lambda>z b. b @ [z]),
      bm_put_u64 = (\<lambda>w b. b @ be 8 (unat w)), bm_put = (\<lambda>bs b. b @ bs), bm_freeze = (\<lambda>b. b),
      bm_split = (\<lambda>b. b)\<rparr>"

interpretation list_writer: big_endian_writer list_writer "\<lambda>b. b"
  by unfold_locales (simp_all add: list_writer_def)

section \<open>The reader: Bytes\<close>

text \<open>The getters of the trait \<open>Buf\<close> panic when fewer bytes are left than they take.\<close>

record 'r bytes_buf =
  by_from_vec :: "byte list \<Rightarrow> 'r"
  by_get_u8 :: "'r \<Rightarrow> (byte \<times> 'r) outcome"
  by_get_u64 :: "'r \<Rightarrow> (u64 \<times> 'r) outcome"
  by_copy_to_bytes :: "nat \<Rightarrow> 'r \<Rightarrow> (byte list \<times> 'r) outcome"

text \<open>What taking \<open>n\<close> bytes off the front of \<open>bs\<close> does, as each getter has to do it.\<close>

definition takes :: "('r \<Rightarrow> byte list) \<Rightarrow> nat \<Rightarrow> (byte list \<Rightarrow> 'v) \<Rightarrow> 'r \<Rightarrow> ('v \<times> 'r) outcome \<Rightarrow> bool" where
  "takes remaining n val r out \<longleftrightarrow>
     (if length (remaining r) < n then out = Panic
      else \<exists>r'. out = Ret (val (take n (remaining r)), r') \<and> remaining r' = drop n (remaining r))"

locale big_endian_reader =
  fixes R :: "'r bytes_buf" and remaining :: "'r \<Rightarrow> byte list"
  assumes from_vec: "remaining (by_from_vec R bs) = bs"
    and get_u8: "takes remaining 1 (\<lambda>bs. word_of_nat (un_be bs)) r (by_get_u8 R r)"
    and get_u64: "takes remaining 8 (\<lambda>bs. word_of_nat (un_be bs)) r (by_get_u64 R r)"
    and copy_to_bytes: "takes remaining n (\<lambda>bs. bs) r (by_copy_to_bytes R n r)"
begin

lemma get_u8_Cons:
  assumes "remaining r = b # bs"
  obtains r' where "by_get_u8 R r = Ret (b, r')" "remaining r' = bs"
  using get_u8 [of r] assms that by (auto simp: takes_def un_be_def)

lemma get_u8_Nil: "remaining r = [] \<Longrightarrow> by_get_u8 R r = Panic"
  using get_u8 [of r] by (simp add: takes_def)

lemma get_u64_append:
  assumes "remaining r = be 8 (unat (x :: u64)) @ bs"
  obtains r' where "by_get_u64 R r = Ret (x, r')" "remaining r' = bs"
proof -
  have "unat x < 2 ^ 64" by (rule order.strict_trans2 [OF unsigned_less]) simp
  then show thesis using get_u64 [of r] assms that by (auto simp: takes_def)
qed

lemma get_u64_short: "length (remaining r) < 8 \<Longrightarrow> by_get_u64 R r = Panic"
  using get_u64 [of r] by (simp add: takes_def)

text \<open>Eight bytes are some number.\<close>

lemma get_u64_long:
  assumes "8 \<le> length (remaining r)"
  obtains r' x where "by_get_u64 R r = Ret (x, r')" "remaining r = be 8 (unat x) @ remaining r'"
proof -
  let ?front = "take 8 (remaining r)"
  have "un_be ?front < 2 ^ 64" using un_be_bound [of ?front] assms by simp
  then have "be 8 (unat (word_of_nat (un_be ?front) :: u64)) = ?front"
    using be_un_be [of ?front] assms by (simp add: unat_of_nat take_bit_nat_eq_self)
  moreover obtain r' where "by_get_u64 R r = Ret (word_of_nat (un_be ?front), r')"
    "remaining r' = drop 8 (remaining r)"
    using get_u64 [of r] assms by (auto simp: takes_def)
  ultimately show thesis using that by (metis append_take_drop_id)
qed

lemma copy_append:
  assumes "remaining r = bs @ rest" "length bs = n"
  obtains r' where "by_copy_to_bytes R n r = Ret (bs, r')" "remaining r' = rest"
  using copy_to_bytes [of n r] assms that by (auto simp: takes_def)

lemma copy_short: "length (remaining r) < n \<Longrightarrow> by_copy_to_bytes R n r = Panic"
  using copy_to_bytes [of n r] by (simp add: takes_def)

end

definition take_front :: "nat \<Rightarrow> (byte list \<Rightarrow> 'v) \<Rightarrow> byte list \<Rightarrow> ('v \<times> byte list) outcome" where
  "take_front n val bs = (if length bs < n then Panic else Ret (val (take n bs), drop n bs))"

definition list_reader :: "byte list bytes_buf" where
  "list_reader =
     \<lparr>by_from_vec = (\<lambda>bs. bs), by_get_u8 = take_front 1 (\<lambda>bs. word_of_nat (un_be bs)),
      by_get_u64 = take_front 8 (\<lambda>bs. word_of_nat (un_be bs)), by_copy_to_bytes = (\<lambda>n. take_front n (\<lambda>bs. bs))\<rparr>"

interpretation list_reader: big_endian_reader list_reader "\<lambda>bs. bs"
  by unfold_locales (simp_all add: list_reader_def take_front_def takes_def)

section \<open>The reader: ByteStream\<close>

text \<open>
  \<open>put\<close> returns the number of bytes taken; \<open>get\<close> and its kin move the cursor when enough bytes
  are there; \<open>pull\<close> forgets what is before the cursor; \<open>len\<close> counts everything not yet forgotten.
\<close>

record 's byte_stream =
  st_with_capacity :: "nat \<Rightarrow> 's"
  st_put :: "byte list \<Rightarrow> 's \<Rightarrow> nat \<times> 's"
  st_cap :: "'s \<Rightarrow> nat"
  st_len :: "'s \<Rightarrow> nat"
  st_get :: "nat \<Rightarrow> 's \<Rightarrow> byte list option \<times> 's"
  st_get_u32 :: "'s \<Rightarrow> u32 option \<times> 's"
  st_get_u16 :: "'s \<Rightarrow> u16 option \<times> 's"
  st_pull :: "'s \<Rightarrow> 's"
  st_clear :: "'s \<Rightarrow> 's"
  st_as_ref :: "'s \<Rightarrow> byte list"

locale stream_contract =
  fixes S :: "'s byte_stream" and buffered :: "'s \<Rightarrow> byte list" and cursor :: "'s \<Rightarrow> nat"
  assumes new: "buffered (st_with_capacity S n) = []" "cursor (st_with_capacity S n) = 0"
      "st_cap S (st_with_capacity S n) = n"
    and put: "length bs \<le> st_cap S s \<Longrightarrow> st_put S bs s = (k, s') \<Longrightarrow>
      k = length bs \<and> buffered s' = buffered s @ bs \<and> cursor s' = cursor s \<and>
      st_cap S s' = st_cap S s - length bs"
    and len: "st_len S s = length (buffered s)"
    and get: "cursor s + n \<le> length (buffered s) \<Longrightarrow> st_get S n s = (r, s') \<Longrightarrow>
      r = Some (take n (drop (cursor s) (buffered s))) \<and> buffered s' = buffered s \<and> cursor s' = cursor s + n"
    and get_u32: "cursor s + 4 \<le> length (buffered s) \<Longrightarrow> st_get_u32 S s = (r4, s') \<Longrightarrow>
      r4 = Some (word_of_nat (un_be (take 4 (drop (cursor s) (buffered s))))) \<and>
      buffered s' = buffered s \<and> cursor s' = cursor s + 4"
    and get_u16: "cursor s + 2 \<le> length (buffered s) \<Longrightarrow> st_get_u16 S s = (r2, s') \<Longrightarrow>
      r2 = Some (word_of_nat (un_be (take 2 (drop (cursor s) (buffered s))))) \<and>
      buffered s' = buffered s \<and> cursor s' = cursor s + 2"
    and pull: "buffered (st_pull S s) = drop (cursor s) (buffered s)" "cursor (st_pull S s) = 0"
    and clear: "buffered (st_clear S s) = []" "cursor (st_clear S s) = 0"
begin

text \<open>Reads, as what they make of the bytes after the cursor.\<close>

lemma get_next:
  assumes "drop (cursor s) (buffered s) = bs @ rest" "cursor s \<le> length (buffered s)" "length bs = n"
  obtains s' where "st_get S n s = (Some bs, s')" "buffered s' = buffered s" "cursor s' = cursor s + n"
    "drop (cursor s') (buffered s') = rest"
proof -
  have len: "cursor s + n \<le> length (buffered s)"
    using arg_cong [OF assms(1), of length] assms(2,3) by simp
  obtain r s' where r: "st_get S n s = (r, s')" by fastforce
  from get [OF len r] assms have "r = Some bs" "buffered s' = buffered s" "cursor s' = cursor s + n" by auto
  moreover have "drop (cursor s + n) (buffered s) = rest"
    using assms by (metis add.commute append_eq_conv_conj drop_drop)
  ultimately show thesis using that r by simp
qed

lemma get_u32_next:
  assumes "drop (cursor s) (buffered s) = be 4 x @ rest" "cursor s \<le> length (buffered s)" "x < 2 ^ 32"
  obtains s' where "st_get_u32 S s = (Some (word_of_nat x), s')" "buffered s' = buffered s"
    "cursor s' = cursor s + 4" "drop (cursor s') (buffered s') = rest"
proof -
  have len: "cursor s + 4 \<le> length (buffered s)"
    using arg_cong [OF assms(1), of length] assms(2) by simp
  obtain r s' where r: "st_get_u32 S s = (r, s')" by fastforce
  from get_u32 [OF len r] assms(1,3)
  have "r = Some (word_of_nat x)" "buffered s' = buffered s" "cursor s' = cursor s + 4" by auto
  moreover have "drop (cursor s + 4) (buffered s) = rest"
    using assms(1) by (metis add.commute append_eq_conv_conj drop_drop length_be)
  ultimately show thesis using that r by simp
qed

lemma get_u16_next:
  assumes "drop (cursor s) (buffered s) = be 2 x @ rest" "cursor s \<le> length (buffered s)" "x < 2 ^ 16"
  obtains s' where "st_get_u16 S s = (Some (word_of_nat x), s')" "buffered s' = buffered s"
    "cursor s' = cursor s + 2" "drop (cursor s') (buffered s') = rest"
proof -
  have len: "cursor s + 2 \<le> length (buffered s)"
    using arg_cong [OF assms(1), of length] assms(2) by simp
  obtain r s' where r: "st_get_u16 S s = (r, s')" by fastforce
  from get_u16 [OF len r] assms(1,3)
  have "r = Some (word_of_nat x)" "buffered s' = buffered s" "cursor s' = cursor s + 2" by auto
  moreover have "drop (cursor s + 2) (buffered s) = rest"
    using assms(1) by (metis add.commute append_eq_conv_conj drop_drop length_be)
  ultimately show thesis using that r by simp
qed

end

text \<open>A list with a cursor and a capacity keeps the contract.\<close>

record buffer =
  buf_bytes :: "byte list"
  buf_cursor :: nat
  buf_room :: nat

definition buffer_get :: "nat \<Rightarrow> buffer \<Rightarrow> byte list option \<times> buffer" where
  "buffer_get n s =
     (if buf_cursor s + n \<le> length (buf_bytes s)
      then (Some (take n (drop (buf_cursor s) (buf_bytes s))), s\<lparr>buf_cursor := buf_cursor s + n\<rparr>)
      else (None, s))"

definition buffer_stream :: "buffer byte_stream" where
  "buffer_stream =
     \<lparr>st_with_capacity = (\<lambda>n. \<lparr>buf_bytes = [], buf_cursor = 0, buf_room = n\<rparr>),
      st_put = (\<lambda>bs s. let k = min (length bs) (buf_room s)
                 in (k, s\<lparr>buf_bytes := buf_bytes s @ take k bs, buf_room := buf_room s - k\<rparr>)),
      st_cap = buf_room,
      st_len = (\<lambda>s. length (buf_bytes s)),
      st_get = buffer_get,
      st_get_u32 = (\<lambda>s. map_prod (map_option (\<lambda>bs. word_of_nat (un_be bs))) id (buffer_get 4 s)),
      st_get_u16 = (\<lambda>s. map_prod (map_option (\<lambda>bs. word_of_nat (un_be bs))) id (buffer_get 2 s)),
      st_pull = (\<lambda>s. s\<lparr>buf_bytes := drop (buf_cursor s) (buf_bytes s), buf_cursor := 0,
                       buf_room := buf_room s + min (buf_cursor s) (length (buf_bytes s))\<rparr>),
      st_clear = (\<lambda>s. s\<lparr>buf_bytes := [], buf_cursor := 0, buf_room := buf_room s + length (buf_bytes s)\<rparr>),
      st_as_ref = buf_bytes\<rparr>"

interpretation buffer_stream: stream_contract buffer_stream buf_bytes buf_cursor
  by unfold_locales (auto simp: buffer_stream_def buffer_get_def Let_def)

end
