(* ===== verification/Utf8.thy ===== *)
theory Utf8
  imports Prelude
begin

text \<open>
  \<open>String::from_utf8\<close> and \<open>str::as_bytes\<close>. A string is kept as its UTF-8 bytes, so the two are
  the change between \<open>char\<close> and \<open>byte\<close>; what \<open>from_utf8\<close> adds is the validation, written out here
  with the byte ranges of the Unicode standard (no overlong forms, no surrogates, at most U+10FFFF).
\<close>

definition byte_of :: "char \<Rightarrow> byte" where
  "byte_of c = word_of_nat (of_char c)"

definition char_of_byte :: "byte \<Rightarrow> char" where
  "char_of_byte b = char_of (unat b)"

definition as_bytes :: "string \<Rightarrow> byte list" where
  "as_bytes s = map byte_of s"

definition in_range :: "nat \<Rightarrow> nat \<Rightarrow> nat \<Rightarrow> bool" where
  "in_range lo hi b \<longleftrightarrow> lo \<le> b \<and> b \<le> hi"

definition tail_byte :: "nat \<Rightarrow> bool" where
  "tail_byte b \<longleftrightarrow> in_range 128 191 b"

text \<open>Whether bytes form one character of two, three or four bytes.\<close>

definition two_bytes :: "nat \<Rightarrow> nat \<Rightarrow> bool" where
  "two_bytes a b \<longleftrightarrow> in_range 194 223 a \<and> tail_byte b"

definition three_bytes :: "nat \<Rightarrow> nat \<Rightarrow> nat \<Rightarrow> bool" where
  "three_bytes a b c \<longleftrightarrow> tail_byte c \<and>
     (a = 224 \<and> in_range 160 191 b \<or> in_range 225 236 a \<and> tail_byte b \<or>
      a = 237 \<and> in_range 128 159 b \<or> in_range 238 239 a \<and> tail_byte b)"

definition four_bytes :: "nat \<Rightarrow> nat \<Rightarrow> nat \<Rightarrow> nat \<Rightarrow> bool" where
  "four_bytes a b c d \<longleftrightarrow> tail_byte c \<and> tail_byte d \<and>
     (a = 240 \<and> in_range 144 191 b \<or> in_range 241 243 a \<and> tail_byte b \<or> a = 244 \<and> in_range 128 143 b)"

fun utf8_valid :: "nat list \<Rightarrow> bool" where
  "utf8_valid [] = True"
| "utf8_valid (a # as) =
     (if a < 128 then utf8_valid as
      else case as of
             [] \<Rightarrow> False
           | b # bs \<Rightarrow>
               if two_bytes a b then utf8_valid bs
               else case bs of
                      [] \<Rightarrow> False
                    | c # cs \<Rightarrow>
                        if three_bytes a b c then utf8_valid cs
                        else case cs of
                               [] \<Rightarrow> False
                             | d # ds \<Rightarrow> four_bytes a b c d \<and> utf8_valid ds)"

definition is_utf8 :: "string \<Rightarrow> bool" where
  "is_utf8 s = utf8_valid (map of_char s)"

definition from_utf8 :: "byte list \<Rightarrow> string option" where
  "from_utf8 bs = (if utf8_valid (map unat bs) then Some (map char_of_byte bs) else None)"

lemma unat_byte_of [simp]: "unat (byte_of c) = of_char c"
proof -
  have "(of_char c :: nat) < 256" by (metis nat_of_char_less_256)
  then show ?thesis by (simp add: byte_of_def unat_byte_of_nat)
qed

lemma char_of_byte_of [simp]: "char_of_byte (byte_of c) = c"
  by (simp add: char_of_byte_def)

lemma of_char_of_byte [simp]: "of_char (char_of_byte b) = unat b"
proof -
  have "unat b < 256" by (rule order.strict_trans2 [OF unsigned_less]) simp
  then show ?thesis by (simp add: char_of_byte_def)
qed

lemma byte_of_char_of_byte [simp]: "byte_of (char_of_byte b) = b"
  by (simp add: byte_of_def)

lemma length_as_bytes [simp]: "length (as_bytes s) = length s"
  by (simp add: as_bytes_def)

lemma from_utf8_as_bytes: "from_utf8 (as_bytes s) = (if is_utf8 s then Some s else None)"
  by (simp add: from_utf8_def as_bytes_def is_utf8_def comp_def)

lemma from_utf8_Some: "from_utf8 bs = Some s \<Longrightarrow> as_bytes s = bs \<and> is_utf8 s"
  by (auto simp: from_utf8_def as_bytes_def is_utf8_def comp_def split: if_splits)

lemma ascii_valid: "\<forall>c \<in> set s. (of_char c :: nat) < 128 \<Longrightarrow> is_utf8 s"
  unfolding is_utf8_def by (induction s) simp_all

lemma ascii_append: "\<forall>b \<in> set as. b < 128 \<Longrightarrow> utf8_valid (as @ bs) = utf8_valid bs"
  by (induction as) simp_all

end
