(* ===== verification/Packet.thy ===== *)
theory Packet
  imports Bytes Utf8
begin

text \<open>
  The wire format of \<open>src/remote/packet.rs\<close>: a header of three 32-bit lengths and a port, then
  the two addresses and the payload. \<open>frame\<close> is the format as a byte sequence; \<open>packet_to_bytes\<close>
  writes it through a \<open>BytesMut\<close>, \<open>packet_from_bytes\<close> reads it off a \<open>ByteStream\<close>. The lemmas
  say what the parser does with every content of the stream: waits, refuses, panics or accepts, and
  that it accepts exactly the frames.
\<close>

section \<open>Packets and their bytes\<close>

record packet =
  pkt_to :: string
  pkt_from :: string
  pkt_payload :: "byte list"
  pkt_port :: u16

definition packet_new :: "string \<Rightarrow> string \<Rightarrow> byte list \<Rightarrow> u16 \<Rightarrow> packet" where
  "packet_new to from payload port =
     \<lparr>pkt_to = to, pkt_from = from, pkt_payload = payload, pkt_port = port\<rparr>"

lemma packet_new_eta [simp]: "packet_new (pkt_to p) (pkt_from p) (pkt_payload p) (pkt_port p) = p"
  by (simp add: packet_new_def)

text \<open>\<open>3 * size_of::<u32>() + size_of::<u16>()\<close>\<close>

definition header_size :: nat where
  "header_size = 3 * 4 + 2"

definition packet_to_bytes :: "'b bytes_mut \<Rightarrow> packet \<Rightarrow> byte list" where
  "packet_to_bytes B p =
     (let cap = header_size + length (pkt_payload p) + length (pkt_to p) + length (pkt_from p);
          b0 = bm_with_capacity B cap;
          b1 = bm_put_u32 B (word_of_nat (length (pkt_to p))) b0;
          b2 = bm_put_u32 B (word_of_nat (length (pkt_from p))) b1;
          b3 = bm_put_u32 B (word_of_nat (length (pkt_payload p))) b2;
          b4 = bm_put_u16 B (pkt_port p) b3;
          b5 = bm_put B (as_bytes (pkt_to p)) b4;
          b6 = bm_put B (as_bytes (pkt_from p)) b5;
          b7 = bm_put B (pkt_payload p) b6
      in bm_freeze B b7)"

section \<open>Parsing\<close>

text \<open>The four reads of the header, each followed by its \<open>unwrap\<close>.\<close>

definition get_header :: "'s byte_stream \<Rightarrow> 's \<Rightarrow> ((nat \<times> nat \<times> nat \<times> u16) \<times> 's) outcome" where
  "get_header S s =
     (let (a, s1) = st_get_u32 S s in and_then (unwrap a) (\<lambda>to_len.
      let (b, s2) = st_get_u32 S s1 in and_then (unwrap b) (\<lambda>from_len.
      let (c, s3) = st_get_u32 S s2 in and_then (unwrap c) (\<lambda>payload_len.
      let (d, s4) = st_get_u16 S s3 in and_then (unwrap d) (\<lambda>port.
        Ret ((unat to_len, unat from_len, unat payload_len, port), s4))))))"

text \<open>\<open>String::from_utf8(stream.get(n).unwrap()).unwrap()\<close>\<close>

definition get_string :: "'s byte_stream \<Rightarrow> nat \<Rightarrow> 's \<Rightarrow> (string \<times> 's) outcome" where
  "get_string S n s =
     (let (bs, s') = st_get S n s
      in and_then (unwrap bs) (\<lambda>bs. and_then (unwrap (from_utf8 bs)) (\<lambda>str. Ret (str, s'))))"

text \<open>\<open>Result<Option<Packet>, ()>\<close> and the stream as it is left, or a panic.\<close>

definition packet_from_bytes ::
  "'s byte_stream \<Rightarrow> nat \<Rightarrow> 's \<Rightarrow> ((unit + packet option) \<times> 's) outcome"
where
  "packet_from_bytes S limit s =
     (if st_len S s \<le> header_size then Ret (Inr None, s)
      else and_then (get_header S s) (\<lambda>((to_len, from_len, payload_len, port), s1).
        let total = header_size + to_len + from_len + payload_len
        in if limit < total then Ret (Inl (), s1)
           else if st_len S s1 < total then Ret (Inr None, s1)
           else and_then (get_string S to_len s1) (\<lambda>(to, s2).
                and_then (get_string S from_len s2) (\<lambda>(from, s3).
                let (bs, s4) = st_get S payload_len s3
                in and_then (unwrap bs) (\<lambda>payload.
                     Ret (Inr (Some (packet_new to from payload port)), st_pull S s4))))))"

section \<open>The format\<close>

definition header :: "nat \<Rightarrow> nat \<Rightarrow> nat \<Rightarrow> u16 \<Rightarrow> byte list" where
  "header a b c port = be 4 a @ be 4 b @ be 4 c @ be 2 (unat port)"

definition frame :: "packet \<Rightarrow> byte list" where
  "frame p =
     header (length (pkt_to p)) (length (pkt_from p)) (length (pkt_payload p)) (pkt_port p)
     @ as_bytes (pkt_to p) @ as_bytes (pkt_from p) @ pkt_payload p"

text \<open>The lengths a header can carry, and the addresses a Rust \<open>String\<close> can hold.\<close>

definition sendable :: "packet \<Rightarrow> bool" where
  "sendable p \<longleftrightarrow>
     length (pkt_to p) < 2 ^ 32 \<and> length (pkt_from p) < 2 ^ 32 \<and> length (pkt_payload p) < 2 ^ 32 \<and>
     is_utf8 (pkt_to p) \<and> is_utf8 (pkt_from p)"

definition frame_size :: "packet \<Rightarrow> nat" where
  "frame_size p = header_size + length (pkt_to p) + length (pkt_from p) + length (pkt_payload p)"

lemma length_header [simp]: "length (header a b c port) = header_size"
  by (simp add: header_def header_size_def)

lemma length_frame: "length (frame p) = frame_size p"
  by (simp add: frame_def frame_size_def)

lemma be4_word [simp]: "be 4 (unat (word_of_nat n :: u32)) = be 4 n"
proof -
  have "be 4 (n mod 256 ^ 4) = be 4 n"
  proof -
    have "un_be (be 4 n) = n mod 256 ^ 4" by simp
    then show ?thesis using be_un_be [of "be 4 n"] by simp
  qed
  moreover have "unat (word_of_nat n :: u32) = n mod 256 ^ 4" by (simp add: unat_of_nat)
  ultimately show ?thesis by simp
qed

lemma packet_to_bytes_frame [wire_simps]:
  assumes "big_endian_writer B written"
  shows "packet_to_bytes B p = frame p"
  unfolding packet_to_bytes_def frame_def header_def Let_def
  by (simp add: big_endian_writer.freeze [OF assms] big_endian_writer.put [OF assms]
      big_endian_writer.put_u16 [OF assms] big_endian_writer.put_u32 [OF assms]
      big_endian_writer.with_capacity [OF assms])

text \<open>Every stream long enough begins with a header.\<close>

lemma some_header:
  assumes "header_size \<le> length bs"
  obtains a b c port where "bs = header a b c port @ drop header_size bs"
    "a < 2 ^ 32" "b < 2 ^ 32" "c < 2 ^ 32"
proof -
  have bound: "un_be xs < 2 ^ 32" if "length xs = 4" for xs using un_be_bound [of xs] that by simp
  let ?a = "take 4 bs" and ?b = "take 4 (drop 4 bs)" and ?c = "take 4 (drop 8 bs)"
  let ?d = "take 2 (drop 12 bs)"
  have len: "length ?a = 4" "length ?b = 4" "length ?c = 4" "length ?d = 2"
    using assms by (simp_all add: header_size_def)
  have "un_be ?d < 2 ^ 16" using un_be_bound [of ?d] len(4) by simp
  then have "be 2 (unat (word_of_nat (un_be ?d) :: u16)) = ?d"
    using be_un_be [of ?d] len(4) by (simp add: unat_of_nat take_bit_nat_eq_self)
  moreover have "be 4 (un_be ?a) = ?a" "be 4 (un_be ?b) = ?b" "be 4 (un_be ?c) = ?c"
    using be_un_be [of ?a] be_un_be [of ?b] be_un_be [of ?c] len by simp_all
  moreover have "bs = ?a @ ?b @ ?c @ ?d @ drop header_size bs"
    by (simp add: header_size_def append_assoc [symmetric] take_add [symmetric] del: append_assoc)
  ultimately have "bs = header (un_be ?a) (un_be ?b) (un_be ?c) (word_of_nat (un_be ?d)) @ drop header_size bs"
    by (simp add: header_def)
  with that bound len show thesis by blast
qed

section \<open>What the parser does with a stream\<close>

context stream_contract
begin

lemma get_header_ok:
  assumes "cursor s = 0" "buffered s = header a b c port @ body" "a < 2 ^ 32" "b < 2 ^ 32" "c < 2 ^ 32"
  obtains s' where "get_header S s = Ret ((a, b, c, port), s')" "buffered s' = buffered s"
    "cursor s' = header_size" "drop (cursor s') (buffered s') = body"
proof -
  have "drop (cursor s) (buffered s) = be 4 a @ (be 4 b @ be 4 c @ be 2 (unat port) @ body)"
    using assms(1,2) by (simp add: header_def)
  moreover have "cursor s \<le> length (buffered s)" using assms(1) by simp
  ultimately obtain s1 where s1: "st_get_u32 S s = (Some (word_of_nat a), s1)" "buffered s1 = buffered s"
    "cursor s1 = cursor s + 4" "drop (cursor s1) (buffered s1) = be 4 b @ be 4 c @ be 2 (unat port) @ body"
    using assms(3) by (rule get_u32_next)
  have len: "length (buffered s) = header_size + length body" using assms(2) by simp
  then have "cursor s1 \<le> length (buffered s1)" using s1 assms(1) by (simp add: header_size_def)
  with s1(4) obtain s2 where s2: "st_get_u32 S s1 = (Some (word_of_nat b), s2)" "buffered s2 = buffered s1"
    "cursor s2 = cursor s1 + 4" "drop (cursor s2) (buffered s2) = be 4 c @ be 2 (unat port) @ body"
    using assms(4) by (rule get_u32_next)
  then have "cursor s2 \<le> length (buffered s2)" using len s1 assms(1) by (simp add: header_size_def)
  with s2(4) obtain s3 where s3: "st_get_u32 S s2 = (Some (word_of_nat c), s3)" "buffered s3 = buffered s2"
    "cursor s3 = cursor s2 + 4" "drop (cursor s3) (buffered s3) = be 2 (unat port) @ body"
    using assms(5) by (rule get_u32_next)
  then have c3: "cursor s3 \<le> length (buffered s3)" using len s1 s2 assms(1) by (simp add: header_size_def)
  have "unat port < 2 ^ 16" by (rule order.strict_trans2 [OF unsigned_less]) simp
  with s3(4) c3 obtain s4 where s4: "st_get_u16 S s3 = (Some (word_of_nat (unat port)), s4)"
    "buffered s4 = buffered s3" "cursor s4 = cursor s3 + 2" "drop (cursor s4) (buffered s4) = body"
    by (rule get_u16_next)
  have "get_header S s = Ret ((a, b, c, port), s4)"
    using s1(1) s2(1) s3(1) s4(1) assms(3-5)
    by (simp add: get_header_def unat_of_nat take_bit_nat_eq_self)
  moreover have "cursor s4 = header_size" using s1(3) s2(3) s3(3) s4(3) assms(1) by (simp add: header_size_def)
  moreover have "buffered s4 = buffered s" using s1(2) s2(2) s3(2) s4(2) by simp
  ultimately show thesis using that s4(4) by blast
qed

lemma get_string_ok:
  assumes "drop (cursor s) (buffered s) = bs @ rest" "cursor s \<le> length (buffered s)" "length bs = n"
  shows "case from_utf8 bs of
      None \<Rightarrow> get_string S n s = Panic
    | Some str \<Rightarrow> \<exists>s'. get_string S n s = Ret (str, s') \<and> buffered s' = buffered s \<and>
        cursor s' = cursor s + n \<and> drop (cursor s') (buffered s') = rest"
proof -
  obtain s' where "st_get S n s = (Some bs, s')" "buffered s' = buffered s" "cursor s' = cursor s + n"
    "drop (cursor s') (buffered s') = rest"
    using get_next [OF assms] by blast
  then show ?thesis by (cases "from_utf8 bs") (simp_all add: get_string_def)
qed

lemma from_bytes_short: "length (buffered s) \<le> header_size \<Longrightarrow> packet_from_bytes S limit s = Ret (Inr None, s)"
  by (simp add: packet_from_bytes_def len)

lemma from_bytes_header:
  assumes "cursor s = 0" "buffered s = header a b c port @ body" "a < 2 ^ 32" "b < 2 ^ 32" "c < 2 ^ 32"
    and "body \<noteq> []"
  shows "limit < header_size + a + b + c \<Longrightarrow> \<exists>s'. packet_from_bytes S limit s = Ret (Inl (), s')"
    and "header_size + a + b + c \<le> limit \<Longrightarrow> length body < a + b + c \<Longrightarrow>
      \<exists>s'. packet_from_bytes S limit s = Ret (Inr None, s') \<and> buffered s' = buffered s \<and>
        cursor s' = header_size"
proof -
  obtain s1 where h: "get_header S s = Ret ((a, b, c, port), s1)" "buffered s1 = buffered s"
    "cursor s1 = header_size"
    using get_header_ok [OF assms(1-5)] by blast
  have long: "\<not> st_len S s \<le> header_size" using assms(2,6) by (simp add: len)
  show "\<exists>s'. packet_from_bytes S limit s = Ret (Inl (), s')" if "limit < header_size + a + b + c"
    using long h that by (simp add: packet_from_bytes_def)
  show "\<exists>s'. packet_from_bytes S limit s = Ret (Inr None, s') \<and> buffered s' = buffered s \<and>
      cursor s' = header_size"
    if "header_size + a + b + c \<le> limit" "length body < a + b + c"
    using long h that assms(2) by (simp add: packet_from_bytes_def len)
qed

lemma from_bytes_complete:
  assumes "cursor s = 0" "buffered s = header a b c port @ tb @ fb @ pb @ rest"
    "a < 2 ^ 32" "b < 2 ^ 32" "c < 2 ^ 32" "length tb = a" "length fb = b" "length pb = c"
    and "0 < a + b + c + length rest" "header_size + a + b + c \<le> limit"
  shows "case (from_utf8 tb, from_utf8 fb) of
      (Some to, Some from) \<Rightarrow> \<exists>s'. packet_from_bytes S limit s =
          Ret (Inr (Some (packet_new to from pb port)), s') \<and> buffered s' = rest \<and> cursor s' = 0
    | _ \<Rightarrow> packet_from_bytes S limit s = Panic"
proof -
  obtain s1 where h: "get_header S s = Ret ((a, b, c, port), s1)" "buffered s1 = buffered s"
    "cursor s1 = header_size" "drop (cursor s1) (buffered s1) = tb @ fb @ pb @ rest"
    using get_header_ok [OF assms(1-5)] by blast
  have size: "length (buffered s) = header_size + a + b + c + length rest"
    using assms(2,6-8) by simp
  have long: "\<not> length (buffered s) \<le> header_size" using size assms(9) by linarith
  have run: "packet_from_bytes S limit s =
      and_then (get_string S a s1) (\<lambda>(to, s2). and_then (get_string S b s2) (\<lambda>(from, s3).
        let (bs, s4) = st_get S c s3 in and_then (unwrap bs) (\<lambda>payload.
          Ret (Inr (Some (packet_new to from payload port)), st_pull S s4))))"
    using h size assms(10) long by (auto simp: packet_from_bytes_def len)
  have c1: "cursor s1 \<le> length (buffered s1)" using h size by simp
  note to = get_string_ok [OF h(4) c1 assms(6)]
  show ?thesis
  proof (cases "from_utf8 tb")
    case None
    with to run show ?thesis by simp
  next
    case to_str: (Some to_str)
    with to obtain s2 where s2: "get_string S a s1 = Ret (to_str, s2)" "buffered s2 = buffered s"
      "cursor s2 = header_size + a" "drop (cursor s2) (buffered s2) = fb @ pb @ rest"
      using h by auto
    have c2: "cursor s2 \<le> length (buffered s2)" using s2 size by simp
    note from_to = get_string_ok [OF s2(4) c2 assms(7)]
    show ?thesis
    proof (cases "from_utf8 fb")
      case None
      with from_to run s2 to_str show ?thesis by simp
    next
      case from_str: (Some from_str)
      with from_to obtain s3 where s3: "get_string S b s2 = Ret (from_str, s3)" "buffered s3 = buffered s"
        "cursor s3 = header_size + a + b" "drop (cursor s3) (buffered s3) = pb @ rest"
        using s2 by auto
      have c3: "cursor s3 \<le> length (buffered s3)" using s3 size by simp
      obtain s4 where s4: "st_get S c s3 = (Some pb, s4)" "buffered s4 = buffered s3"
        "cursor s4 = cursor s3 + c" "drop (cursor s4) (buffered s4) = rest"
        using get_next [OF s3(4) c3 assms(8)] by blast
      with run s2(1) s3(1) to_str from_str pull [of s4] show ?thesis by simp
    qed
  qed
qed

lemma from_bytes_frame:
  assumes "cursor s = 0" "buffered s = frame p @ rest" "sendable p" "frame_size p \<le> limit"
    and "header_size < length (buffered s)"
  shows "\<exists>s'. packet_from_bytes S limit s = Ret (Inr (Some p), s') \<and> buffered s' = rest \<and> cursor s' = 0"
proof -
  have "0 < length (pkt_to p) + length (pkt_from p) + length (pkt_payload p) + length rest"
    using assms(2,5) by (simp add: length_frame frame_size_def)
  with from_bytes_complete [of s "length (pkt_to p)" "length (pkt_from p)" "length (pkt_payload p)" "pkt_port p"
      "as_bytes (pkt_to p)" "as_bytes (pkt_from p)" "pkt_payload p" rest limit] assms(1-4)
  show ?thesis
    by (simp add: frame_def frame_size_def sendable_def from_utf8_as_bytes)
qed

text \<open>
  Every stream that holds more than a header falls in one of three cases: too large, not yet
  complete, complete.
\<close>

lemma stream_cases:
  assumes "cursor s = 0" "header_size < length (buffered s)"
  obtains
    (too_large) a b c port body where "buffered s = header a b c port @ body" "limit < header_size + a + b + c"
      "\<exists>s'. packet_from_bytes S limit s = Ret (Inl (), s')"
  | (partial) a b c port body where "buffered s = header a b c port @ body" "header_size + a + b + c \<le> limit"
      "length body < a + b + c"
      "\<exists>s'. packet_from_bytes S limit s = Ret (Inr None, s') \<and> buffered s' = buffered s \<and>
        cursor s' = header_size"
  | (complete) a b c port tb fb pb rest where "buffered s = header a b c port @ tb @ fb @ pb @ rest"
      "a < 2 ^ 32" "b < 2 ^ 32" "c < 2 ^ 32" "length tb = a" "length fb = b" "length pb = c"
      "0 < a + b + c + length rest" "header_size + a + b + c \<le> limit"
proof -
  obtain a b c port where h: "buffered s = header a b c port @ drop header_size (buffered s)"
    and bounds: "a < 2 ^ 32" "b < 2 ^ 32" "c < 2 ^ 32"
    by (rule some_header [OF less_imp_le [OF assms(2)]])
  let ?body = "drop header_size (buffered s)"
  have "?body \<noteq> []" using assms(2) by simp
  note head = from_bytes_header [OF assms(1) h bounds this, of limit]
  consider "limit < header_size + a + b + c" | "header_size + a + b + c \<le> limit" "length ?body < a + b + c"
    | "header_size + a + b + c \<le> limit" "a + b + c \<le> length ?body" by linarith
  then show thesis
  proof cases
    case 1
    then show thesis using too_large h head(1) by blast
  next
    case 2
    then show thesis using partial h head(2) by blast
  next
    case 3
    let ?r = "drop (a + b + c) ?body"
    have "?body = take a ?body @ take b (drop a ?body) @ take c (drop (a + b) ?body) @ ?r"
      by (simp add: append_assoc [symmetric] take_add [symmetric] add.commute del: append_assoc drop_drop)
    with h have "buffered s = header a b c port @ take a ?body @ take b (drop a ?body)
        @ take c (drop (a + b) ?body) @ ?r" by simp
    moreover have "0 < a + b + c + length ?r"
    proof -
      have "0 < length ?body" "length ?r = length ?body - (a + b + c)"
        using \<open>?body \<noteq> []\<close> by (blast, simp)
      with 3 show ?thesis by linarith
    qed
    ultimately show thesis
      using complete [of a b c port "take a ?body" "take b (drop a ?body)" "take c (drop (a + b) ?body)" ?r]
        bounds 3 by simp
  qed
qed

end

text \<open>What is accepted is a frame.\<close>

lemma packet_parser_bytes:
  assumes "stream_contract S buffered cursor" "cursor s = 0"
    and "packet_from_bytes S limit s = Ret (Inr (Some p), s')"
  shows "buffered s = frame p @ buffered s' \<and> cursor s' = 0 \<and>
    sendable p \<and> frame_size p \<le> limit"
proof -
  have long: "header_size < length (buffered s)"
    using stream_contract.from_bytes_short [OF assms(1), of s limit] assms(3) by fastforce
  show ?thesis
  proof (rule stream_contract.stream_cases [OF assms(1,2) long, of limit])
    fix a b c port tb fb pb rest
    assume bs: "buffered s = header a b c port @ tb @ fb @ pb @ rest"
      and bounds: "a < 2 ^ 32" "b < 2 ^ 32" "c < 2 ^ 32" "length tb = a" "length fb = b" "length pb = c"
      "0 < a + b + c + length rest" "header_size + a + b + c \<le> limit"
    note whole = stream_contract.from_bytes_complete [OF assms(1,2) bs bounds]
    obtain to_s from_s where strings: "from_utf8 tb = Some to_s" "from_utf8 fb = Some from_s"
      using whole assms(3) by (cases "from_utf8 tb"; cases "from_utf8 fb") auto
    with whole assms(3) have p: "p = packet_new to_s from_s pb port" "buffered s' = rest" "cursor s' = 0" by auto
    have "as_bytes to_s = tb" "as_bytes from_s = fb" "is_utf8 to_s" "is_utf8 from_s"
      using strings from_utf8_Some by blast+
    moreover from this have "length to_s = a" "length from_s = b" using bounds by (metis length_as_bytes)+
    ultimately show ?thesis
      using p bs bounds
      by (simp add: frame_def packet_new_def sendable_def frame_size_def)
  qed (use assms(3) in auto)
qed

section \<open>Properties\<close>

definition demo_packet :: packet where
  "demo_packet = packet_new ''bob'' ''amy@h'' [1, 2, 3] 9000"

definition demo_buffer :: "byte list \<Rightarrow> buffer" where
  "demo_buffer bs = \<lparr>buf_bytes = bs, buf_cursor = 0, buf_room = 1024\<rparr>"

lemma demo_packet_ok: "sendable demo_packet" "frame_size demo_packet = 25"
  by (simp_all add: sendable_def demo_packet_def packet_new_def frame_size_def header_size_def ascii_valid)

text \<open>
  C12. What is sent is what arrives. A packet whose addresses are UTF-8 and whose parts fit their
  32-bit lengths, written with \<open>to_bytes\<close> and put in a stream, comes out of \<open>from_bytes\<close>
  unchanged, whatever follows it, provided it is within the limit and the stream holds more than
  a header; the stream is left exactly at what follows, ready for the next packet.
\<close>

theorem packet_round_trip:
  assumes "stream_contract S buffered cursor" "big_endian_writer B written"
    and "sendable p" "frame_size p \<le> limit"
    and "cursor s = 0" "buffered s = packet_to_bytes B p @ rest" "header_size < length (buffered s)"
  shows "\<exists>s'. packet_from_bytes S limit s = Ret (Inr (Some p), s') \<and> buffered s' = rest \<and> cursor s' = 0"
  using assms(6) unfolding packet_to_bytes_frame [OF assms(2)]
  by (rule stream_contract.from_bytes_frame [OF assms(1,5) _ assms(3,4,7)])

theorem packet_round_trip_witness:
  "\<exists>s'. packet_from_bytes buffer_stream 100 (demo_buffer (packet_to_bytes list_writer demo_packet @ [7])) =
      Ret (Inr (Some demo_packet), s') \<and> buf_bytes s' = [7] \<and> buf_cursor s' = 0"
proof (rule packet_round_trip [OF buffer_stream.stream_contract_axioms list_writer.big_endian_writer_axioms])
  show "header_size < length (buf_bytes (demo_buffer (packet_to_bytes list_writer demo_packet @ [7])))"
    by (simp add: demo_buffer_def packet_to_bytes_frame [OF list_writer.big_endian_writer_axioms]
        length_frame demo_packet_ok header_size_def)
qed (simp_all add: demo_buffer_def demo_packet_ok)

text \<open>
  The parser accepts nothing but packets: when \<open>from_bytes\<close> returns one, the stream began with
  exactly the bytes \<open>to_bytes\<close> writes for it, it is within the limit, its addresses are valid UTF-8,
  and precisely those bytes were consumed. No two packets share their bytes.
\<close>

theorem packet_parser_sound:
  assumes "stream_contract S buffered cursor" "big_endian_writer B written"
    and "cursor s = 0" "packet_from_bytes S limit s = Ret (Inr (Some p), s')"
  shows "buffered s = packet_to_bytes B p @ buffered s' \<and> cursor s' = 0 \<and>
    sendable p \<and> frame_size p \<le> limit"
  using packet_parser_bytes [OF assms(1,3,4)] unfolding packet_to_bytes_frame [OF assms(2)] .

theorem packet_parser_sound_witness:
  "\<exists>p s'. packet_from_bytes buffer_stream 100 (demo_buffer (frame demo_packet)) = Ret (Inr (Some p), s') \<and>
    frame demo_packet = packet_to_bytes list_writer p @ buf_bytes s' \<and> frame_size p \<le> 100"
proof -
  have "\<exists>s'. packet_from_bytes buffer_stream 100 (demo_buffer (frame demo_packet)) =
      Ret (Inr (Some demo_packet), s') \<and> buf_bytes s' = [] \<and> buf_cursor s' = 0"
    by (rule buffer_stream.from_bytes_frame)
      (simp_all add: demo_buffer_def demo_packet_ok length_frame header_size_def)
  then obtain s' where r: "packet_from_bytes buffer_stream 100 (demo_buffer (frame demo_packet)) =
      Ret (Inr (Some demo_packet), s')" by blast
  from packet_parser_sound [OF buffer_stream.stream_contract_axioms list_writer.big_endian_writer_axioms _ r] r
  show ?thesis by (auto simp: demo_buffer_def)
qed



text \<open>
  C39. A packet that arrives in two pieces is lost. When only part of its body is in the stream,
  \<open>from_bytes\<close> answers that it has to wait, but it has read the header and does not go back: once the rest
  of the packet has arrived, what is left to read is the body without its header, which the next
  call takes for a header.
\<close>

theorem split_packet_loses_header:
  assumes "stream_contract S buffered cursor" "big_endian_writer B written"
    and "sendable p" "frame_size p \<le> limit" "header_size < k" "k < frame_size p"
    and "cursor s = 0" "buffered s = take k (packet_to_bytes B p)"
  shows "\<exists>s1. packet_from_bytes S limit s = Ret (Inr None, s1) \<and>
    (\<forall>n s2. frame_size p - k \<le> st_cap S s1 \<longrightarrow> st_put S (drop k (packet_to_bytes B p)) s1 = (n, s2) \<longrightarrow>
       buffered s2 = packet_to_bytes B p \<and>
       drop (cursor s2) (buffered s2) = as_bytes (pkt_to p) @ as_bytes (pkt_from p) @ pkt_payload p)"
proof -
  let ?body = "as_bytes (pkt_to p) @ as_bytes (pkt_from p) @ pkt_payload p"
  let ?h = "header (length (pkt_to p)) (length (pkt_from p)) (length (pkt_payload p)) (pkt_port p)"
  have bytes: "packet_to_bytes B p = ?h @ ?body"
    by (simp add: packet_to_bytes_frame [OF assms(2)] frame_def)
  have size: "length (packet_to_bytes B p) = frame_size p"
    by (simp add: packet_to_bytes_frame [OF assms(2)] length_frame)
  have s: "buffered s = ?h @ take (k - header_size) ?body"
    using assms(5,8) unfolding bytes by (simp only: take_append length_header) simp
  have part: "length (take (k - header_size) ?body) < length (pkt_to p) + length (pkt_from p) + length (pkt_payload p)"
    using assms(5,6) by (simp add: frame_size_def)
  have "0 < length (take (k - header_size) ?body)"
    using assms(5,6) by (simp add: frame_size_def)
  then have some: "take (k - header_size) ?body \<noteq> []" by blast
  obtain s1 where s1: "packet_from_bytes S limit s = Ret (Inr None, s1)" "buffered s1 = buffered s"
    "cursor s1 = header_size"
    using stream_contract.from_bytes_header(2) [OF assms(1,7) s _ _ _ some, of limit] assms(3,4) part
    unfolding sendable_def frame_size_def by blast
  have "buffered s2 = packet_to_bytes B p \<and> drop (cursor s2) (buffered s2) = ?body"
    if "frame_size p - k \<le> st_cap S s1" "st_put S (drop k (packet_to_bytes B p)) s1 = (n, s2)" for n s2
  proof -
    have "length (drop k (packet_to_bytes B p)) \<le> st_cap S s1" using that(1) size by simp
    from stream_contract.put [OF assms(1) this that(2)]
    have "buffered s2 = buffered s1 @ drop k (packet_to_bytes B p)" "cursor s2 = header_size"
      using s1(3) by auto
    with s1(2) assms(8) have "buffered s2 = packet_to_bytes B p" "cursor s2 = header_size" by simp_all
    then show ?thesis by (simp add: bytes)
  qed
  with s1(1) show ?thesis by blast
qed

theorem split_packet_loses_header_witness:
  "\<exists>s1. packet_from_bytes buffer_stream 100 (demo_buffer (take 20 (frame demo_packet))) = Ret (Inr None, s1) \<and>
    (\<forall>n s2. 5 \<le> st_cap buffer_stream s1 \<longrightarrow> st_put buffer_stream (drop 20 (frame demo_packet)) s1 = (n, s2) \<longrightarrow>
       drop (buf_cursor s2) (buf_bytes s2) = as_bytes ''bob'' @ as_bytes ''amy@h'' @ [1, 2, 3])"
proof -
  have "header_size < 20" "20 < frame_size demo_packet" by (simp_all add: header_size_def demo_packet_ok)
  note split = split_packet_loses_header [OF buffer_stream.stream_contract_axioms
      list_writer.big_endian_writer_axioms demo_packet_ok(1) _ this, of 100 "demo_buffer (take 20 (frame demo_packet))"]
  have parts: "pkt_to demo_packet = ''bob''" "pkt_from demo_packet = ''amy@h''" "pkt_payload demo_packet = [1, 2, 3]"
    by (simp_all add: demo_packet_def packet_new_def)
  show ?thesis
    using split unfolding packet_to_bytes_frame [OF list_writer.big_endian_writer_axioms] parts
    by (simp add: demo_buffer_def demo_packet_ok) blast
qed

end
