(* ===== verification/Net.thy ===== *)
theory Net
  imports Text Api Config Packet
begin

text \<open>
  What the remote actors see of the operating system: socket addresses, TCP sockets and the
  readiness poll of the crate \<open>mio\<close>, gathered in the record \<open>net\<close>, a parameter of the
  client and of the server. Every call takes the state \<open>'io\<close> of the outside world and returns the
  new one. And the messages of \<open>src/remote\<close>: a message is a \<open>Box<dyn Any>\<close>, whose
  \<open>downcast_ref\<close> picks one type, so the types the remote part looks for are the constructors.
\<close>

datatype 'x message =
    Client_Loop
  | Server_Loop
  | Work bool bool
  | Bytes "byte list"
  | Opaque 'x

datatype read_result = Read_Ok "byte list" | Would_Block | Read_Failed

record poll_event =
  ev_token :: nat
  ev_readable :: bool
  ev_writable :: bool
  ev_read_closed :: bool
  ev_write_closed :: bool

record ('addr, 'sock, 'listener, 'io) net =
  addr_parse :: "string \<Rightarrow> 'addr option"
  addr_show :: "'addr \<Rightarrow> string"
  addr_port :: "'addr \<Rightarrow> u16"
  addr_set_port :: "u16 \<Rightarrow> 'addr \<Rightarrow> 'addr"
  tcp_connect :: "'addr \<Rightarrow> 'io \<Rightarrow> 'sock option \<times> 'io"
  tcp_bind :: "'addr \<Rightarrow> 'io \<Rightarrow> 'listener option \<times> 'io"
  tcp_accept :: "'listener \<Rightarrow> 'io \<Rightarrow> 'sock option \<times> 'io"
  tcp_read :: "nat \<Rightarrow> 'sock \<Rightarrow> 'io \<Rightarrow> read_result \<times> 'io"
  tcp_write_all :: "byte list \<Rightarrow> 'sock \<Rightarrow> 'io \<Rightarrow> bool \<times> 'io"
  tcp_set_nodelay :: "'sock \<Rightarrow> 'io \<Rightarrow> 'io"
  tcp_peer :: "'sock \<Rightarrow> 'io \<Rightarrow> 'addr option"
  poll_new :: "'io \<Rightarrow> bool \<times> 'io"
  poll_register :: "'sock \<Rightarrow> nat \<Rightarrow> 'io \<Rightarrow> bool \<times> 'io"
  poll_listener :: "'listener \<Rightarrow> nat \<Rightarrow> 'io \<Rightarrow> bool \<times> 'io"
  poll_wait :: "duration \<Rightarrow> 'io \<Rightarrow> poll_event list option \<times> 'io"
  clock_now :: "'io \<Rightarrow> sys_time \<times> 'io"

text \<open>A result whose \<open>unwrap\<close> fails when the flag is off.\<close>

definition unwrap_flag :: "bool \<times> 'io \<Rightarrow> 'io outcome" where
  "unwrap_flag r = (if fst r then Ret (snd r) else Panic)"

text \<open>
  \<open>str::split('@')\<close>: the pieces between the separators, one more than there are separators.
\<close>

fun split_on :: "char \<Rightarrow> string \<Rightarrow> string list" where
  "split_on sep [] = [[]]"
| "split_on sep (c # cs) =
     (if c = sep then [] # split_on sep cs
      else case split_on sep cs of [] \<Rightarrow> [[c]] | w # ws \<Rightarrow> (c # w) # ws)"

lemma split_on_nonempty [simp]: "split_on sep s \<noteq> []"
  by (induction s) (auto split: list.splits)

lemma split_on_none: "sep \<notin> set s \<Longrightarrow> split_on sep s = [s]"
  by (induction s) auto

lemma split_on_append: "sep \<notin> set s \<Longrightarrow> split_on sep (s @ sep # t) = s # split_on sep t"
  by (induction s) auto

lemma split_on_length: "length (split_on sep s) = Suc (count_list s sep)"
  by (induction s) (auto split: list.splits)

end
