(* ===== verification/Client.thy ===== *)
theory Client
  imports Net
begin

text \<open>
  The client side of the remote transport, \<open>src/remote/client.rs\<close>: one actor that keeps the
  outgoing connections by identifier and the identifiers by destination, writes packets into
  the send buffers and moves the buffers to the sockets when the poll says so. A result \<open>None\<close>
  of the outer option is a loop that does not end.
\<close>

section \<open>State\<close>

record ('s, 'sock) client_conn =
  cc_target :: string
  cc_socket :: "'sock option"
  cc_is_open :: bool
  cc_nodelay_set :: bool
  cc_recv_buf :: 's
  cc_send_buf :: 's

record ('s, 'sock) client =
  cl_config :: client_config
  cl_counter :: nat
  cl_connections :: "nat \<rightharpoonup> ('s, 'sock) client_conn"
  cl_destinations :: "string \<rightharpoonup> nat"
  cl_response_port :: u16

definition client_new ::
  "('addr, 'sock, 'listener, 'io) net \<Rightarrow> u16 \<Rightarrow> client_config \<Rightarrow> 'io \<Rightarrow> (('s, 'sock) client \<times> 'io) outcome"
where
  "client_new N response_port config io =
     and_then (unwrap_flag (poll_new N io)) (\<lambda>io'.
       Ret (\<lparr>cl_config = config, cl_counter = 0, cl_connections = Map.empty,
             cl_destinations = Map.empty, cl_response_port = response_port\<rparr>, io'))"

definition client_connected ::
  "'s byte_stream \<Rightarrow> string \<Rightarrow> 'sock \<Rightarrow> client_config \<Rightarrow> ('s, 'sock) client_conn"
where
  "client_connected S target socket config =
     \<lparr>cc_target = target, cc_socket = Some socket, cc_is_open = True, cc_nodelay_set = False,
      cc_recv_buf = st_with_capacity S (cl_recv_buffer_size config),
      cc_send_buf = st_with_capacity S (cl_send_buffer_size config)\<rparr>"

section \<open>Connecting\<close>

text \<open>The result is the new identifier, or nothing when the address or the connection fails.\<close>

definition client_connect ::
  "('addr, 'sock, 'listener, 'io) net \<Rightarrow> 's byte_stream \<Rightarrow> string \<Rightarrow> ('s, 'sock) client \<Rightarrow> 'io \<Rightarrow>
   (nat option \<times> ('s, 'sock) client \<times> 'io) outcome"
where
  "client_connect N S target c io =
     (let c1 = c\<lparr>cl_counter := cl_counter c + 1\<rparr>
      in case addr_parse N target of
           None \<Rightarrow> Ret (None, c1, io)
         | Some addr \<Rightarrow>
             (case tcp_connect N addr io of
                (None, io1) \<Rightarrow> Ret (None, c1, io1)
              | (Some socket, io1) \<Rightarrow>
                  let id = cl_counter c1
                  in and_then (unwrap_flag (poll_register N socket id io1)) (\<lambda>io2.
                       let connection = client_connected S (addr_show N addr) socket (cl_config c1)
                       in Ret (Some id,
                               c1\<lparr>cl_connections := (cl_connections c1)(id \<mapsto> connection),
                                  cl_destinations := (cl_destinations c1)(addr_show N addr \<mapsto> id)\<rparr>, io2))))"

definition client_has :: "string \<Rightarrow> ('s, 'sock) client \<Rightarrow> bool" where
  "client_has addr c = (cl_destinations c addr \<noteq> None)"

definition client_put ::
  "'s byte_stream \<Rightarrow> string \<Rightarrow> byte list \<Rightarrow> ('s, 'sock) client \<Rightarrow> (nat \<times> ('s, 'sock) client) outcome"
where
  "client_put S addr payload c =
     and_then (unwrap (cl_destinations c addr)) (\<lambda>id.
     and_then (unwrap (cl_connections c id)) (\<lambda>connection.
       let (n, buf) = st_put S payload (cc_send_buf connection)
       in Ret (n, c\<lparr>cl_connections := (cl_connections c)(id \<mapsto> connection\<lparr>cc_send_buf := buf\<rparr>)\<rparr>)))"

section \<open>Input and output of a connection\<close>

definition conn_send ::
  "('addr, 'sock, 'listener, 'io) net \<Rightarrow> 's byte_stream \<Rightarrow> ('s, 'sock) client_conn \<Rightarrow> 'io \<Rightarrow>
   (('s, 'sock) client_conn \<times> 'io) outcome"
where
  "conn_send N S c io =
     and_then (unwrap (cc_socket c)) (\<lambda>socket.
       case tcp_write_all N (st_as_ref S (cc_send_buf c)) socket io of
         (True, io') \<Rightarrow> Ret (c\<lparr>cc_send_buf := st_clear S (cc_send_buf c)\<rparr>, io')
       | (False, io') \<Rightarrow> Ret (c\<lparr>cc_is_open := False\<rparr>, io'))"

text \<open>The loop of \<open>recv\<close>: the buffer, the bytes received, whether the connection is open still.\<close>

partial_function (option) recv_loop ::
  "('addr, 'sock, 'listener, 'io) net \<Rightarrow> 's byte_stream \<Rightarrow> 'sock \<Rightarrow> 's \<Rightarrow> nat \<Rightarrow> bool \<Rightarrow> 'io \<Rightarrow>
   ('s \<times> nat \<times> bool \<times> 'io) option"
where
  "recv_loop N S socket buf received is_open io =
     (if 1024 \<le> st_cap S buf
      then case tcp_read N 1024 socket io of
             (Read_Ok bs, io') \<Rightarrow>
               if bs \<noteq> [] then recv_loop N S socket (snd (st_put S bs buf)) (received + length bs) is_open io'
               else Some (buf, received, False, io')
           | (Would_Block, io') \<Rightarrow> Some (buf, received, is_open, io')
           | (Read_Failed, io') \<Rightarrow> Some (buf, received, False, io')
      else Some (buf, received, is_open, io))"

definition conn_recv ::
  "('addr, 'sock, 'listener, 'io) net \<Rightarrow> 's byte_stream \<Rightarrow> ('s, 'sock) client_conn \<Rightarrow> 'io \<Rightarrow>
   (nat \<times> ('s, 'sock) client_conn \<times> 'io) outcome option"
where
  "conn_recv N S c io =
     (if st_cap S (cc_recv_buf c) < 1024 then Some (Ret (0, c, io))
      else case cc_socket c of
        None \<Rightarrow> Some Panic
      | Some socket \<Rightarrow>
          (case recv_loop N S socket (cc_recv_buf c) 0 (cc_is_open c) io of
             None \<Rightarrow> None
           | Some (buf, n, is_open, io') \<Rightarrow>
               Some (Ret (n, c\<lparr>cc_recv_buf := buf, cc_is_open := is_open\<rparr>, io'))))"

section \<open>The poll\<close>

definition conn_writable ::
  "('addr, 'sock, 'listener, 'io) net \<Rightarrow> 's byte_stream \<Rightarrow> poll_event \<Rightarrow> ('s, 'sock) client_conn \<Rightarrow> 'io \<Rightarrow>
   (('s, 'sock) client_conn \<times> 'io) outcome"
where
  "conn_writable N S ev c io =
     and_then (if cc_nodelay_set c then Ret (c, io)
               else and_then (unwrap (cc_socket c)) (\<lambda>socket.
                      Ret (c\<lparr>cc_nodelay_set := True\<rparr>, tcp_set_nodelay N socket io))) (\<lambda>(c1, io1).
     and_then (conn_send N S c1 io1) (\<lambda>(c2, io2).
       Ret (c2\<lparr>cc_send_buf := st_pull S (cc_send_buf c2), cc_is_open := \<not> ev_write_closed ev\<rparr>, io2)))"

definition conn_event ::
  "('addr, 'sock, 'listener, 'io) net \<Rightarrow> 's byte_stream \<Rightarrow> poll_event \<Rightarrow> ('s, 'sock) client_conn \<Rightarrow> 'io \<Rightarrow>
   (('s, 'sock) client_conn \<times> 'io) outcome option"
where
  "conn_event N S ev c io =
     (case (if ev_readable ev then conn_recv N S c io else Some (Ret (0, c, io))) of
        None \<Rightarrow> None
      | Some r \<Rightarrow> Some (and_then r (\<lambda>(n, c1, io1).
          let c2 = (if ev_readable ev then c1\<lparr>cc_is_open := \<not> ev_read_closed ev\<rparr> else c1)
          in if ev_writable ev then conn_writable N S ev c2 io1 else Ret (c2, io1))))"

text \<open>The connection is taken out of the map, handled, and put back if it is still open.\<close>

definition client_event ::
  "('addr, 'sock, 'listener, 'io) net \<Rightarrow> 's byte_stream \<Rightarrow> poll_event \<Rightarrow> ('s, 'sock) client \<Rightarrow> 'io \<Rightarrow>
   (('s, 'sock) client \<times> 'io) outcome option"
where
  "client_event N S ev c io =
     (let id = ev_token ev
      in case cl_connections c id of
           None \<Rightarrow> Some Panic
         | Some connection \<Rightarrow>
             let c1 = c\<lparr>cl_connections := (cl_connections c)(id := None)\<rparr>
             in (case conn_event N S ev connection io of
                   None \<Rightarrow> None
                 | Some r \<Rightarrow> Some (and_then r (\<lambda>(conn, io1).
                     if cc_is_open conn
                     then and_then (unwrap (cc_socket conn)) (\<lambda>socket.
                          and_then (unwrap_flag (poll_register N socket id io1)) (\<lambda>io2.
                            Ret (c1\<lparr>cl_connections := (cl_connections c1)(id \<mapsto> conn)\<rparr>, io2)))
                     else Ret (c1\<lparr>cl_destinations := (cl_destinations c1)(cc_target conn := None)\<rparr>, io1)))))"

primrec client_events ::
  "('addr, 'sock, 'listener, 'io) net \<Rightarrow> 's byte_stream \<Rightarrow> poll_event list \<Rightarrow> ('s, 'sock) client \<Rightarrow> 'io \<Rightarrow>
   (('s, 'sock) client \<times> 'io) outcome option"
where
  "client_events N S [] c io = Some (Ret (c, io))"
| "client_events N S (ev # evs) c io =
     (case client_event N S ev c io of
        None \<Rightarrow> None
      | Some Panic \<Rightarrow> Some Panic
      | Some (Ret (c', io')) \<Rightarrow> client_events N S evs c' io')"

definition client_poll ::
  "('addr, 'sock, 'listener, 'io) net \<Rightarrow> 's byte_stream \<Rightarrow> duration \<Rightarrow> ('s, 'sock) client \<Rightarrow> 'io \<Rightarrow>
   (('s, 'sock) client \<times> 'io) outcome option"
where
  "client_poll N S timeout c io =
     (case poll_wait N timeout io of
        (None, io') \<Rightarrow> Some Panic
      | (Some events, io') \<Rightarrow> client_events N S events c io')"

section \<open>The actor\<close>

definition split_address :: "string \<Rightarrow> string \<times> string" where
  "split_address address =
     (if CHR ''@'' \<in> set address
      then let split = split_on (CHR ''@'') address in (split ! 0, split ! 1)
      else (address, ''''))"

definition sent_log :: "string \<Rightarrow> string \<Rightarrow> string \<Rightarrow> nat \<Rightarrow> string" where
  "sent_log to host from n =
     ''sent: to='' @ to @ ''[@'' @ host @ ''] from='' @ from @ '' bytes='' @ show_nat n"

definition failed_log :: "string \<Rightarrow> string \<Rightarrow> string \<Rightarrow> nat \<Rightarrow> string" where
  "failed_log to host from n =
     ''Failed to send: to='' @ to @ ''[@'' @ host @ ''] from='' @ from @ '' bytes='' @ show_nat n"

text \<open>\<open>self.has(&host) || self.connect(&host).is_ok()\<close>\<close>

definition client_ready ::
  "('addr, 'sock, 'listener, 'io) net \<Rightarrow> 's byte_stream \<Rightarrow> string \<Rightarrow> ('s, 'sock) client \<Rightarrow> 'io \<Rightarrow>
   (bool \<times> ('s, 'sock) client \<times> 'io) outcome"
where
  "client_ready N S host c io =
     (if client_has host c then Ret (True, c, io)
      else and_then (client_connect N S host c io) (\<lambda>(r, c', io'). Ret (r \<noteq> None, c', io')))"

definition client_transmit ::
  "('addr, 'sock, 'listener, 'io) net \<Rightarrow> 's byte_stream \<Rightarrow> 'b bytes_mut \<Rightarrow> 'x message envelope \<Rightarrow> byte list \<Rightarrow>
   ('s, 'sock) client \<Rightarrow> 'io \<Rightarrow> (('a, 'x message) call list \<times> ('s, 'sock) client \<times> 'io) outcome"
where
  "client_transmit N S B envelope payload c io =
     (let (to, host) = split_address (env_to envelope);
          from = env_from envelope
      in and_then (client_ready N S host c io) (\<lambda>(ok, c1, io1).
           if ok
           then let packet = packet_new to from payload (cl_response_port c1)
                in and_then (client_put S host (packet_to_bytes B packet) c1) (\<lambda>(n, c2).
                     let (now, io2) = clock_now N io1
                     in Ret ([Log now (sent_log (pkt_to packet) host (pkt_from packet) (length payload))], c2, io2))
           else let (now, io2) = clock_now N io1
                in Ret ([Log now (failed_log to host from (length payload))], c1, io2)))"

definition client_receive ::
  "('addr, 'sock, 'listener, 'io) net \<Rightarrow> 's byte_stream \<Rightarrow> 'b bytes_mut \<Rightarrow> tag \<Rightarrow> 'x message envelope \<Rightarrow>
   ('s, 'sock) client \<Rightarrow> 'io \<Rightarrow> (('a, 'x message) call list \<times> ('s, 'sock) client \<times> 'io) outcome option"
where
  "client_receive N S B me envelope c io =
     (case env_message envelope of
        Client_Loop \<Rightarrow>
          (case client_poll N S 1000000 c io of
             None \<Rightarrow> None
           | Some r \<Rightarrow> Some (and_then r (\<lambda>(c', io'). Ret ([Send me envelope], c', io'))))
      | Bytes payload \<Rightarrow> Some (client_transmit N S B envelope payload c io)
      | _ \<Rightarrow> Some (Ret ([], c, io)))"

end
