(* ===== verification/Client_Claims.thy ===== *)
theory Client_Claims
  imports Client
begin

text \<open>
  What the client guarantees: its two maps agree, the read loop ends, a poll handles every event
  without a panic, a message becomes one frame in the right send buffer. And what it does not: a
  destination whose text is not the canonical one panics, a failed write goes unnoticed.
\<close>

section \<open>The contract of the network\<close>

text \<open>
  A read returns at most the bytes asked for. \<open>well_behaved\<close> adds what a poll on healthy
  descriptors promises: it succeeds, it can be registered with, it names a descriptor once.
\<close>

locale net_contract =
  fixes N :: "('addr, 'sock, 'listener, 'io) net"
  assumes read_bound: "tcp_read N n socket io = (Read_Ok bs, io') \<Longrightarrow> length bs \<le> n"

locale well_behaved_net = net_contract N for N :: "('addr, 'sock, 'listener, 'io) net" +
  assumes registers: "fst (poll_register N socket i io)"
    and polls: "\<exists>evs. fst (poll_wait N t io) = Some evs \<and> distinct (map ev_token evs)"

section \<open>The read loop\<close>

lemma recv_loop_end:
  "st_cap S buf < 1024 \<Longrightarrow> recv_loop N S socket buf n is_open io = Some (buf, n, is_open, io)"
  by (subst recv_loop.simps) simp

lemma recv_loop_reads:
  assumes "stream_contract S buffered cursor" "net_contract N"
  shows "\<exists>bs is_open' io' buf'.
    recv_loop N S socket buf n is_open io = Some (buf', n + length bs, is_open', io') \<and>
    buffered buf' = buffered buf @ bs \<and> cursor buf' = cursor buf"
proof (induction "st_cap S buf" arbitrary: buf n io rule: less_induct)
  case less
  show ?case
  proof (cases "1024 \<le> st_cap S buf")
    case False
    then show ?thesis by (intro exI [of _ "[]"]) (simp add: recv_loop_end)
  next
    case True
    obtain r io1 where read: "tcp_read N 1024 socket io = (r, io1)" by fastforce
    have stop: ?thesis if "recv_loop N S socket buf n is_open io = Some (buf, n, is_open', io1)" for is_open'
      using that by (intro exI [of _ "[]"]) simp
    show ?thesis
    proof (cases r)
      case (Read_Ok bs)
      show ?thesis
      proof (cases "bs = []")
        case True
        with read Read_Ok \<open>1024 \<le> st_cap S buf\<close> show ?thesis
          by (intro stop [of False]) (subst recv_loop.simps, simp)
      next
        case False
        obtain k buf1 where put: "st_put S bs buf = (k, buf1)" by fastforce
        have "length bs \<le> 1024" using net_contract.read_bound [OF assms(2)] read Read_Ok by blast
        then have "length bs \<le> st_cap S buf" using True by simp
        note filled = stream_contract.put [OF assms(1) this put]
        then have "st_cap S buf1 < st_cap S buf" using False \<open>length bs \<le> st_cap S buf\<close> by (cases bs) auto
        from less [OF this, of "n + length bs" io1] obtain bs' is_open' io' buf' where
          "recv_loop N S socket buf1 (n + length bs) is_open io1 =
             Some (buf', n + length bs + length bs', is_open', io')"
          "buffered buf' = buffered buf1 @ bs'" "cursor buf' = cursor buf1"
          by blast
        moreover have "recv_loop N S socket buf n is_open io =
            recv_loop N S socket buf1 (n + length bs) is_open io1"
          using True False read Read_Ok put by (subst recv_loop.simps) simp
        ultimately show ?thesis
          using filled by (intro exI [of _ "bs @ bs'"]) (simp add: add.assoc)
      qed
    next
      case Would_Block
      with read True show ?thesis by (intro stop [of is_open]) (subst recv_loop.simps, simp)
    next
      case Read_Failed
      with read True show ?thesis by (intro stop [of False]) (subst recv_loop.simps, simp)
    qed
  qed
qed

lemma conn_recv_returns:
  assumes "stream_contract S buffered cursor" "net_contract N" "cc_socket c \<noteq> None"
  shows "\<exists>n c' io'. conn_recv N S c io = Some (Ret (n, c', io')) \<and> cc_target c' = cc_target c \<and>
    cc_socket c' = cc_socket c"
proof -
  obtain socket where "cc_socket c = Some socket" using assms(3) by blast
  with recv_loop_reads [OF assms(1,2), of socket "cc_recv_buf c" 0 "cc_is_open c" io] show ?thesis
    by (auto simp: conn_recv_def)
qed

section \<open>The invariant\<close>

definition client_ok :: "('s, 'sock) client \<Rightarrow> bool" where
  "client_ok c \<longleftrightarrow>
     (\<forall>addr id. cl_destinations c addr = Some id \<longrightarrow>
        (\<exists>conn. cl_connections c id = Some conn \<and> cc_target conn = addr)) \<and>
     (\<forall>id conn. cl_connections c id = Some conn \<longrightarrow> cc_socket conn \<noteq> None \<and> id \<le> cl_counter c)"

lemma client_ok_dest:
  "client_ok c \<Longrightarrow> cl_destinations c addr = Some k \<Longrightarrow>
   \<exists>conn. cl_connections c k = Some conn \<and> cc_target conn = addr"
  unfolding client_ok_def by blast

lemma client_ok_conn:
  "client_ok c \<Longrightarrow> cl_connections c k = Some conn \<Longrightarrow> cc_socket conn \<noteq> None \<and> k \<le> cl_counter c"
  unfolding client_ok_def by blast

lemma client_okI:
  "(\<And>addr k. cl_destinations c addr = Some k \<Longrightarrow>
      \<exists>conn. cl_connections c k = Some conn \<and> cc_target conn = addr) \<Longrightarrow>
   (\<And>k conn. cl_connections c k = Some conn \<Longrightarrow> cc_socket conn \<noteq> None \<and> k \<le> cl_counter c) \<Longrightarrow>
   client_ok c"
  unfolding client_ok_def by blast

text \<open>A connection may change anything but its target, and must keep its socket.\<close>

lemma client_ok_update:
  assumes "client_ok c" "cl_connections c k = Some conn" "cc_target conn' = cc_target conn"
    and "cc_socket conn' \<noteq> None"
  shows "client_ok (c\<lparr>cl_connections := (cl_connections c)(k \<mapsto> conn')\<rparr>)"
proof (rule client_okI, goal_cases)
  case (1 addr k')
  then have "cl_destinations c addr = Some k'" by simp
  then show ?case using client_ok_dest [OF assms(1), of addr k'] assms(2,3) by (cases "k' = k") auto
next
  case (2 k' conn'')
  then show ?case
    using client_ok_conn [OF assms(1), of k'] client_ok_conn [OF assms(1,2)] assms(4)
    by (cases "k' = k") auto
qed

lemma client_new_ok: "client_new N port config io = Ret (c, io') \<Longrightarrow> client_ok c"
  by (auto simp: client_new_def client_ok_def)

lemma client_connect_ok:
  assumes "client_ok c" "client_connect N S target c io = Ret (r, c', io')"
  shows "client_ok c'"
proof -
  have fresh: "cl_connections c (Suc (cl_counter c)) = None"
    using assms(1) unfolding client_ok_def by (metis not_less_eq_eq option.exhaust order_refl)
  have counted: "client_ok (c\<lparr>cl_counter := Suc (cl_counter c)\<rparr>)"
    using assms(1) by (auto simp: client_ok_def intro: le_SucI)
  from assms(2) show ?thesis
  proof (cases "r = None")
    case True
    with assms(2) counted show ?thesis
      by (auto simp: client_connect_def Let_def split: option.splits prod.splits)
  next
    case False
    with assms(2) obtain addr socket where
      c': "c' = c\<lparr>cl_counter := Suc (cl_counter c),
        cl_connections := (cl_connections c)(Suc (cl_counter c) \<mapsto>
          client_connected S (addr_show N addr) socket (cl_config c)),
        cl_destinations := (cl_destinations c)(addr_show N addr \<mapsto> Suc (cl_counter c))\<rparr>"
      by (auto simp: client_connect_def Let_def split: option.splits prod.splits)
    show ?thesis
    proof (rule client_okI, goal_cases)
      case (1 a i)
      show ?case
      proof (cases "a = addr_show N addr")
        case True
        with 1 show ?thesis by (simp add: c' client_connected_def)
      next
        case False
        with 1 obtain conn where "cl_connections c i = Some conn \<and> cc_target conn = a"
          using client_ok_dest [OF assms(1), of a i] by (auto simp: c')
        with fresh show ?thesis by (auto simp: c')
      qed
    next
      case (2 i conn)
      then show ?case
        using client_ok_conn [OF counted, of i conn]
        by (cases "i = Suc (cl_counter c)") (auto simp: c' client_connected_def)
    qed
  qed
qed

lemma client_put_Ret:
  assumes "client_put S addr payload c = Ret (n, c')"
  obtains k conn buf where "cl_destinations c addr = Some k" "cl_connections c k = Some conn"
    "st_put S payload (cc_send_buf conn) = (n, buf)"
    "c' = c\<lparr>cl_connections := (cl_connections c)(k \<mapsto> conn\<lparr>cc_send_buf := buf\<rparr>)\<rparr>"
  using assms by (simp add: client_put_def split_beta) (metis prod.collapse)

lemma client_put_ok:
  assumes "client_ok c" "client_put S addr payload c = Ret (n, c')"
  shows "client_ok c'"
  using assms(2)
proof (rule client_put_Ret)
  fix k conn buf
  assume conn: "cl_connections c k = Some conn"
    and c': "c' = c\<lparr>cl_connections := (cl_connections c)(k \<mapsto> conn\<lparr>cc_send_buf := buf\<rparr>)\<rparr>"
  show ?thesis
    using client_ok_update [OF assms(1) conn] client_ok_conn [OF assms(1) conn] unfolding c' by simp
qed

lemma client_put_total:
  assumes "client_ok c" "client_has addr c"
  shows "\<exists>n c'. client_put S addr payload c = Ret (n, c')"
proof -
  obtain k where "cl_destinations c addr = Some k" using assms(2) by (auto simp: client_has_def)
  moreover from this obtain conn where "cl_connections c k = Some conn"
    using client_ok_dest [OF assms(1)] by blast
  ultimately show ?thesis by (simp add: client_put_def split_beta)
qed

section \<open>Events\<close>

lemma conn_writable_returns:
  assumes "cc_socket c \<noteq> None"
  shows "\<exists>c' io'. conn_writable N S ev c io = Ret (c', io') \<and> cc_target c' = cc_target c \<and>
    cc_socket c' = cc_socket c"
proof -
  obtain socket where "cc_socket c = Some socket" using assms by blast
  then show ?thesis
    by (auto simp: conn_writable_def conn_send_def split: prod.split bool.split)
qed

lemma conn_event_returns:
  assumes "stream_contract S buffered cursor" "net_contract N" "cc_socket c \<noteq> None"
  shows "\<exists>c' io'. conn_event N S ev c io = Some (Ret (c', io')) \<and> cc_target c' = cc_target c \<and>
    cc_socket c' = cc_socket c"
proof -
  obtain n c1 io1 where r: "(if ev_readable ev then conn_recv N S c io else Some (Ret (0, c, io))) =
      Some (Ret (n, c1, io1))" "cc_target c1 = cc_target c" "cc_socket c1 = cc_socket c"
    using conn_recv_returns [OF assms, of io] by (cases "ev_readable ev") auto
  let ?c2 = "if ev_readable ev then c1\<lparr>cc_is_open := \<not> ev_read_closed ev\<rparr> else c1"
  have c2: "cc_target ?c2 = cc_target c" "cc_socket ?c2 = cc_socket c" using r(2,3) by simp_all
  then obtain c' io' where "conn_writable N S ev ?c2 io1 = Ret (c', io')" "cc_target c' = cc_target c"
    "cc_socket c' = cc_socket c"
    using conn_writable_returns [of ?c2 N S ev io1] assms(3) by auto
  then show ?thesis
    unfolding conn_event_def r(1) using c2 by (cases "ev_writable ev") (simp_all add: Let_def)
qed

lemma client_event_returns:
  assumes "stream_contract S buffered cursor" "well_behaved_net N" "client_ok c"
    and "cl_connections c (ev_token ev) \<noteq> None"
  shows "\<exists>c' io'. client_event N S ev c io = Some (Ret (c', io')) \<and> client_ok c' \<and>
    (\<forall>id. id \<noteq> ev_token ev \<longrightarrow> cl_connections c' id = cl_connections c id)"
proof -
  obtain conn where conn: "cl_connections c (ev_token ev) = Some conn" using assms(4) by blast
  have sock: "cc_socket conn \<noteq> None" using assms(3) conn by (auto simp: client_ok_def)
  have net: "net_contract N" using assms(2) by (simp add: well_behaved_net_def)
  from conn_event_returns [OF assms(1) net sock, of ev io] obtain conn' io1 where
    ev: "conn_event N S ev conn io = Some (Ret (conn', io1))" "cc_target conn' = cc_target conn"
      "cc_socket conn' = cc_socket conn" by blast
  show ?thesis
  proof (cases "cc_is_open conn'")
    case True
    obtain socket where s: "cc_socket conn' = Some socket" using sock ev(3) by auto
    have "fst (poll_register N socket (ev_token ev) io1)"
      using well_behaved_net.registers [OF assms(2)] .
    then have "\<exists>io2. client_event N S ev c io =
        Some (Ret (c\<lparr>cl_connections := (cl_connections c)(ev_token ev \<mapsto> conn')\<rparr>, io2))"
      using conn ev(1) True s by (simp add: client_event_def unwrap_flag_def Let_def)
    moreover have "client_ok (c\<lparr>cl_connections := (cl_connections c)(ev_token ev \<mapsto> conn')\<rparr>)"
      using client_ok_update [OF assms(3) conn] ev(2,3) sock by simp
    ultimately show ?thesis by auto
  next
    case False
    let ?c = "c\<lparr>cl_connections := (cl_connections c)(ev_token ev := None),
      cl_destinations := (cl_destinations c)(cc_target conn' := None)\<rparr>"
    have "client_event N S ev c io = Some (Ret (?c, io1))"
      using conn ev(1) False by (simp add: client_event_def Let_def)
    moreover have "client_ok ?c"
    proof (rule client_okI, goal_cases)
      case (1 addr i)
      then have a: "addr \<noteq> cc_target conn" "cl_destinations c addr = Some i"
        using ev(2) by (auto split: if_splits)
      then show ?case using client_ok_dest [OF assms(3) a(2)] conn by (cases "i = ev_token ev") auto
    next
      case (2 i conn)
      then show ?case using client_ok_conn [OF assms(3), of i conn] by (auto split: if_splits)
    qed
    ultimately show ?thesis by auto
  qed
qed

lemma client_events_return:
  assumes "stream_contract S buffered cursor" "well_behaved_net N"
  shows "client_ok c \<Longrightarrow> distinct (map ev_token evs) \<Longrightarrow> ev_token ` set evs \<subseteq> dom (cl_connections c) \<Longrightarrow>
    \<exists>c' io'. client_events N S evs c io = Some (Ret (c', io')) \<and> client_ok c'"
proof (induction evs arbitrary: c io)
  case Nil
  then show ?case by simp
next
  case (Cons ev evs)
  then have "cl_connections c (ev_token ev) \<noteq> None" by auto
  from client_event_returns [OF assms Cons.prems(1) this, of io] obtain c1 io1 where
    one: "client_event N S ev c io = Some (Ret (c1, io1))" "client_ok c1"
      "\<forall>id. id \<noteq> ev_token ev \<longrightarrow> cl_connections c1 id = cl_connections c id" by blast
  have "ev_token ` set evs \<subseteq> dom (cl_connections c1)"
  proof
    fix id
    assume "id \<in> ev_token ` set evs"
    with Cons.prems have "id \<noteq> ev_token ev" "id \<in> dom (cl_connections c)" by (auto simp: image_iff)
    with one(3) show "id \<in> dom (cl_connections c1)" by auto
  qed
  with Cons.IH [OF one(2)] Cons.prems(2) one(1) show ?case by simp
qed

section \<open>Sending\<close>

text \<open>A message to a connected host.\<close>

lemma client_receive_frame:
  assumes "stream_contract S buffered cursor" "big_endian_writer B written"
    and "env_message e = Bytes payload" "split_address (env_to e) = (to, host)"
    and "cl_destinations c host = Some k" "cl_connections c k = Some conn"
    and "length (packet_to_bytes B (packet_new to (env_from e) payload (cl_response_port c))) \<le> st_cap S (cc_send_buf conn)"
  shows "\<exists>buf now io'. client_receive N S B me e c io =
      Some (Ret ([Log now (sent_log to host (env_from e) (length payload))],
        c\<lparr>cl_connections := (cl_connections c)(k \<mapsto> conn\<lparr>cc_send_buf := buf\<rparr>)\<rparr>, io')) \<and>
    buffered buf = buffered (cc_send_buf conn) @
      packet_to_bytes B (packet_new to (env_from e) payload (cl_response_port c))"
proof -
  let ?frame = "packet_to_bytes B (packet_new to (env_from e) payload (cl_response_port c))"
  obtain n buf where put: "st_put S ?frame (cc_send_buf conn) = (n, buf)" by fastforce
  obtain now io' where clock: "clock_now N io = (now, io')" by fastforce
  have "client_receive N S B me e c io =
      Some (Ret ([Log now (sent_log to host (env_from e) (length payload))],
        c\<lparr>cl_connections := (cl_connections c)(k \<mapsto> conn\<lparr>cc_send_buf := buf\<rparr>)\<rparr>, io'))"
    using assms(3-6) put clock
    by (simp add: client_receive_def client_transmit_def client_ready_def client_has_def client_put_def
        packet_new_def Let_def)
  with stream_contract.put [OF assms(1,7) put] show ?thesis by blast
qed

section \<open>A concrete network\<close>

text \<open>One host with two spellings, a poll that reports at most one event, sockets that block.\<close>

definition demo_net :: "bool \<Rightarrow> (string, nat, unit, poll_event option) net" where
  "demo_net writes =
     \<lparr>addr_parse = (\<lambda>s. if s = ''h:1'' \<or> s = ''h:01'' then Some ''h:1'' else None),
      addr_show = (\<lambda>a. a), addr_port = (\<lambda>a. 1), addr_set_port = (\<lambda>p a. ''h:'' @ show_nat (unat p)),
      tcp_connect = (\<lambda>a io. (Some 7, io)), tcp_bind = (\<lambda>a io. (Some (), io)),
      tcp_accept = (\<lambda>l io. (None, io)), tcp_read = (\<lambda>n s io. (Would_Block, io)),
      tcp_write_all = (\<lambda>bs s io. (writes, io)), tcp_set_nodelay = (\<lambda>s io. io),
      tcp_peer = (\<lambda>s io. Some ''h:1''), poll_new = (\<lambda>io. (True, io)),
      poll_register = (\<lambda>s i io. (True, io)), poll_listener = (\<lambda>l i io. (True, io)),
      poll_wait = (\<lambda>t io. (Some (case io of None \<Rightarrow> [] | Some ev \<Rightarrow> [ev]), None)),
      clock_now = (\<lambda>io. (0, io))\<rparr>"

interpretation demo_net: well_behaved_net "demo_net writes" for writes
  by unfold_locales (auto simp: demo_net_def split: option.split)

definition demo_conn :: "(buffer, nat) client_conn" where
  "demo_conn = client_connected buffer_stream ''h:1'' 7 default_client_config"

definition demo_client :: "(buffer, nat) client" where
  "demo_client =
     \<lparr>cl_config = default_client_config, cl_counter = 1, cl_connections = [1 \<mapsto> demo_conn],
      cl_destinations = [''h:1'' \<mapsto> 1], cl_response_port = 9000\<rparr>"

lemma demo_client_ok: "client_ok demo_client"
  by (auto simp: client_ok_def demo_client_def demo_conn_def client_connected_def split: if_splits)

definition demo_event :: poll_event where
  "demo_event = \<lparr>ev_token = 1, ev_readable = True, ev_writable = True, ev_read_closed = False,
     ev_write_closed = False\<rparr>"

definition demo_remote_mail :: "string \<Rightarrow> unit message envelope" where
  "demo_remote_mail to = \<lparr>env_message = Bytes [1, 2, 3], env_from = ''amy'', env_to = to\<rparr>"

section \<open>Properties\<close>

text \<open>
  The read loop of a connection ends. On a stream that keeps its contract and a socket that returns
  no more than it is asked for, \<open>recv\<close> stops after finitely many reads, whatever the socket delivers; it has
  appended exactly the bytes it counted, in order, and left the cursor alone.
\<close>

theorem client_recv_ends:
  assumes "stream_contract S buffered cursor" "net_contract N"
  shows "\<exists>bs is_open' io' buf'.
    recv_loop N S socket buf n is_open io = Some (buf', n + length bs, is_open', io') \<and>
    buffered buf' = buffered buf @ bs \<and> cursor buf' = cursor buf"
  using assms by (rule recv_loop_reads)

theorem client_recv_ends_witness:
  "\<exists>bs is_open' io' buf'. recv_loop (demo_net True) buffer_stream 7 (demo_buffer [5]) 0 True None =
      Some (buf', 0 + length bs, is_open', io') \<and> buf_bytes buf' = [5] @ bs"
  using client_recv_ends [OF buffer_stream.stream_contract_axioms demo_net.net_contract_axioms [of True],
      of 7 "demo_buffer [5]" 0 True None] by (fastforce simp: demo_buffer_def)



text \<open>
  A message for a connected host becomes exactly one frame. The part of the address before the
  \<open>@\<close>, the sender and the payload are framed with the response port and appended to the send buffer
  of that host's connection; no other connection is touched, nothing is sent to actors, and the transfer is
  logged.
\<close>

theorem client_sends_frame:
  assumes "stream_contract S buffered cursor" "big_endian_writer B written"
    and "env_message e = Bytes payload" "split_address (env_to e) = (to, host)"
    and "cl_destinations c host = Some k" "cl_connections c k = Some conn"
    and "length (packet_to_bytes B (packet_new to (env_from e) payload (cl_response_port c))) \<le> st_cap S (cc_send_buf conn)"
  shows "\<exists>buf now io'. client_receive N S B me e c io =
      Some (Ret ([Log now (sent_log to host (env_from e) (length payload))],
        c\<lparr>cl_connections := (cl_connections c)(k \<mapsto> conn\<lparr>cc_send_buf := buf\<rparr>)\<rparr>, io')) \<and>
    buffered buf = buffered (cc_send_buf conn) @
      packet_to_bytes B (packet_new to (env_from e) payload (cl_response_port c))"
  using assms by (rule client_receive_frame)

theorem client_sends_frame_witness:
  "\<exists>buf now io'. client_receive (demo_net True) buffer_stream list_writer ''me'' (demo_remote_mail ''bob@h:1'')
      demo_client None =
      Some (Ret ([Log now (sent_log ''bob'' ''h:1'' ''amy'' 3)],
        demo_client\<lparr>cl_connections := (cl_connections demo_client)(1 \<mapsto> demo_conn\<lparr>cc_send_buf := buf\<rparr>)\<rparr>, io')) \<and>
    buf_bytes buf = packet_to_bytes list_writer (packet_new ''bob'' ''amy'' [1, 2, 3] 9000)"
proof -
  have "\<exists>buf now io'. client_receive (demo_net True) buffer_stream list_writer ''me'' (demo_remote_mail ''bob@h:1'')
      demo_client None =
      Some (Ret ([Log now (sent_log ''bob'' ''h:1'' (env_from (demo_remote_mail ''bob@h:1'')) (length [1, 2, 3 :: byte]))],
        demo_client\<lparr>cl_connections := (cl_connections demo_client)(1 \<mapsto> demo_conn\<lparr>cc_send_buf := buf\<rparr>)\<rparr>, io')) \<and>
    buf_bytes buf = buf_bytes (cc_send_buf demo_conn) @ packet_to_bytes list_writer
      (packet_new ''bob'' (env_from (demo_remote_mail ''bob@h:1'')) [1, 2, 3] (cl_response_port demo_client))"
  proof (rule client_sends_frame [OF buffer_stream.stream_contract_axioms list_writer.big_endian_writer_axioms])
    show "split_address (env_to (demo_remote_mail ''bob@h:1'')) = (''bob'', ''h:1'')"
      by (simp add: split_address_def demo_remote_mail_def)
    show "length (packet_to_bytes list_writer
        (packet_new ''bob'' (env_from (demo_remote_mail ''bob@h:1'')) [1, 2, 3] (cl_response_port demo_client)))
      \<le> st_cap buffer_stream (cc_send_buf demo_conn)"
      by (simp add: packet_to_bytes_frame [OF list_writer.big_endian_writer_axioms] length_frame frame_size_def
          packet_new_def header_size_def demo_conn_def client_connected_def default_client_config_def
          buffer_stream_def demo_remote_mail_def)
  qed (simp_all add: demo_remote_mail_def demo_client_def)
  moreover have "buf_bytes (cc_send_buf demo_conn) = []"
    by (simp add: demo_conn_def client_connected_def buffer_stream_def)
  ultimately show ?thesis by (simp add: demo_remote_mail_def demo_client_def numeral_3_eq_3)
qed

text \<open>
  C24. The first message to a host connects to it, and arrives in the buffer of the new connection if the
  host is written the way \<open>SocketAddr\<close> prints it. If it is written in any other way that parses
  to the same address (a leading zero in the port, an uncompressed IPv6 address), the connection is made and
  then the client panics: it looks the connection up under the text of the message, but keeps it under
  the canonical one.
\<close>

theorem client_first_contact:
  assumes "stream_contract S buffered cursor" "big_endian_writer B written"
    and "env_message e = Bytes payload" "split_address (env_to e) = (to, host)"
    and "cl_destinations c host = None" "addr_parse N host = Some addr"
    and "tcp_connect N addr io = (Some socket, io1)"
    and "poll_register N socket (cl_counter c + 1) io1 = (True, io2)"
    and "length (packet_to_bytes B (packet_new to (env_from e) payload (cl_response_port c)))
      \<le> cl_send_buffer_size (cl_config c)"
  shows "if addr_show N addr = host
    then \<exists>c' conn now io'. client_receive N S B me e c io =
        Some (Ret ([Log now (sent_log to host (env_from e) (length payload))], c', io')) \<and>
      cl_destinations c' host = Some (cl_counter c + 1) \<and> cl_connections c' (cl_counter c + 1) = Some conn \<and>
      buffered (cc_send_buf conn) = packet_to_bytes B (packet_new to (env_from e) payload (cl_response_port c))
    else client_receive N S B me e c io = Some Panic"
proof -
  let ?new = "client_connected S (addr_show N addr) socket (cl_config c)"
  let ?k = "Suc (cl_counter c)"
  let ?c = "c\<lparr>cl_counter := ?k, cl_connections := (cl_connections c)(?k \<mapsto> ?new),
    cl_destinations := (cl_destinations c)(addr_show N addr \<mapsto> ?k)\<rparr>"
  have connect: "client_connect N S host c io = Ret (Some ?k, ?c, io2)"
    using assms(6-8) by (simp add: client_connect_def Let_def unwrap_flag_def)
  have ready: "client_ready N S host c io = Ret (True, ?c, io2)"
    using assms(5) connect by (simp add: client_ready_def client_has_def)
  show ?thesis
  proof (cases "addr_show N addr = host")
    case True
    let ?frame = "packet_to_bytes B (packet_new to (env_from e) payload (cl_response_port c))"
    obtain n buf where put: "st_put S ?frame (cc_send_buf ?new) = (n, buf)" by fastforce
    obtain now io' where clock: "clock_now N io2 = (now, io')" by fastforce
    have room: "length ?frame \<le> st_cap S (cc_send_buf ?new)"
      using assms(9) stream_contract.new(3) [OF assms(1)] by (simp add: client_connected_def)
    have empty: "buffered (cc_send_buf ?new) = []"
      using stream_contract.new(1) [OF assms(1)] by (simp add: client_connected_def)
    have "client_receive N S B me e c io =
        Some (Ret ([Log now (sent_log to host (env_from e) (length payload))],
          ?c\<lparr>cl_connections := (cl_connections ?c)(?k \<mapsto> ?new\<lparr>cc_send_buf := buf\<rparr>)\<rparr>, io'))"
      using assms(3,4) ready put clock True
      by (simp add: client_receive_def client_transmit_def client_put_def packet_new_def Let_def)
    moreover have "buffered buf = ?frame"
      using stream_contract.put [OF assms(1) room put] empty by simp
    ultimately show ?thesis
      unfolding if_P [OF True]
      by (intro exI [of _ "?c\<lparr>cl_connections := (cl_connections ?c)(?k \<mapsto> ?new\<lparr>cc_send_buf := buf\<rparr>)\<rparr>"]
          exI [of _ "?new\<lparr>cc_send_buf := buf\<rparr>"] exI [of _ now] exI [of _ io'] conjI)
        (simp_all add: True)
  next
    case False
    with assms(3,4,5) ready show ?thesis
      by (simp add: client_receive_def client_transmit_def client_put_def Let_def)
  qed
qed

theorem client_first_contact_witness:
  "client_receive (demo_net True) buffer_stream list_writer ''me'' (demo_remote_mail ''bob@h:01'')
     (demo_client\<lparr>cl_destinations := Map.empty\<rparr>) None = Some Panic"
proof -
  let ?c = "demo_client\<lparr>cl_destinations := Map.empty\<rparr>"
  have "split_address ''bob@h:01'' = (''bob'', ''h:01'')" by (simp add: split_address_def)
  moreover have "length (packet_to_bytes list_writer (packet_new ''bob'' ''amy'' [1, 2, 3] 9000)) \<le>
      cl_send_buffer_size (cl_config ?c)"
    by (simp add: packet_to_bytes_frame [OF list_writer.big_endian_writer_axioms] length_frame frame_size_def
        packet_new_def header_size_def demo_client_def default_client_config_def)
  ultimately show ?thesis
    using client_first_contact [OF buffer_stream.stream_contract_axioms list_writer.big_endian_writer_axioms,
        of "demo_remote_mail ''bob@h:01''" "[1, 2, 3]" "''bob''" "''h:01''" ?c "demo_net True" "''h:1''" None 7 None None "''me''"]
    by (simp add: demo_remote_mail_def demo_client_def demo_net_def)
qed

text \<open>
  A failed write goes unnoticed. \<open>send\<close> marks the connection closed when the socket refuses the
  bytes, but the poll loop overwrites the mark with what the event said about the write side: the connection
  stays registered and open, the buffer keeps everything, and the next writable event sends it all again,
  from the first byte, even when part of it had been written.
\<close>

theorem client_write_error_ignored:
  assumes "stream_contract S buffered cursor"
    and "cl_connections c (ev_token ev) = Some conn" "cc_socket conn = Some socket" "cc_nodelay_set conn"
    and "cursor (cc_send_buf conn) = 0"
    and "\<not> ev_readable ev" "ev_writable ev" "\<not> ev_write_closed ev"
    and "tcp_write_all N (st_as_ref S (cc_send_buf conn)) socket io = (False, io1)"
    and "poll_register N socket (ev_token ev) io1 = (True, io2)"
  shows "\<exists>conn'. client_event N S ev c io =
      Some (Ret (c\<lparr>cl_connections := (cl_connections c)(ev_token ev \<mapsto> conn')\<rparr>, io2)) \<and>
    cc_is_open conn' \<and> buffered (cc_send_buf conn') = buffered (cc_send_buf conn)"
proof -
  let ?conn = "conn\<lparr>cc_is_open := True, cc_send_buf := st_pull S (cc_send_buf conn)\<rparr>"
  have "conn_event N S ev conn io = Some (Ret (?conn, io1))"
    using assms(3,4,6-9) by (simp add: conn_event_def conn_writable_def conn_send_def)
  then have "client_event N S ev c io =
      Some (Ret (c\<lparr>cl_connections := (cl_connections c)(ev_token ev \<mapsto> ?conn)\<rparr>, io2))"
    using assms(2,3,10) by (simp add: client_event_def unwrap_flag_def Let_def)
  moreover have "buffered (cc_send_buf ?conn) = buffered (cc_send_buf conn)"
    using stream_contract.pull(1) [OF assms(1), of "cc_send_buf conn"] assms(5) by simp
  ultimately show ?thesis by (intro exI [of _ ?conn]) simp
qed

theorem client_write_error_ignored_witness:
  "\<exists>conn'. client_event (demo_net False) buffer_stream (demo_event\<lparr>ev_readable := False\<rparr>)
      (demo_client\<lparr>cl_connections := [1 \<mapsto> demo_conn\<lparr>cc_nodelay_set := True, cc_send_buf := demo_buffer [1, 2]\<rparr>]\<rparr>) None =
      Some (Ret (demo_client\<lparr>cl_connections := [1 \<mapsto> conn']\<rparr>, None)) \<and>
    cc_is_open conn' \<and> buf_bytes (cc_send_buf conn') = [1, 2]"
  using client_write_error_ignored [OF buffer_stream.stream_contract_axioms,
      of "demo_client\<lparr>cl_connections := [1 \<mapsto> demo_conn\<lparr>cc_nodelay_set := True, cc_send_buf := demo_buffer [1, 2]\<rparr>]\<rparr>"
        "demo_event\<lparr>ev_readable := False\<rparr>"
        "demo_conn\<lparr>cc_nodelay_set := True, cc_send_buf := demo_buffer [1, 2]\<rparr>" 7 "demo_net False" None None None]
  by (simp add: demo_event_def demo_conn_def client_connected_def demo_buffer_def demo_net_def)

end
