(* ===== verification/Server.thy ===== *)
theory Server
  imports Net
begin

text \<open>
  The server side of the remote transport, \<open>src/remote/server.rs\<close>: the actor that accepts
  connections and passes the readiness events on, and one actor per connection that reads, parses
  packets and forwards their payloads. A run of a handler is the calls it made, the new state and
  whether it returned (\<open>False\<close>: an \<open>unwrap\<close> failed, after those calls); a result \<open>None\<close> is a loop
  that does not end.
\<close>

section \<open>State\<close>

record ('s, 'sock) server_conn =
  sc_socket :: 'sock
  sc_is_open :: bool
  sc_keep_alive :: bool
  sc_recv_buf :: 's
  sc_send_buf :: 's
  sc_can_read :: bool
  sc_can_write :: bool

record 'listener server =
  sv_config :: server_config
  sv_socket :: 'listener
  sv_counter :: nat
  sv_port :: u16

definition PACKET_SIZE_LIMIT :: nat where
  "PACKET_SIZE_LIMIT = 4096 + 12"

definition server_listen ::
  "('addr, 'sock, 'listener, 'io) net \<Rightarrow> string \<Rightarrow> server_config \<Rightarrow> 'io \<Rightarrow>
   ((error + 'listener server) \<times> 'io) outcome"
where
  "server_listen N addr config io =
     and_then (unwrap_flag (poll_new N io)) (\<lambda>io1.
       case addr_parse N addr of
         None \<Rightarrow> Ret (Inl (InvalidServerAddress addr), io1)
       | Some a \<Rightarrow>
           let port = addr_port N a
           in case tcp_bind N a io1 of
                (None, io2) \<Rightarrow> Ret (Inl (ServerBindFailed port), io2)
              | (Some socket, io2) \<Rightarrow>
                  and_then (unwrap_flag (poll_listener N socket 0 io2)) (\<lambda>io3.
                    Ret (Inr \<lparr>sv_config = config, sv_socket = socket, sv_counter = 0, sv_port = port\<rparr>, io3)))"

definition server_port :: "'listener server \<Rightarrow> u16" where
  "server_port sv = sv_port sv"

definition server_tag :: "string \<Rightarrow> nat \<Rightarrow> string" where
  "server_tag me k = me @ ''#'' @ pad_left 12 (CHR ''0'') (show_nat k)"

section \<open>Accepting\<close>

definition accepted_conn :: "'s byte_stream \<Rightarrow> server_config \<Rightarrow> 'sock \<Rightarrow> ('s, 'sock) server_conn" where
  "accepted_conn S config socket =
     \<lparr>sc_socket = socket, sc_is_open = True, sc_keep_alive = True,
      sc_recv_buf = st_with_capacity S (srv_recv_buffer_size config),
      sc_send_buf = st_with_capacity S (srv_send_buffer_size config),
      sc_can_read = False, sc_can_write = False\<rparr>"

text \<open>\<open>wrap\<close> is the boxing of the connection as an actor; \<open>calls\<close> are the calls made so far.\<close>

partial_function (option) accept_loop ::
  "('addr, 'sock, 'listener, 'io) net \<Rightarrow> 's byte_stream \<Rightarrow> (('s, 'sock) server_conn \<Rightarrow> 'a) \<Rightarrow> string \<Rightarrow>
   ('a, 'x message) call list \<Rightarrow> 'listener server \<Rightarrow> 'io \<Rightarrow>
   (('a, 'x message) call list \<times> 'listener server \<times> 'io \<times> bool) option"
where
  "accept_loop N S wrap me calls sv io =
     (case tcp_accept N (sv_socket sv) io of
        (None, io1) \<Rightarrow> Some (calls, sv, io1, True)
      | (Some socket, io1) \<Rightarrow>
          (case poll_register N socket (sv_counter sv + 1) (tcp_set_nodelay N socket io1) of
             (ok, io2) \<Rightarrow>
               if \<not> ok then Some (calls, sv\<lparr>sv_counter := sv_counter sv + 1\<rparr>, io2, False)
               else accept_loop N S wrap me
                 (calls @ [Spawn (server_tag me (sv_counter sv + 1)) (wrap (accepted_conn S (sv_config sv) socket))])
                 (sv\<lparr>sv_counter := sv_counter sv + 1\<rparr>) io2))"

definition server_event ::
  "('addr, 'sock, 'listener, 'io) net \<Rightarrow> 's byte_stream \<Rightarrow> (('s, 'sock) server_conn \<Rightarrow> 'a) \<Rightarrow> string \<Rightarrow>
   poll_event \<Rightarrow> 'listener server \<Rightarrow> 'io \<Rightarrow>
   (('a, 'x message) call list \<times> 'listener server \<times> 'io \<times> bool) option"
where
  "server_event N S wrap me ev sv io =
     (if ev_token ev = 0 then accept_loop N S wrap me [] sv io
      else Some ([Send (server_tag me (ev_token ev)) (envelope_of (Work (ev_readable ev) (ev_writable ev)))],
                 sv, io, True))"

primrec server_events ::
  "('addr, 'sock, 'listener, 'io) net \<Rightarrow> 's byte_stream \<Rightarrow> (('s, 'sock) server_conn \<Rightarrow> 'a) \<Rightarrow> string \<Rightarrow>
   poll_event list \<Rightarrow> 'listener server \<Rightarrow> 'io \<Rightarrow>
   (('a, 'x message) call list \<times> 'listener server \<times> 'io \<times> bool) option"
where
  "server_events N S wrap me [] sv io = Some ([], sv, io, True)"
| "server_events N S wrap me (ev # evs) sv io =
     (case server_event N S wrap me ev sv io of
        None \<Rightarrow> None
      | Some (calls, sv1, io1, ok) \<Rightarrow>
          if ok
          then (case server_events N S wrap me evs sv1 io1 of
                  None \<Rightarrow> None
                | Some (calls', r) \<Rightarrow> Some (calls @ calls', r))
          else Some (calls, sv1, io1, False))"

definition server_receive ::
  "('addr, 'sock, 'listener, 'io) net \<Rightarrow> 's byte_stream \<Rightarrow> (('s, 'sock) server_conn \<Rightarrow> 'a) \<Rightarrow> string \<Rightarrow>
   'x message envelope \<Rightarrow> 'listener server \<Rightarrow> 'io \<Rightarrow>
   (('a, 'x message) call list \<times> 'listener server \<times> 'io \<times> bool) option"
where
  "server_receive N S wrap me envelope sv io =
     (case env_message envelope of
        Server_Loop \<Rightarrow>
          (case poll_wait N 1000000 io of
             (None, io1) \<Rightarrow> Some ([], sv, io1, False)
           | (Some evs, io1) \<Rightarrow>
               (case server_events N S wrap me evs sv io1 of
                  None \<Rightarrow> None
                | Some (calls, sv2, io2, ok) \<Rightarrow>
                    Some (if ok then calls @ [Send me (envelope_of Server_Loop)] else calls, sv2, io2, ok)))
      | _ \<Rightarrow> Some ([], sv, io, True))"

section \<open>A connection\<close>

definition keep_open ::
  "string \<Rightarrow> ('s, 'sock) server_conn \<Rightarrow> ('a, 'x message) call list \<times> ('s, 'sock) server_conn \<times> bool"
where
  "keep_open me c =
     (if \<not> sc_is_open c
      then if \<not> sc_keep_alive c then ([], c\<lparr>sc_is_open := True\<rparr>, True) else ([Stop me], c, False)
      else ([], c, True))"

definition rcvd_log :: "packet \<Rightarrow> string" where
  "rcvd_log p = ''server/rcvd: to='' @ pkt_to p @ '' from='' @ pkt_from p @ '' bytes='' @ show_nat (length (pkt_payload p))"

text \<open>The envelope a packet becomes: the sender is reached at the peer's host and the packet's port.\<close>

definition delivery :: "('addr, 'sock, 'listener, 'io) net \<Rightarrow> 'addr \<Rightarrow> packet \<Rightarrow> ('a, 'x message) call" where
  "delivery N peer p =
     (let host = addr_set_port N (pkt_port p) peer;
          from = pkt_from p @ ''@'' @ addr_show N host
      in Send (pkt_to p) (with_from (with_to (envelope_of (Bytes (pkt_payload p))) (pkt_to p)) from))"

partial_function (option) parse_loop ::
  "('addr, 'sock, 'listener, 'io) net \<Rightarrow> 's byte_stream \<Rightarrow> 'sock \<Rightarrow> bool \<Rightarrow> ('a, 'x message) call list \<Rightarrow>
   's \<Rightarrow> 'io \<Rightarrow> (('a, 'x message) call list \<times> 's \<times> bool \<times> 'io \<times> bool) option"
where
  "parse_loop N S socket is_open calls buf io =
     (case packet_from_bytes S PACKET_SIZE_LIMIT buf of
        Panic \<Rightarrow> Some (calls, buf, is_open, io, False)
      | Ret (Inl e, buf') \<Rightarrow>
          (case clock_now N io of (now, io') \<Rightarrow>
             Some (calls @ [Log now ''Packet parser marked connection buffer as failed''], buf', False, io', True))
      | Ret (Inr None, buf') \<Rightarrow> Some (calls, buf', is_open, io, True)
      | Ret (Inr (Some p), buf') \<Rightarrow>
          (case tcp_peer N socket io of
             None \<Rightarrow> Some (calls, buf', is_open, io, False)
           | Some peer \<Rightarrow>
               (case clock_now N io of (now, io') \<Rightarrow>
                  parse_loop N S socket is_open (calls @ [Log now (rcvd_log p), delivery N peer p]) buf' io')))"

text \<open>The parts of \<open>receive\<close>: the read, the loop, the write.\<close>

definition sconn_read ::
  "('addr, 'sock, 'listener, 'io) net \<Rightarrow> 's byte_stream \<Rightarrow> ('s, 'sock) server_conn \<Rightarrow> 'io \<Rightarrow>
   ('s, 'sock) server_conn \<times> 'io"
where
  "sconn_read N S c io =
     (if sc_can_read c
      then case tcp_read N 1024 (sc_socket c) io of
             (Read_Ok bs, io') \<Rightarrow>
               (if bs = [] then (c\<lparr>sc_is_open := False\<rparr>, io')
                else (c\<lparr>sc_recv_buf := snd (st_put S bs (sc_recv_buf c))\<rparr>, io'))
           | (Would_Block, io') \<Rightarrow> (c\<lparr>sc_is_open := False\<rparr>, io')
           | (Read_Failed, io') \<Rightarrow> (c\<lparr>sc_is_open := False\<rparr>, io')
      else (c, io))"

definition sconn_write ::
  "('addr, 'sock, 'listener, 'io) net \<Rightarrow> 's byte_stream \<Rightarrow> ('s, 'sock) server_conn \<Rightarrow> 'io \<Rightarrow>
   ('s, 'sock) server_conn \<times> 'io"
where
  "sconn_write N S c io =
     (if sc_can_write c \<and> 0 < st_len S (sc_send_buf c)
      then case tcp_write_all N (st_as_ref S (sc_send_buf c)) (sc_socket c) io of
             (True, io') \<Rightarrow> (c\<lparr>sc_send_buf := st_clear S (sc_send_buf c)\<rparr>, io')
           | (False, io') \<Rightarrow> (c\<lparr>sc_is_open := False\<rparr>, io')
      else (c, io))"

definition sconn_receive ::
  "('addr, 'sock, 'listener, 'io) net \<Rightarrow> 's byte_stream \<Rightarrow> string \<Rightarrow> 'x message envelope \<Rightarrow>
   ('s, 'sock) server_conn \<Rightarrow> 'io \<Rightarrow>
   (('a, 'x message) call list \<times> ('s, 'sock) server_conn \<times> 'io \<times> bool) option"
where
  "sconn_receive N S me envelope c io =
     (case env_message envelope of
        Work readable writable \<Rightarrow>
          let c1 = c\<lparr>sc_can_read := readable, sc_can_write := sc_can_write c \<or> writable\<rparr>;
              (c2, io2) = sconn_read N S c1 io;
              (calls3, c3, alive) = keep_open me c2
          in if \<not> alive then Some (calls3, c3, io2, True)
             else (case parse_loop N S (sc_socket c3) (sc_is_open c3) calls3 (sc_recv_buf c3) io2 of
                     None \<Rightarrow> None
                   | Some (calls4, buf, is_open, io4, ok) \<Rightarrow>
                       let c4 = c3\<lparr>sc_recv_buf := buf, sc_is_open := is_open\<rparr>
                       in if \<not> ok then Some (calls4, c4, io4, False)
                          else let (c5, io5) = sconn_write N S c4 io4;
                                   (calls6, c6, alive6) = keep_open me c5
                               in Some (calls4 @ calls6, c6, io5, True))
      | _ \<Rightarrow> Some ([], c, io, True))"

end
