(* ===== verification/Server_Claims.thy ===== *)
theory Server_Claims
  imports Server Client_Claims
begin

text \<open>
  What the server guarantees: each accepted socket gets an actor of its own under a fresh tag, a
  connection delivers every packet of its buffer once and in order and its parse loop ends. And its
  limits: packets beyond the size limit close the connection, as does a read that would block.
\<close>

section \<open>Tags\<close>

lemma server_tag_inject [simp]: "server_tag me i = server_tag me j \<longleftrightarrow> i = j"
  by (simp add: server_tag_def pad_show_inject)

lemma server_tag_local:
  assumes "CHR ''@'' \<notin> set me"
  shows "CHR ''@'' \<notin> set (server_tag me k)"
proof -
  have "CHR ''@'' \<notin> set (pad_left 12 (CHR ''0'') (show_nat k))"
    using pad_show_digits digits_not_at(1) by blast
  with assms show ?thesis by (simp add: server_tag_def)
qed

section \<open>Accepting\<close>

definition spawned_tags :: "('a, 'm) call list \<Rightarrow> string list" where
  "spawned_tags calls = concat (map (\<lambda>c. case c of Spawn t actor \<Rightarrow> [t] | _ \<Rightarrow> []) calls)"

lemma spawned_tags_simps [simp]:
  "spawned_tags [] = []" "spawned_tags (xs @ ys) = spawned_tags xs @ spawned_tags ys"
  "spawned_tags [Spawn t actor] = [t]" "spawned_tags [Send t e] = []" "spawned_tags [Log now msg] = []"
  by (simp_all add: spawned_tags_def)

text \<open>What a stretch of accepting adds to the calls and to the counter.\<close>

definition accepts_fresh ::
  "string \<Rightarrow> 'listener server \<Rightarrow> ('a, 'x message) call list \<Rightarrow> 'listener server \<Rightarrow> bool"
where
  "accepts_fresh me sv calls sv' \<longleftrightarrow>
     sv_counter sv \<le> sv_counter sv' \<and>
     spawned_tags calls = map (server_tag me) [Suc (sv_counter sv)..<Suc (sv_counter sv')]"

lemma accepts_fresh_trans:
  assumes "accepts_fresh me sv calls sv1" "accepts_fresh me sv1 calls' sv2"
  shows "accepts_fresh me sv (calls @ calls') sv2"
proof -
  have "[Suc (sv_counter sv)..<Suc (sv_counter sv2)] =
      [Suc (sv_counter sv)..<Suc (sv_counter sv1)] @ [Suc (sv_counter sv1)..<Suc (sv_counter sv2)]"
    using assms upt_add_eq_append [of "Suc (sv_counter sv)" "Suc (sv_counter sv1)" "sv_counter sv2 - sv_counter sv1"]
    by (simp add: accepts_fresh_def del: upt_Suc)
  with assms show ?thesis by (simp add: accepts_fresh_def del: upt_Suc)
qed

lemma accept_loop_fresh:
  assumes "accept_loop N S wrap me calls sv io = Some r"
  shows "\<exists>new. fst r = calls @ new \<and> accepts_fresh me sv new (fst (snd r)) \<or> \<not> snd (snd (snd r))"
proof (rule accept_loop.raw_induct [OF _ assms, where P = "\<lambda>N S wrap me calls sv io r.
    \<exists>new. fst r = calls @ new \<and> accepts_fresh me sv new (fst (snd r)) \<or> \<not> snd (snd (snd r))"], goal_cases)
  case (1 loop N S wrap me calls sv io r)
  show ?case
  proof (cases "tcp_accept N (sv_socket sv) io")
    case (Pair a io1)
    show ?thesis
    proof (cases a)
      case None
      with Pair 1(2) show ?thesis by (auto simp: accepts_fresh_def)
    next
      case (Some socket)
      obtain ok io2 where reg:
        "poll_register N socket (sv_counter sv + 1) (tcp_set_nodelay N socket io1) = (ok, io2)" by fastforce
      let ?sv = "sv\<lparr>sv_counter := sv_counter sv + 1\<rparr>"
      let ?call = "Spawn (server_tag me (sv_counter sv + 1)) (wrap (accepted_conn S (sv_config sv) socket))"
      show ?thesis
      proof (cases ok)
        case False
        with Pair Some reg 1(2) show ?thesis by auto
      next
        case True
        with Pair Some reg 1(2) have "loop N S wrap me (calls @ [?call]) ?sv io2 = Some r" by simp
        from 1(1) [OF this] show ?thesis
        proof (elim exE disjE conjE)
          fix new
          assume new: "fst r = (calls @ [?call]) @ new" "accepts_fresh me ?sv new (fst (snd r))"
          have "accepts_fresh me sv [?call] ?sv" by (simp add: accepts_fresh_def)
          from accepts_fresh_trans [OF this new(2)] new(1) show ?thesis by auto
        qed blast
      qed
    qed
  qed
qed

lemma server_event_fresh:
  assumes "server_event N S wrap me ev sv io = Some (calls, sv', io', True)"
  shows "accepts_fresh me sv calls sv'"
proof (cases "ev_token ev = 0")
  case True
  with assms have "accept_loop N S wrap me [] sv io = Some (calls, sv', io', True)"
    by (simp add: server_event_def)
  from accept_loop_fresh [OF this] show ?thesis by simp
next
  case False
  with assms show ?thesis by (auto simp: server_event_def accepts_fresh_def)
qed

lemma server_events_fresh:
  fixes calls :: "('a, 'x message) call list"
  shows "server_events N S wrap me evs sv io = Some (calls, sv', io', True) \<Longrightarrow> accepts_fresh me sv calls sv'"
proof (induction evs arbitrary: sv io calls)
  case Nil
  then show ?case by (simp add: accepts_fresh_def)
next
  case (Cons ev evs)
  let ?one = "server_event N S wrap me ev sv io :: (('a, 'x message) call list \<times> _) option"
  show ?case
  proof (cases ?one)
    case None
    with Cons.prems show ?thesis by simp
  next
    case (Some r)
    obtain calls1 sv1 io1 ok where r: "r = (calls1, sv1, io1, ok)" by (metis prod.exhaust)
    with Some Cons.prems have ok by (cases ok) simp_all
    show ?thesis
    proof (cases "server_events N S wrap me evs sv1 io1 :: (('a, 'x message) call list \<times> _) option")
      case None
      with Some Cons.prems r \<open>ok\<close> show ?thesis by simp
    next
      case rest: (Some r2)
      obtain calls2 q where r2: "r2 = (calls2, q)" by (cases r2)
      with Some rest Cons.prems r \<open>ok\<close> have "q = (sv', io', True)" "calls = calls1 @ calls2" by simp_all
      with Cons.IH rest r2 have "accepts_fresh me sv1 calls2 sv'" by blast
      moreover have "accepts_fresh me sv calls1 sv1" using server_event_fresh [of N S wrap me ev sv io calls1] Some r \<open>ok\<close> by simp
      ultimately show ?thesis using accepts_fresh_trans \<open>calls = calls1 @ calls2\<close> by blast
    qed
  qed
qed

section \<open>The parse loop\<close>

definition sends_of :: "('a, 'm) call list \<Rightarrow> ('a, 'm) call list" where
  "sends_of calls = filter (\<lambda>c. case c of Send a e \<Rightarrow> True | _ \<Rightarrow> False) calls"

lemma sends_of_simps [simp]:
  "sends_of [] = []" "sends_of (xs @ ys) = sends_of xs @ sends_of ys" "sends_of [Log now msg] = []"
  "sends_of [Send a e] = [Send a e]" "sends_of [Stop a] = []"
  by (simp_all add: sends_of_def)

lemma sends_of_delivery [simp]: "sends_of [delivery N peer p] = [delivery N peer p]"
  by (simp add: delivery_def Let_def)

lemma sends_of_Cons: "sends_of (c # cs) = sends_of [c] @ sends_of cs"
  by (simp add: sends_of_def)

definition fits :: "packet \<Rightarrow> bool" where
  "fits p \<longleftrightarrow> sendable p \<and> header_size < frame_size p \<and> frame_size p \<le> PACKET_SIZE_LIMIT"

lemma parse_loop_step:
  assumes "packet_from_bytes S PACKET_SIZE_LIMIT buf = Ret (Inr (Some p), buf')"
    and "tcp_peer N socket io = Some peer" "clock_now N io = (now, io')"
  shows "parse_loop N S socket is_open calls buf io =
    parse_loop N S socket is_open (calls @ [Log now (rcvd_log p), delivery N peer p]) buf' io'"
  using assms by (subst parse_loop.simps) simp

text \<open>A peer keeps its address while its connection is open.\<close>

definition peer_is :: "('addr, 'sock, 'listener, 'io) net \<Rightarrow> 'sock \<Rightarrow> 'addr \<Rightarrow> bool" where
  "peer_is N socket peer \<longleftrightarrow> (\<forall>io. tcp_peer N socket io = Some peer)"

lemma parse_loop_frames:
  assumes S: "stream_contract S buffered cursor" and peer: "peer_is N socket peer"
  shows "cursor buf = 0 \<Longrightarrow> buffered buf = concat (map frame ps) \<Longrightarrow> \<forall>p \<in> set ps. fits p \<Longrightarrow>
    \<exists>new buf' io'. parse_loop N S socket is_open calls buf io = Some (calls @ new, buf', is_open, io', True) \<and>
      sends_of new = map (delivery N peer) ps \<and> buffered buf' = [] \<and> cursor buf' = 0"
proof (induction ps arbitrary: buf io calls)
  case Nil
  then have "packet_from_bytes S PACKET_SIZE_LIMIT buf = Ret (Inr None, buf)"
    using stream_contract.from_bytes_short [OF S] by simp
  then have "parse_loop N S socket is_open calls buf io = Some (calls, buf, is_open, io, True)"
    by (subst parse_loop.simps) simp
  with Nil show ?case by (intro exI [of _ "[]"]) simp
next
  case (Cons p ps)
  then have bytes: "buffered buf = frame p @ concat (map frame ps)" by simp
  have fit: "sendable p" "header_size < frame_size p" "frame_size p \<le> PACKET_SIZE_LIMIT"
    using Cons.prems(3) by (simp_all add: fits_def)
  have "header_size < length (buffered buf)" using bytes fit(2) by (simp add: length_frame)
  from stream_contract.from_bytes_frame [OF S Cons.prems(1) bytes fit(1,3) this] obtain buf1 where
    one: "packet_from_bytes S PACKET_SIZE_LIMIT buf = Ret (Inr (Some p), buf1)"
      "buffered buf1 = concat (map frame ps)" "cursor buf1 = 0" by blast
  obtain now io1 where clock: "clock_now N io = (now, io1)" by fastforce
  have peer_p: "tcp_peer N socket io = Some peer" using peer by (simp add: peer_is_def)
  let ?two = "[Log now (rcvd_log p), delivery N peer p]"
  from Cons.IH [OF one(3,2), of "calls @ ?two" io1] Cons.prems(3) obtain new buf' io' where
    "parse_loop N S socket is_open (calls @ ?two) buf1 io1 = Some ((calls @ ?two) @ new, buf', is_open, io', True)"
    "sends_of new = map (delivery N peer) ps" "buffered buf' = []" "cursor buf' = 0" by auto
  with parse_loop_step [OF one(1) peer_p clock, of is_open calls] show ?case
    by (intro exI [of _ "?two @ new"]) (simp add: sends_of_Cons [of "Log now (rcvd_log p)"] sends_of_Cons [of "delivery N peer p" new])
qed

text \<open>
  Whatever the bytes are, the loop ends, and what it has sent are packets that stood one after the other
  at the front of the buffer.
\<close>

lemma parse_loop_prefix:
  assumes S: "stream_contract S buffered cursor" and peer: "peer_is N socket peer"
  shows "cursor buf = 0 \<Longrightarrow> \<exists>new buf' is_open' io' ok ps rest.
    parse_loop N S socket is_open calls buf io = Some (calls @ new, buf', is_open', io', ok) \<and>
    buffered buf = concat (map frame ps) @ rest \<and> (\<forall>p \<in> set ps. sendable p) \<and>
    sends_of new = map (delivery N peer) ps"
proof (induction "length (buffered buf)" arbitrary: buf io calls rule: less_induct)
  case less
  show ?case
  proof (cases "\<exists>p buf'. packet_from_bytes S PACKET_SIZE_LIMIT buf = Ret (Inr (Some p), buf')")
    case False
    have "\<exists>new buf' is_open' io' ok.
        parse_loop N S socket is_open calls buf io = Some (calls @ new, buf', is_open', io', ok) \<and> sends_of new = []"
    proof (cases "packet_from_bytes S PACKET_SIZE_LIMIT buf")
      case Panic
      then have "parse_loop N S socket is_open calls buf io = Some (calls @ [], buf, is_open, io, False)"
        by (subst parse_loop.simps) simp
      then show ?thesis by (metis sends_of_simps(1))
    next
      case (Ret r)
      obtain now io' where clock: "clock_now N io = (now, io')" by fastforce
      obtain r1 buf' where r: "r = (r1, buf')" by fastforce
      with Ret False consider u where "r1 = Inl u" | "r1 = Inr None"
        by (metis option.exhaust old.sum.exhaust)
      then show ?thesis
      proof cases
        case 1
        with Ret r clock have "parse_loop N S socket is_open calls buf io =
            Some (calls @ [Log now ''Packet parser marked connection buffer as failed''], buf', False, io', True)"
          by (subst parse_loop.simps) simp
        then show ?thesis by (metis sends_of_simps(3))
      next
        case 2
        with Ret r have "parse_loop N S socket is_open calls buf io = Some (calls @ [], buf', is_open, io, True)"
          by (subst parse_loop.simps) simp
        then show ?thesis by (metis sends_of_simps(1))
      qed
    qed
    then show ?thesis by (metis append_Nil concat.simps(1) empty_iff list.map(1) set_empty)
  next
    case True
    then obtain p buf1 where p: "packet_from_bytes S PACKET_SIZE_LIMIT buf = Ret (Inr (Some p), buf1)" by blast
    obtain now io1 where clock: "clock_now N io = (now, io1)" by fastforce
    note one = packet_parser_bytes [OF S less(2) p]
    then have "length (buffered buf1) < length (buffered buf)"
      by (simp add: length_frame frame_size_def header_size_def)
    note rest_of = less(1) [OF this, of "calls @ [Log now (rcvd_log p), delivery N peer p]" io1]
    have "cursor buf1 = 0" using one by blast
    from rest_of [OF this] obtain new buf' is_open' io' ok ps rest where rest:
      "parse_loop N S socket is_open (calls @ [Log now (rcvd_log p), delivery N peer p]) buf1 io1 =
         Some ((calls @ [Log now (rcvd_log p), delivery N peer p]) @ new, buf', is_open', io', ok)"
      "buffered buf1 = concat (map frame ps) @ rest" "\<forall>p \<in> set ps. sendable p"
      "sends_of new = map (delivery N peer) ps" by (elim exE conjE) (rule that)
    have "tcp_peer N socket io = Some peer" using peer by (simp add: peer_is_def)
    from parse_loop_step [OF p this clock, of is_open calls] rest one show ?thesis
      by (intro exI [of _ "[Log now (rcvd_log p), delivery N peer p] @ new"] exI [of _ buf'] exI [of _ is_open']
          exI [of _ io'] exI [of _ ok] exI [of _ "p # ps"] exI [of _ rest])
        (simp add: sends_of_Cons [of "Log now (rcvd_log p)"] sends_of_Cons [of "delivery N peer p" new])
  qed
qed

text \<open>A packet that is too large, with anything behind it.\<close>

lemma parse_loop_too_large:
  assumes S: "stream_contract S buffered cursor"
    and "cursor buf = 0" "buffered buf = frame p @ rest" "sendable p" "PACKET_SIZE_LIMIT < frame_size p"
  shows "\<exists>now buf' io'. parse_loop N S socket is_open calls buf io =
    Some (calls @ [Log now ''Packet parser marked connection buffer as failed''], buf', False, io', True)"
proof -
  let ?body = "as_bytes (pkt_to p) @ as_bytes (pkt_from p) @ pkt_payload p @ rest"
  have bytes: "buffered buf =
      header (length (pkt_to p)) (length (pkt_from p)) (length (pkt_payload p)) (pkt_port p) @ ?body"
    using assms(3) by (simp add: frame_def)
  have "0 < length ?body"
  proof -
    have "length ?body = frame_size p - header_size + length rest" by (simp add: frame_size_def)
    then show ?thesis using assms(5) by (simp only: PACKET_SIZE_LIMIT_def header_size_def)
  qed
  then have "?body \<noteq> []" by blast
  then obtain buf' where "packet_from_bytes S PACKET_SIZE_LIMIT buf = Ret (Inl (), buf')"
    using stream_contract.from_bytes_header(1) [OF S assms(2) bytes, of PACKET_SIZE_LIMIT] assms(4,5)
    by (auto simp: sendable_def frame_size_def)
  moreover obtain now io' where "clock_now N io = (now, io')" by fastforce
  ultimately show ?thesis by (subst parse_loop.simps) simp
qed

section \<open>One turn of a connection\<close>

definition with_work :: "bool \<Rightarrow> bool \<Rightarrow> ('s, 'sock) server_conn \<Rightarrow> ('s, 'sock) server_conn" where
  "with_work readable writable c = c\<lparr>sc_can_read := readable, sc_can_write := sc_can_write c \<or> writable\<rparr>"

lemma sconn_receive_open:
  fixes calls :: "('a, 'x message) call list" and e :: "'x message envelope"
  assumes "env_message e = Work readable writable"
    and "sconn_read N S (with_work readable writable c) io = (c2, io2)" "sc_is_open c2"
    and "parse_loop N S (sc_socket c2) True [] (sc_recv_buf c2) io2 = Some (calls, buf, is_open, io4, True)"
  obtains c5 io5 c6 alive and calls6 :: "('a, 'x message) call list" where
    "sconn_write N S (c2\<lparr>sc_recv_buf := buf, sc_is_open := is_open\<rparr>) io4 = (c5, io5)"
    "keep_open me c5 = (calls6, c6, alive)"
    "sconn_receive N S me e c io = Some (calls @ calls6, c6, io5, True)"
proof -
  obtain c5 io5 where w: "sconn_write N S (c2\<lparr>sc_recv_buf := buf, sc_is_open := is_open\<rparr>) io4 = (c5, io5)"
    by fastforce
  obtain calls6 :: "('a, 'x message) call list" and c6 alive where k: "keep_open me c5 = (calls6, c6, alive)"
    by (metis prod.exhaust)
  have "keep_open me c2 = ([] :: ('a, 'x message) call list, c2, True)" using assms(3) by (simp add: keep_open_def)
  with assms w k have "sconn_receive N S me e c io = Some (calls @ calls6, c6, io5, True)"
    by (simp add: sconn_receive_def with_work_def Let_def)
  with w k that show thesis by blast
qed

lemma keep_open_calls: "keep_open me c = (calls, c', alive) \<Longrightarrow> calls = [] \<or> calls = [Stop me]"
  by (auto simp: keep_open_def split: if_splits)

lemma keep_open_buf: "keep_open me c = (calls, c', alive) \<Longrightarrow> sc_recv_buf c' = sc_recv_buf c"
  by (auto simp: keep_open_def split: if_splits)

lemma sconn_write_keeps:
  "sconn_write N S c io = (c', io') \<Longrightarrow>
   sc_recv_buf c' = sc_recv_buf c \<and> sc_keep_alive c' = sc_keep_alive c \<and> (\<not> sc_is_open c \<longrightarrow> \<not> sc_is_open c')"
  by (auto simp: sconn_write_def split: if_splits prod.splits bool.splits)

section \<open>A turn that delivers\<close>

lemma sconn_delivers:
  fixes e :: "'x message envelope"
  assumes "stream_contract S buffered cursor" "peer_is N (sc_socket c2) peer"
    and "env_message e = Work readable writable"
    and "sconn_read N S (with_work readable writable c) io = (c2, io2)" "sc_is_open c2"
    and "cursor (sc_recv_buf c2) = 0" "buffered (sc_recv_buf c2) = concat (map frame ps)"
    and "\<forall>p \<in> set ps. fits p"
  shows "\<exists>(calls :: ('a, 'x message) call list) c' io'. sconn_receive N S me e c io = Some (calls, c', io', True) \<and>
    sends_of calls = map (delivery N peer) ps \<and> buffered (sc_recv_buf c') = [] \<and> cursor (sc_recv_buf c') = 0"
proof -
  obtain buf io4 and new :: "('a, 'x message) call list" where loop:
    "parse_loop N S (sc_socket c2) True [] (sc_recv_buf c2) io2 = Some ([] @ new, buf, True, io4, True)"
    "sends_of new = map (delivery N peer) ps" "buffered buf = []" "cursor buf = 0"
    using parse_loop_frames [OF assms(1,2,6,7,8)] by blast
  from loop(1) have "parse_loop N S (sc_socket c2) True [] (sc_recv_buf c2) io2 = Some (new, buf, True, io4, True)"
    by simp
  then obtain c5 io5 c6 alive and calls6 :: "('a, 'x message) call list" where
    rest: "sconn_write N S (c2\<lparr>sc_recv_buf := buf, sc_is_open := True\<rparr>) io4 = (c5, io5)"
      "keep_open me c5 = (calls6, c6, alive)" "sconn_receive N S me e c io = Some (new @ calls6, c6, io5, True)"
    by (rule sconn_receive_open [OF assms(3,4,5), of _ _ _ _ me])
  have "sends_of calls6 = []" using keep_open_calls [OF rest(2)] by auto
  moreover have "sc_recv_buf c6 = buf"
    using keep_open_buf [OF rest(2)] sconn_write_keeps [OF rest(1)] by simp
  ultimately show ?thesis using rest(3) loop by (intro exI [of _ "new @ calls6"]) simp
qed

text \<open>A packet over the limit ends the connection, and its actor.\<close>

lemma sconn_too_large:
  fixes e :: "'x message envelope"
  assumes "stream_contract S buffered cursor" "env_message e = Work readable writable"
    and "sconn_read N S (with_work readable writable c) io = (c2, io2)" "sc_is_open c2" "sc_keep_alive c2"
    and "cursor (sc_recv_buf c2) = 0" "buffered (sc_recv_buf c2) = frame p @ rest"
    and "sendable p" "PACKET_SIZE_LIMIT < frame_size p"
  shows "\<exists>now c' io'. sconn_receive N S me e c io =
    Some ([Log now ''Packet parser marked connection buffer as failed'', Stop me] :: ('a, 'x message) call list,
      c', io', True) \<and> \<not> sc_is_open c'"
proof -
  let ?log = "\<lambda>now. [Log now ''Packet parser marked connection buffer as failed''] :: ('a, 'x message) call list"
  obtain now buf io4 where loop:
    "parse_loop N S (sc_socket c2) True [] (sc_recv_buf c2) io2 = Some (?log now, buf, False, io4, True)"
    using parse_loop_too_large [OF assms(1,6-9), of N "sc_socket c2" True "[]" io2] by auto
  then obtain c5 io5 c6 alive and calls6 :: "('a, 'x message) call list" where
    rest: "sconn_write N S (c2\<lparr>sc_recv_buf := buf, sc_is_open := False\<rparr>) io4 = (c5, io5)"
      "keep_open me c5 = (calls6, c6, alive)" "sconn_receive N S me e c io = Some (?log now @ calls6, c6, io5, True)"
    by (rule sconn_receive_open [OF assms(2,3,4), of _ _ _ _ me])
  have "\<not> sc_is_open c5" "sc_keep_alive c5" using sconn_write_keeps [OF rest(1)] assms(5) by simp_all
  with rest(2) have "calls6 = [Stop me]" "c6 = c5" by (simp_all add: keep_open_def)
  with rest(3) \<open>\<not> sc_is_open c5\<close> show ?thesis by auto
qed

section \<open>A concrete server\<close>

text \<open>The outside is the number of connections that wait to be accepted.\<close>

definition demo_server_net :: "(string, nat, unit, nat) net" where
  "demo_server_net =
     \<lparr>addr_parse = (\<lambda>s. Some s), addr_show = (\<lambda>a. a), addr_port = (\<lambda>a. 9001),
      addr_set_port = (\<lambda>p a. ''h:'' @ show_nat (unat p)),
      tcp_connect = (\<lambda>a io. (Some 7, io)), tcp_bind = (\<lambda>a io. (Some (), io)),
      tcp_accept = (\<lambda>l io. if io = 0 then (None, 0) else (Some io, io - 1)),
      tcp_read = (\<lambda>n s io. (Would_Block, io)), tcp_write_all = (\<lambda>bs s io. (True, io)),
      tcp_set_nodelay = (\<lambda>s io. io), tcp_peer = (\<lambda>s io. Some ''h:5555''), poll_new = (\<lambda>io. (True, io)),
      poll_register = (\<lambda>s i io. (True, io)), poll_listener = (\<lambda>l i io. (True, io)),
      poll_wait = (\<lambda>t io. (Some [\<lparr>ev_token = 0, ev_readable = True, ev_writable = False,
        ev_read_closed = False, ev_write_closed = False\<rparr>], io)),
      clock_now = (\<lambda>io. (0, io))\<rparr>"

definition demo_server :: "unit server" where
  "demo_server = \<lparr>sv_config = default_server_config, sv_socket = (), sv_counter = 0, sv_port = 9001\<rparr>"

definition demo_sconn :: "byte list \<Rightarrow> (buffer, nat) server_conn" where
  "demo_sconn bs = (accepted_conn buffer_stream default_server_config 7)\<lparr>sc_recv_buf := demo_buffer bs\<rparr>"

definition demo_work :: "bool \<Rightarrow> unit message envelope" where
  "demo_work readable = envelope_of (Work readable False)"

lemma demo_peer: "peer_is demo_server_net socket ''h:5555''"
  by (simp add: peer_is_def demo_server_net_def)

section \<open>Properties\<close>

text \<open>
  Every accepted connection gets an actor of its own. In one turn of the server the spawned tags are
  those of the next counter values, in order: they are pairwise distinct, none of them was used before, and
  they are local tags, so that the readiness events sent to them later are not taken for remote messages.
\<close>

theorem server_spawns_fresh:
  fixes calls :: "('a, 'x message) call list"
  assumes "server_receive N S wrap me e sv io = Some (calls, sv', io', True)" "CHR ''@'' \<notin> set me"
  shows "spawned_tags calls = map (server_tag me) [Suc (sv_counter sv)..<Suc (sv_counter sv')] \<and>
    distinct (spawned_tags calls) \<and>
    (\<forall>tag \<in> set (spawned_tags calls). CHR ''@'' \<notin> set tag \<and> (\<forall>k \<le> sv_counter sv. tag \<noteq> server_tag me k))"
proof -
  have tags: "spawned_tags calls = map (server_tag me) [Suc (sv_counter sv)..<Suc (sv_counter sv')]"
  proof (cases "env_message e = Server_Loop")
    case True
    obtain evs io1 where poll: "poll_wait N 1000000 io = (Some evs, io1)"
      using assms(1) True by (auto simp: server_receive_def split: option.splits prod.splits)
    with assms(1) True obtain calls1 :: "('a, 'x message) call list" where
      run: "server_events N S wrap me evs sv io1 = Some (calls1, sv', io', True)"
      "calls = calls1 @ [Send me (envelope_of Server_Loop)]"
      by (auto simp: server_receive_def split: option.splits if_splits)
    from server_events_fresh [OF run(1)] run(2) show ?thesis by (simp add: accepts_fresh_def del: upt_Suc)
  next
    case False
    with assms(1) have "calls = []" "sv' = sv" by (auto simp: server_receive_def split: message.splits)
    then show ?thesis by simp
  qed
  moreover have "distinct (map (server_tag me) [Suc (sv_counter sv)..<Suc (sv_counter sv')])"
    by (simp add: distinct_map inj_on_def del: upt_Suc)
  ultimately show ?thesis using server_tag_local [OF assms(2)] by (auto simp del: upt_Suc)
qed

theorem server_spawns_fresh_witness:
  "\<exists>calls sv' io'. (server_receive demo_server_net buffer_stream (\<lambda>c. c) ''server''
      (envelope_of (Server_Loop :: unit message)) demo_server 2 = Some (calls, sv', io', True)) \<and>
    spawned_tags calls = [server_tag ''server'' 1, server_tag ''server'' 2]"
proof -
  let ?run = "server_receive demo_server_net buffer_stream (\<lambda>c. c) ''server''
      (envelope_of (Server_Loop :: unit message)) demo_server 2"
  have "accept_loop demo_server_net buffer_stream (\<lambda>c. c) ''server'' calls sv 0 = Some (calls, sv, 0, True)"
    for calls :: "((buffer, nat) server_conn, unit message) call list" and sv
    by (subst accept_loop.simps) (simp add: demo_server_net_def)
  then have run: "\<exists>calls sv' io'. ?run = Some (calls, sv', io', True) \<and> sv_counter sv' = 2"
    by (simp add: server_receive_def server_event_def envelope_of_def demo_server_net_def demo_server_def)
      (subst accept_loop.simps, simp, subst accept_loop.simps, simp)
  then obtain calls sv' io' where r: "?run = Some (calls, sv', io', True)" "sv_counter sv' = 2" by blast
  have "spawned_tags calls = map (server_tag ''server'') [Suc 0..<Suc 2]"
    using server_spawns_fresh [OF r(1)] r(2) by (simp add: demo_server_def del: upt_Suc)
  also have "\<dots> = [server_tag ''server'' 1, server_tag ''server'' 2]"
    by (simp add: upt_rec numeral_2_eq_2)
  finally show ?thesis using r by blast
qed

text \<open>
  A connection delivers the packets of its buffer exactly once and in order. When what it has read is a
  sequence of whole packets within the size limit, one turn sends each payload to its recipient, with the
  sender's address completed by the peer's host and the packet's port, and leaves the buffer empty.
\<close>

theorem server_delivers_in_order:
  fixes e :: "'x message envelope"
  assumes "stream_contract S buffered cursor" "peer_is N (sc_socket c2) peer"
    and "env_message e = Work readable writable"
    and "sconn_read N S (with_work readable writable c) io = (c2, io2)" "sc_is_open c2"
    and "cursor (sc_recv_buf c2) = 0" "buffered (sc_recv_buf c2) = concat (map frame ps)"
    and "\<forall>p \<in> set ps. fits p"
  shows "\<exists>(calls :: ('a, 'x message) call list) c' io'. sconn_receive N S me e c io = Some (calls, c', io', True) \<and>
    sends_of calls = map (delivery N peer) ps \<and> buffered (sc_recv_buf c') = [] \<and> cursor (sc_recv_buf c') = 0"
  using assms by (rule sconn_delivers)

theorem server_delivers_in_order_witness:
  "\<exists>(calls :: (unit, unit message) call list) c' io'.
    sconn_receive demo_server_net buffer_stream ''me'' (demo_work False)
      (demo_sconn (frame demo_packet @ frame demo_packet)) 0 = Some (calls, c', io', True) \<and>
    sends_of calls = [delivery demo_server_net ''h:5555'' demo_packet, delivery demo_server_net ''h:5555'' demo_packet]"
proof -
  let ?c = "demo_sconn (frame demo_packet @ frame demo_packet)"
  have "\<exists>(calls :: (unit, unit message) call list) c' io'.
      sconn_receive demo_server_net buffer_stream ''me'' (demo_work False) ?c 0 = Some (calls, c', io', True) \<and>
      sends_of calls = map (delivery demo_server_net ''h:5555'') [demo_packet, demo_packet] \<and>
      buf_bytes (sc_recv_buf c') = [] \<and> buf_cursor (sc_recv_buf c') = 0"
  proof (rule server_delivers_in_order [OF buffer_stream.stream_contract_axioms demo_peer])
    show "sconn_read demo_server_net buffer_stream (with_work False False ?c) 0 = (with_work False False ?c, 0)"
      by (simp add: sconn_read_def with_work_def)
    show "\<forall>p \<in> set [demo_packet, demo_packet]. fits p"
      using demo_packet_ok by (simp add: fits_def header_size_def PACKET_SIZE_LIMIT_def)
  qed (simp_all add: demo_work_def envelope_of_def with_work_def demo_sconn_def accepted_conn_def demo_buffer_def)
  then show ?thesis by auto
qed



text \<open>
  The largest payload is smaller than the limit says. The limit is 4096 + 12 bytes, for a payload of
  4096 bytes and a header of 12; but the header has 14 bytes, and the addresses count too. So a packet with a
  payload of 4095 bytes or more is refused whatever its addresses are: the connection logs the failure,
  delivers nothing, is closed, and its actor asks to be stopped, with whatever else had been received.
\<close>

theorem full_payload_refused:
  fixes e :: "'x message envelope"
  assumes "stream_contract S buffered cursor" "env_message e = Work readable writable"
    and "sconn_read N S (with_work readable writable c) io = (c2, io2)" "sc_is_open c2" "sc_keep_alive c2"
    and "cursor (sc_recv_buf c2) = 0" "buffered (sc_recv_buf c2) = frame p @ rest"
    and "sendable p" "4095 \<le> length (pkt_payload p)"
  shows "\<exists>now c' io'. sconn_receive N S me e c io =
    Some ([Log now ''Packet parser marked connection buffer as failed'', Stop me] :: ('a, 'x message) call list,
      c', io', True) \<and> \<not> sc_is_open c'"
proof -
  have "PACKET_SIZE_LIMIT < frame_size p"
    using assms(9) by (simp add: PACKET_SIZE_LIMIT_def frame_size_def header_size_def)
  from sconn_too_large [OF assms(1-8) this] show ?thesis .
qed

theorem full_payload_refused_witness:
  "\<exists>now c' io'. sconn_receive demo_server_net buffer_stream ''me'' (demo_work False)
      (demo_sconn (frame (packet_new ''bob'' ''amy'' (replicate 4096 0) 9000))) 0 =
    Some ([Log now ''Packet parser marked connection buffer as failed'', Stop ''me''] :: (unit, unit message) call list,
      c', io', True) \<and> \<not> sc_is_open c'"
proof (rule full_payload_refused [OF buffer_stream.stream_contract_axioms])
  let ?p = "packet_new ''bob'' ''amy'' (replicate 4096 0) 9000"
  let ?c = "demo_sconn (frame ?p)"
  show "sconn_read demo_server_net buffer_stream (with_work False False ?c) 0 = (with_work False False ?c, 0)"
    by (simp add: sconn_read_def with_work_def)
  show "sendable ?p" by (simp add: sendable_def packet_new_def ascii_valid)
  show "4095 \<le> length (pkt_payload ?p)" by (simp add: packet_new_def)
  show "buf_bytes (sc_recv_buf (with_work False False ?c)) = frame ?p @ []"
    by (simp add: with_work_def demo_sconn_def demo_buffer_def)
qed (simp_all add: demo_work_def envelope_of_def with_work_def demo_sconn_def accepted_conn_def demo_buffer_def)

text \<open>
  A read that would block ends a server connection. The poll may report a socket as readable
  when it is not; a read then fails with \<open>WouldBlock\<close>. The server's connection treats it as any other
  error: it is closed and its actor asks to be stopped, before anything already received is looked at (the client
  tells the two apart and stays connected).
\<close>

theorem would_block_closes_connection:
  fixes e :: "'x message envelope"
  assumes "env_message e = Work True writable" "sc_keep_alive c" "1024 \<le> st_cap S buf"
    and "tcp_read N 1024 (sc_socket c) io = (Would_Block, io')"
  shows "(\<exists>c'. sconn_receive N S me e c io = Some ([Stop me] :: ('a, 'x message) call list, c', io', True) \<and>
      \<not> sc_is_open c' \<and> sc_recv_buf c' = sc_recv_buf c) \<and>
    recv_loop N S (sc_socket c) buf n is_open io = Some (buf, n, is_open, io')"
proof
  show "\<exists>c'. sconn_receive N S me e c io = Some ([Stop me] :: ('a, 'x message) call list, c', io', True) \<and>
      \<not> sc_is_open c' \<and> sc_recv_buf c' = sc_recv_buf c"
    using assms by (simp add: sconn_receive_def sconn_read_def keep_open_def)
  show "recv_loop N S (sc_socket c) buf n is_open io = Some (buf, n, is_open, io')"
    using assms by (subst recv_loop.simps) simp
qed

theorem would_block_closes_connection_witness:
  "\<exists>c'. sconn_receive demo_server_net buffer_stream ''me'' (demo_work True) (demo_sconn (frame demo_packet)) 0 =
      Some ([Stop ''me''] :: (unit, unit message) call list, c', 0, True) \<and> \<not> sc_is_open c'"
proof -
  let ?c = "demo_sconn (frame demo_packet)"
  have hyps: "env_message (demo_work True) = Work True False" "sc_keep_alive ?c"
    "1024 \<le> st_cap buffer_stream (demo_buffer [])"
    "tcp_read demo_server_net 1024 (sc_socket ?c) 0 = (Would_Block, 0)"
    by (simp_all add: demo_work_def envelope_of_def demo_sconn_def accepted_conn_def demo_buffer_def
        buffer_stream_def demo_server_net_def)
  from would_block_closes_connection [OF hyps, where 'a = unit and me = "''me''"] show ?thesis by blast
qed

end
