(* ===== verification/Paxos.thy ===== *)
theory Paxos
  imports Net "HOL-Library.Char_ord" "HOL-Library.List_Lexorder"
begin

text \<open>
  The consensus example of the repository, \<open>examples/paxos.rs\<close>: the messages and their wire
  form, the agent that is proposer, acceptor and learner at once, and the client that asks until its
  own value has been selected. Message bytes go through \<open>BytesMut\<close> and \<open>Bytes\<close>, parameters \<open>B\<close>
  and \<open>R\<close>; the order in which a \<open>HashSet\<close> is iterated is not specified, so it is a parameter
  \<open>iter\<close>. Sequence numbers are \<open>u64\<close> and wrap as in the release build.
\<close>

section \<open>Messages\<close>

datatype paxos_message =
    Request u64
  | Prepare u64
  | Promise u64
  | Ignored u64
  | Accept u64 u64
  | Accepted u64 u64
  | Rejected u64
  | Selected u64 u64
  | Empty

definition paxos_encode :: "'b bytes_mut \<Rightarrow> paxos_message \<Rightarrow> byte list" where
  "paxos_encode B message =
     (let buf = bm_with_capacity B (1 + 8 + 8)
      in bm_split B (case message of
           Request val \<Rightarrow> bm_put_u64 B val (bm_put_u8 B 1 buf)
         | Prepare seq \<Rightarrow> bm_put_u64 B seq (bm_put_u8 B 2 buf)
         | Promise seq \<Rightarrow> bm_put_u64 B seq (bm_put_u8 B 3 buf)
         | Ignored seq \<Rightarrow> bm_put_u64 B seq (bm_put_u8 B 4 buf)
         | Accept seq val \<Rightarrow> bm_put_u64 B val (bm_put_u64 B seq (bm_put_u8 B 5 buf))
         | Accepted seq val \<Rightarrow> bm_put_u64 B val (bm_put_u64 B seq (bm_put_u8 B 6 buf))
         | Rejected seq \<Rightarrow> bm_put_u64 B seq (bm_put_u8 B 7 buf)
         | Selected seq val \<Rightarrow> bm_put_u64 B val (bm_put_u64 B seq (bm_put_u8 B 8 buf))
         | Empty \<Rightarrow> bm_put_u8 B 0 buf))"

text \<open>The reads of one and of two numbers.\<close>

definition get_one :: "'r bytes_buf \<Rightarrow> (u64 \<Rightarrow> paxos_message) \<Rightarrow> 'r \<Rightarrow> paxos_message outcome" where
  "get_one R mk buf = and_then (by_get_u64 R buf) (\<lambda>(x, buf'). Ret (mk x))"

definition get_two :: "'r bytes_buf \<Rightarrow> (u64 \<Rightarrow> u64 \<Rightarrow> paxos_message) \<Rightarrow> 'r \<Rightarrow> paxos_message outcome" where
  "get_two R mk buf =
     and_then (by_get_u64 R buf) (\<lambda>(x, buf'). and_then (by_get_u64 R buf') (\<lambda>(y, buf''). Ret (mk x y)))"

definition paxos_decode :: "'r bytes_buf \<Rightarrow> byte list \<Rightarrow> paxos_message outcome" where
  "paxos_decode R bytes =
     and_then (by_get_u8 R (by_from_vec R bytes)) (\<lambda>(op, buf).
       if op = 1 then get_one R Request buf
       else if op = 2 then get_one R Prepare buf
       else if op = 3 then get_one R Promise buf
       else if op = 4 then get_one R Ignored buf
       else if op = 5 then get_two R Accept buf
       else if op = 6 then get_two R Accepted buf
       else if op = 7 then get_one R Rejected buf
       else if op = 8 then get_two R Selected buf
       else Ret Empty)"

section \<open>The agent\<close>

record paxos_agent =
  pa_me :: string
  pa_peers :: "string list"
  pa_clients :: "string set"
  pa_val :: u64
  pa_seq :: u64
  pa_seq_promised :: u64
  pa_seq_accepted :: u64
  pa_promised :: "string set"
  pa_accepted :: "string set"
  pa_storage :: "(u64 \<times> u64) list"

definition default_agent :: paxos_agent where
  "default_agent =
     \<lparr>pa_me = '''', pa_peers = [], pa_clients = {}, pa_val = 0, pa_seq = 0, pa_seq_promised = 0,
      pa_seq_accepted = 0, pa_promised = {}, pa_accepted = {}, pa_storage = []\<rparr>"

definition quorum :: "paxos_agent \<Rightarrow> nat \<Rightarrow> bool" where
  "quorum a n \<longleftrightarrow> length (pa_peers a) div 2 < n"

definition to_all :: "string list \<Rightarrow> paxos_message \<Rightarrow> (string \<times> paxos_message) list" where
  "to_all targets msg = map (\<lambda>tag. (tag, msg)) targets"

primrec agent_handle ::
  "(string set \<Rightarrow> string list) \<Rightarrow> paxos_message \<Rightarrow> string \<Rightarrow> paxos_agent \<Rightarrow>
   (string \<times> paxos_message) list \<times> paxos_agent"
where
  "agent_handle iter (Request val) from a =
     (to_all (pa_peers a) (Prepare (pa_seq a + 1)),
      a\<lparr>pa_val := val, pa_clients := insert from (pa_clients a)\<rparr>)"
| "agent_handle iter (Prepare seq) from a =
     (if pa_seq a < seq then ([(from, Promise seq)], a\<lparr>pa_seq := seq\<rparr>)
      else ([(from, Ignored seq)], a))"
| "agent_handle iter (Promise seq) from a =
     (if pa_seq_promised a < seq
      then let a1 = a\<lparr>pa_promised := insert from (pa_promised a)\<rparr>
           in if quorum a1 (card (pa_promised a1))
              then (to_all (pa_peers a) (Accept seq (pa_val a)), a1\<lparr>pa_seq_promised := seq, pa_promised := {}\<rparr>)
              else ([], a1)
      else ([], a))"
| "agent_handle iter (Ignored seq) from a = ([], a)"
| "agent_handle iter (Accept seq val) from a =
     (if pa_seq a \<le> seq then ([(from, Accepted seq val)], a) else ([(from, Rejected seq)], a))"
| "agent_handle iter (Accepted seq val) from a =
     (if pa_seq_accepted a < seq
      then let a1 = a\<lparr>pa_accepted := insert from (pa_accepted a)\<rparr>
           in if quorum a1 (card (pa_accepted a1))
              then (to_all (pa_peers a) (Selected seq val), a1\<lparr>pa_seq_accepted := seq, pa_accepted := {}\<rparr>)
              else ([], a1)
      else ([], a))"
| "agent_handle iter (Rejected seq) from a = ([], a)"
| "agent_handle iter (Selected seq val) from a =
     (to_all (iter (pa_clients a)) (Selected seq val),
      a\<lparr>pa_storage := pa_storage a @ [(seq, val)], pa_seq := seq, pa_promised := {}\<rparr>)"
| "agent_handle iter Empty from a = ([], a)"

text \<open>
  The messages of the example that do not travel: \<open>Control::Init\<close> and \<open>Setup\<close>, which carries the
  sending end of a channel.
\<close>

datatype 'tx paxos_local =
    Init "string list"
  | Setup u32 u64 u64 "string list" 'tx

definition SEND_DELAY :: duration where
  "SEND_DELAY = 20 * 1000000"

text \<open>\<open>clock i\<close> is what \<open>sender.delay\<close> reads from the clock for the \<open>i\<close>-th message.\<close>

definition agent_delays ::
  "'b bytes_mut \<Rightarrow> (nat \<Rightarrow> instant) \<Rightarrow> tag \<Rightarrow> (string \<times> paxos_message) list \<Rightarrow> ('a, 'tx paxos_local message) call list"
where
  "agent_delays B clock me outs =
     map (\<lambda>(i, target, msg).
       Delay (clock i) target (with_from (with_to (envelope_of (Bytes (paxos_encode B msg))) target) me) SEND_DELAY)
     (enumerate 0 outs)"

definition agent_receive ::
  "'r bytes_buf \<Rightarrow> 'b bytes_mut \<Rightarrow> (string set \<Rightarrow> string list) \<Rightarrow> (nat \<Rightarrow> instant) \<Rightarrow> tag \<Rightarrow>
   'tx paxos_local message envelope \<Rightarrow> paxos_agent \<Rightarrow>
   ('a, 'tx paxos_local message) call list \<times> paxos_agent \<times> bool"
where
  "agent_receive R B iter clock me envelope a =
     (case env_message envelope of
        Bytes buf \<Rightarrow>
          (case paxos_decode R buf of
             Panic \<Rightarrow> ([], a, False)
           | Ret msg \<Rightarrow>
               let (outs, a') = agent_handle iter msg (env_from envelope) a
               in (agent_delays B clock me outs, a', True))
      | Opaque (Init peers) \<Rightarrow> ([], a\<lparr>pa_peers := peers, pa_me := me\<rparr>, True)
      | _ \<Rightarrow> ([], a, True))"

section \<open>The client\<close>

record 'tx paxos_client =
  pc_n :: u32
  pc_id :: u64
  pc_val :: u64
  pc_done :: bool
  pc_nodes :: "string list"
  pc_log :: "u64 list"
  pc_sender :: "'tx option"

definition default_paxos_client :: "'tx paxos_client" where
  "default_paxos_client =
     \<lparr>pc_n = 0, pc_id = 0, pc_val = 0, pc_done = False, pc_nodes = [], pc_log = [], pc_sender = None\<rparr>"

text \<open>The request for its own value, to the node of its identifier; no nodes is a division by zero.\<close>

definition client_request ::
  "'b bytes_mut \<Rightarrow> tag \<Rightarrow> 'tx paxos_client \<Rightarrow> ('a, 'tx paxos_local message) call outcome"
where
  "client_request B me c =
     (if pc_nodes c = [] then Panic
      else let idx = unat (pc_id c) mod length (pc_nodes c);
               target = pc_nodes c ! idx
           in Ret (Send target (with_from (envelope_of (Bytes (paxos_encode B (Request (pc_val c))))) me)))"

text \<open>\<open>tx_send\<close> is the send on the channel to \<open>main\<close>: whether it succeeded, and the outside after it.\<close>

definition client_report ::
  "('tx \<Rightarrow> string \<times> u64 list \<Rightarrow> 'io \<Rightarrow> bool \<times> 'io) \<Rightarrow> tag \<Rightarrow> 'tx paxos_client \<Rightarrow> 'io \<Rightarrow> bool \<times> 'io"
where
  "client_report tx_send me c io =
     (if length (pc_log c) = unat (pc_n c)
      then case pc_sender c of None \<Rightarrow> (False, io) | Some tx \<Rightarrow> tx_send tx (me, pc_log c) io
      else (True, io))"

definition client_selected ::
  "'b bytes_mut \<Rightarrow> ('tx \<Rightarrow> string \<times> u64 list \<Rightarrow> 'io \<Rightarrow> bool \<times> 'io) \<Rightarrow> tag \<Rightarrow> u64 \<Rightarrow>
   'tx paxos_client \<Rightarrow> 'io \<Rightarrow> ('a, 'tx paxos_local message) call list \<times> 'tx paxos_client \<times> 'io \<times> bool"
where
  "client_selected B tx_send me val c io =
     (let c1 = c\<lparr>pc_log := pc_log c @ [val], pc_done := pc_done c \<or> val = pc_val c\<rparr>
      in case (if pc_done c1 then Ret [] else and_then (client_request B me c1) (\<lambda>call. Ret [call])) of
           Panic \<Rightarrow> ([], c1, io, False)
         | Ret calls \<Rightarrow> let (ok, io') = client_report tx_send me c1 io in (calls, c1, io', ok))"

definition paxos_client_receive ::
  "'r bytes_buf \<Rightarrow> 'b bytes_mut \<Rightarrow> ('tx \<Rightarrow> string \<times> u64 list \<Rightarrow> 'io \<Rightarrow> bool \<times> 'io) \<Rightarrow> tag \<Rightarrow>
   'tx paxos_local message envelope \<Rightarrow> 'tx paxos_client \<Rightarrow> 'io \<Rightarrow>
   ('a, 'tx paxos_local message) call list \<times> 'tx paxos_client \<times> 'io \<times> bool"
where
  "paxos_client_receive R B tx_send me envelope c io =
     (case env_message envelope of
        Bytes buf \<Rightarrow>
          (case paxos_decode R buf of
             Panic \<Rightarrow> ([], c, io, False)
           | Ret (Selected seq val) \<Rightarrow> client_selected B tx_send me val c io
           | Ret msg \<Rightarrow> ([], c, io, True))
      | Opaque (Setup n k val nodes tx) \<Rightarrow>
          let c1 = c\<lparr>pc_n := n, pc_id := k, pc_val := val, pc_done := False, pc_nodes := nodes, pc_sender := Some tx\<rparr>
          in (case client_request B me c1 of
                Panic \<Rightarrow> ([], c1, io, False)
              | Ret call \<Rightarrow> ([call], c1, io, True))
      | _ \<Rightarrow> ([], c, io, True))"

end
