(* ===== verification/Paxos_Claims.thy ===== *)
theory Paxos_Claims
  imports Paxos
begin

text \<open>
  The consensus example: its codec, what an agent keeps and what it cannot keep. An agent
  is looked at over its whole life, as the run of \<open>agent_handle\<close> over the messages it hears; several
  agents are put together by links that deliver in order. The lemmas on runs give the
  acceptor's discipline, the majorities behind every broadcast, and an execution in which the agents end
  with different logs.
\<close>

section \<open>The wire form\<close>

primrec paxos_wire :: "paxos_message \<Rightarrow> byte list" where
  "paxos_wire (Request val) = 1 # be 8 (unat val)"
| "paxos_wire (Prepare seq) = 2 # be 8 (unat seq)"
| "paxos_wire (Promise seq) = 3 # be 8 (unat seq)"
| "paxos_wire (Ignored seq) = 4 # be 8 (unat seq)"
| "paxos_wire (Accept seq val) = 5 # be 8 (unat seq) @ be 8 (unat val)"
| "paxos_wire (Accepted seq val) = 6 # be 8 (unat seq) @ be 8 (unat val)"
| "paxos_wire (Rejected seq) = 7 # be 8 (unat seq)"
| "paxos_wire (Selected seq val) = 8 # be 8 (unat seq) @ be 8 (unat val)"
| "paxos_wire Empty = [0]"

lemma paxos_encode_wire:
  assumes "big_endian_writer B written"
  shows "paxos_encode B m = paxos_wire m"
  using assms
  by (cases m) (simp_all add: paxos_encode_def big_endian_writer_def Let_def)

text \<open>How many bytes an operation needs after its first byte.\<close>

definition body_size :: "byte \<Rightarrow> nat" where
  "body_size op = (if op \<in> {1, 2, 3, 4, 7} then 8 else if op \<in> {5, 6, 8} then 16 else 0)"

context big_endian_reader
begin

lemma get_one_cases:
  "if length (remaining r) < 8 then get_one R mk r = Panic
   else \<exists>x rest. remaining r = be 8 (unat x) @ rest \<and> get_one R mk r = Ret (mk x)"
proof (cases "length (remaining r) < 8")
  case True
  then show ?thesis by (simp add: get_one_def get_u64_short)
next
  case False
  then have "8 \<le> length (remaining r)" by simp
  then obtain r' x where "by_get_u64 R r = Ret (x, r')" "remaining r = be 8 (unat x) @ remaining r'"
    by (rule get_u64_long)
  with False show ?thesis by (auto simp: get_one_def)
qed

lemma get_two_cases:
  "if length (remaining r) < 16 then get_two R mk r = Panic
   else \<exists>x y rest. remaining r = be 8 (unat x) @ be 8 (unat y) @ rest \<and> get_two R mk r = Ret (mk x y)"
proof (cases "length (remaining r) < 8")
  case True
  then show ?thesis by (simp add: get_two_def get_u64_short)
next
  case False
  then have "8 \<le> length (remaining r)" by simp
  then obtain r1 x where one: "by_get_u64 R r = Ret (x, r1)" "remaining r = be 8 (unat x) @ remaining r1"
    by (rule get_u64_long)
  show ?thesis
  proof (cases "length (remaining r1) < 8")
    case True
    with one show ?thesis by (simp add: get_two_def get_u64_short)
  next
    case False
    then have "8 \<le> length (remaining r1)" by simp
    then obtain r2 y where "by_get_u64 R r1 = Ret (y, r2)" "remaining r1 = be 8 (unat y) @ remaining r2"
      by (rule get_u64_long)
    with one show ?thesis by (auto simp: get_two_def)
  qed
qed

lemma get_one_append: "remaining r = be 8 (unat x) @ rest \<Longrightarrow> get_one R mk r = Ret (mk x)"
  by (erule get_u64_append) (simp add: get_one_def)

lemma get_two_append:
  assumes "remaining r = be 8 (unat x) @ be 8 (unat y) @ rest"
  shows "get_two R mk r = Ret (mk x y)"
proof -
  obtain r' where "by_get_u64 R r = Ret (x, r')" "remaining r' = be 8 (unat y) @ rest"
    using get_u64_append [OF assms] .
  moreover from this(2) obtain r'' where "by_get_u64 R r' = Ret (y, r'')" by (rule get_u64_append)
  ultimately show ?thesis by (simp add: get_two_def)
qed

lemma paxos_decode_wire: "paxos_decode R (paxos_wire m @ rest) = Ret m"
proof -
  obtain b bs where wire: "paxos_wire m @ rest = b # bs" by (cases m) auto
  then obtain r where r: "by_get_u8 R (by_from_vec R (paxos_wire m @ rest)) = Ret (b, r)"
    "b # remaining r = paxos_wire m @ rest"
    by (metis get_u8_Cons from_vec)
  then show ?thesis
    by (cases m) (simp_all add: paxos_decode_def get_one_append [where rest = rest] get_two_append [where rest = rest])
qed

lemma paxos_decode_Nil: "paxos_decode R [] = Panic"
  by (simp add: paxos_decode_def get_u8_Nil from_vec)

lemma paxos_decode_Cons:
  "if length bs < body_size b then paxos_decode R (b # bs) = Panic
   else \<exists>m. paxos_decode R (b # bs) = Ret m \<and> (m = Empty \<or> (\<exists>rest. b # bs = paxos_wire m @ rest))"
proof -
  obtain r where r: "by_get_u8 R (by_from_vec R (b # bs)) = Ret (b, r)" "remaining r = bs"
    by (metis get_u8_Cons from_vec)
  consider "b \<in> {1, 2, 3, 4, 7}" | "b \<in> {5, 6, 8}" | "b \<notin> {1, 2, 3, 4, 5, 6, 7, 8}" by blast
  then show ?thesis
  proof cases
    case 1
    with r get_one_cases [of r Request] get_one_cases [of r Prepare] get_one_cases [of r Promise]
      get_one_cases [of r Ignored] get_one_cases [of r Rejected] show ?thesis
      by (auto simp: paxos_decode_def body_size_def split: if_splits)
  next
    case 2
    with r get_two_cases [of r Accept] get_two_cases [of r Accepted] get_two_cases [of r Selected]
    show ?thesis by (auto simp: paxos_decode_def body_size_def split: if_splits)
  next
    case 3
    with r show ?thesis by (auto simp: paxos_decode_def body_size_def)
  qed
qed

end

text \<open>
  What the actor does with a message is what \<open>agent_handle\<close> does: the bytes come to the
  same message at the other end, and each answer is one delayed send.
\<close>

lemma agent_receive_encoded:
  assumes "big_endian_writer B written" "big_endian_reader R remaining"
    and "env_message e = Bytes (paxos_encode B m)" "agent_handle iter m (env_from e) a = (outs, a')"
  shows "agent_receive R B iter clock me e a = (agent_delays B clock me outs, a', True)"
  using assms(3,4) big_endian_reader.paxos_decode_wire [OF assms(2), of m "[]"]
  by (simp add: agent_receive_def paxos_encode_wire [OF assms(1)])

section \<open>The life of an agent\<close>

primrec agent_run ::
  "(string set \<Rightarrow> string list) \<Rightarrow> (string \<times> paxos_message) list \<Rightarrow> paxos_agent \<Rightarrow>
   (string \<times> paxos_message) list \<times> paxos_agent"
where
  "agent_run iter [] a = ([], a)"
| "agent_run iter (m # ms) a =
     (let (outs, a1) = agent_handle iter (snd m) (fst m) a; (outs', a') = agent_run iter ms a1
      in (outs @ outs', a'))"

text \<open>No \<open>Selected\<close> it hears is behind its own sequence number.\<close>

primrec up_to_date ::
  "(string set \<Rightarrow> string list) \<Rightarrow> (string \<times> paxos_message) list \<Rightarrow> paxos_agent \<Rightarrow> bool"
where
  "up_to_date iter [] a = True"
| "up_to_date iter (m # ms) a =
     ((case snd m of Selected seq val \<Rightarrow> pa_seq a \<le> seq | _ \<Rightarrow> True) \<and>
      up_to_date iter ms (snd (agent_handle iter (snd m) (fst m) a)))"

definition promises :: "(string \<times> paxos_message) list \<Rightarrow> u64 list" where
  "promises outs = concat (map (\<lambda>(to, m). case m of Promise seq \<Rightarrow> [seq] | _ \<Rightarrow> []) outs)"

lemma promises_simps [simp]:
  "promises [] = []" "promises (xs @ ys) = promises xs @ promises ys"
  "promises ((to, m) # xs) = (case m of Promise seq \<Rightarrow> [seq] | _ \<Rightarrow> []) @ promises xs"
  by (simp_all add: promises_def)

lemma promises_to_all [simp]: "(\<forall>seq. m \<noteq> Promise seq) \<Longrightarrow> promises (to_all ts m) = []"
  by (cases m) (auto simp: promises_def to_all_def)

lemma in_promises: "(to, Promise seq) \<in> set outs \<Longrightarrow> seq \<in> set (promises outs)"
  by (force simp: promises_def)

lemma to_all_iff [simp]: "(to, m) \<in> set (to_all ts msg) \<longleftrightarrow> to \<in> set ts \<and> m = msg"
  by (auto simp: to_all_def)

text \<open>One message: what can be promised and accepted, and how far the agent gets.\<close>

lemma handle_promise:
  assumes "agent_handle iter m from a = (outs, a')" "case m of Selected seq val \<Rightarrow> pa_seq a \<le> seq | _ \<Rightarrow> True"
  shows "pa_seq a \<le> pa_seq a'"
    and "promises outs = [] \<or> (promises outs = [pa_seq a'] \<and> pa_seq a < pa_seq a')"
    and "(to, Accepted seq val) \<in> set outs \<Longrightarrow> pa_seq a \<le> seq \<and> promises outs = []"
  using assms by (cases m; force simp: Let_def split: if_splits)+

lemma run_promises:
  "agent_run iter ms a = (outs, a') \<Longrightarrow> up_to_date iter ms a \<Longrightarrow>
   pa_seq a \<le> pa_seq a' \<and> sorted_wrt (<) (pa_seq a # promises outs) \<and>
   (\<forall>seq \<in> set (promises outs). seq \<le> pa_seq a') \<and>
   (\<forall>to seq val. (to, Accepted seq val) \<in> set outs \<longrightarrow> pa_seq a \<le> seq)"
proof (induction ms arbitrary: a outs)
  case Nil
  then show ?case by simp
next
  case (Cons m ms)
  obtain outs1 a1 where one: "agent_handle iter (snd m) (fst m) a = (outs1, a1)" by fastforce
  obtain outs2 where rest: "agent_run iter ms a1 = (outs2, a')" "outs = outs1 @ outs2"
    using Cons.prems(1) one by (auto split: prod.splits)
  have upd: "case snd m of Selected seq val \<Rightarrow> pa_seq a \<le> seq | _ \<Rightarrow> True" "up_to_date iter ms a1"
    using Cons.prems(2) one by simp_all
  note step = handle_promise [OF one upd(1)]
  note IH = Cons.IH [OF rest(1) upd(2)]
  have "sorted_wrt (<) (pa_seq a # promises outs)"
    using step(1,2) IH rest(2) by auto
  moreover have "\<forall>seq \<in> set (promises outs). seq \<le> pa_seq a'" using step(2) IH rest(2) by auto
  moreover have "\<forall>to seq val. (to, Accepted seq val) \<in> set outs \<longrightarrow> pa_seq a \<le> seq"
    using step(3) IH rest(2) order_trans [OF step(1)] by auto
  ultimately show ?case using step(1) IH by auto
qed

text \<open>Who has sent a promise, who has accepted.\<close>

definition promiser :: "string \<times> paxos_message \<Rightarrow> string set" where
  "promiser m = (case snd m of Promise seq \<Rightarrow> {fst m} | _ \<Rightarrow> {})"

definition accepter :: "string \<times> paxos_message \<Rightarrow> string set" where
  "accepter m = (case snd m of Accepted seq val \<Rightarrow> {fst m} | _ \<Rightarrow> {})"

definition promisers :: "(string \<times> paxos_message) list \<Rightarrow> string set" where
  "promisers ms = (\<Union>m \<in> set ms. promiser m)"

definition accepters :: "(string \<times> paxos_message) list \<Rightarrow> string set" where
  "accepters ms = (\<Union>m \<in> set ms. accepter m)"

lemma heard_simps [simp]:
  "promisers [] = {}" "promisers (m # ms) = promiser m \<union> promisers ms"
  "accepters [] = {}" "accepters (m # ms) = accepter m \<union> accepters ms"
  by (simp_all add: promisers_def accepters_def)

text \<open>
  One message: the sets grow by its sender at most, and a broadcast rests on a majority.
\<close>

lemma handle_sets:
  assumes "agent_handle iter m from a = (outs, a')"
  shows "pa_peers a' = pa_peers a"
    and "pa_promised a' \<subseteq> pa_promised a \<union> promiser (from, m)"
    and "pa_accepted a' \<subseteq> pa_accepted a \<union> accepter (from, m)"
    and "pa_val a' = pa_val a \<or> m = Request (pa_val a')"
  using assms by (cases m; force simp: Let_def promiser_def accepter_def split: if_splits)+

lemma handle_accept:
  assumes "agent_handle iter m from a = (outs, a')" "(to, Accept seq val) \<in> set outs"
  shows "quorum a (card (pa_promised a \<union> promiser (from, m))) \<and> val = pa_val a"
  using assms by (cases m) (auto simp: Let_def promiser_def quorum_def split: if_splits)

lemma handle_selected:
  assumes "agent_handle iter m from a = (outs, a')" "(to, Selected seq val) \<in> set outs"
  shows "m = Selected seq val \<or>
    m = Accepted seq val \<and> quorum a (card (pa_accepted a \<union> accepter (from, m)))"
  using assms by (cases m) (auto simp: Let_def accepter_def quorum_def split: if_splits)

text \<open>A majority among those already heard and those in the messages to come.\<close>

definition majority :: "paxos_agent \<Rightarrow> string set \<Rightarrow> bool" where
  "majority a heard \<longleftrightarrow> (\<exists>Q \<subseteq> heard. quorum a (card Q))"

lemma majority_mono: "majority a A \<Longrightarrow> A \<subseteq> B \<Longrightarrow> majority a B"
  unfolding majority_def by blast

lemma majority_peers: "pa_peers a = pa_peers b \<Longrightarrow> majority a = majority b"
  by (auto simp: majority_def quorum_def fun_eq_iff)

lemma run_majorities:
  "agent_run iter ms a = (outs, a') \<Longrightarrow>
   ((to, Accept seq val) \<in> set outs \<longrightarrow>
      majority a (pa_promised a \<union> promisers ms) \<and> (val = pa_val a \<or> (\<exists>from. (from, Request val) \<in> set ms))) \<and>
   ((to, Selected seq val) \<in> set outs \<longrightarrow>
      (\<exists>from. (from, Selected seq val) \<in> set ms) \<or>
      majority a (pa_accepted a \<union> accepters ms) \<and> (\<exists>from. (from, Accepted seq val) \<in> set ms))"
proof (induction ms arbitrary: a outs)
  case Nil
  then show ?case by simp
next
  case (Cons m ms)
  obtain outs1 a1 where one: "agent_handle iter (snd m) (fst m) a = (outs1, a1)" by fastforce
  obtain outs2 where rest: "agent_run iter ms a1 = (outs2, a')" "outs = outs1 @ outs2"
    using Cons.prems(1) one by (auto split: prod.splits)
  note sets = handle_sets [OF one, unfolded prod.collapse]
  note IH = Cons.IH [OF rest(1)]
  have p: "pa_promised a1 \<union> promisers ms \<subseteq> pa_promised a \<union> promisers (m # ms)"
    using sets(2) by auto
  have c: "pa_accepted a1 \<union> accepters ms \<subseteq> pa_accepted a \<union> accepters (m # ms)"
    using sets(3) by auto
  note same = majority_peers [OF sets(1)]
  have "majority a (pa_promised a \<union> promisers (m # ms)) \<and> (val = pa_val a \<or> (\<exists>from. (from, Request val) \<in> set (m # ms)))"
    if "(to, Accept seq val) \<in> set outs"
  proof (cases "(to, Accept seq val) \<in> set outs1")
    case True
    from handle_accept [OF one this] have "quorum a (card (pa_promised a \<union> promiser m))" "val = pa_val a" by simp_all
    then show ?thesis by (auto simp: majority_def)
  next
    case False
    with that rest(2) IH have "majority a1 (pa_promised a1 \<union> promisers ms)"
      "val = pa_val a1 \<or> (\<exists>from. (from, Request val) \<in> set ms)" by auto
    moreover have "pa_val a1 = pa_val a \<or> (fst m, Request (pa_val a1)) \<in> set (m # ms)" using sets(4) by (cases m) auto
    ultimately show ?thesis using majority_mono [OF _ p] same by auto
  qed
  moreover have "(\<exists>from. (from, Selected seq val) \<in> set (m # ms)) \<or>
      majority a (pa_accepted a \<union> accepters (m # ms)) \<and> (\<exists>from. (from, Accepted seq val) \<in> set (m # ms))"
    if "(to, Selected seq val) \<in> set outs"
  proof (cases "(to, Selected seq val) \<in> set outs1")
    case True
    from handle_selected [OF one this, unfolded prod.collapse] show ?thesis
    proof
      assume "snd m = Selected seq val"
      then show ?thesis by (cases m) auto
    next
      assume "snd m = Accepted seq val \<and> quorum a (card (pa_accepted a \<union> accepter m))"
      moreover from this have "(fst m, Accepted seq val) \<in> set (m # ms)" by (cases m) auto
      ultimately show ?thesis by (auto simp: majority_def)
    qed
  next
    case False
    with that rest(2) IH show ?thesis using majority_mono [OF _ c] same by auto
  qed
  ultimately show ?case by blast
qed

section \<open>Several agents\<close>

text \<open>
  The agents by address, and for every pair of addresses the messages under way from the first
  to the second, in order.
\<close>

record paxos_net =
  pn_agents :: "string \<Rightarrow> paxos_agent"
  pn_links :: "string \<times> string \<Rightarrow> paxos_message list"

definition post ::
  "string \<Rightarrow> (string \<times> paxos_message) list \<Rightarrow> (string \<times> string \<Rightarrow> paxos_message list) \<Rightarrow>
   string \<times> string \<Rightarrow> paxos_message list"
where
  "post from outs links = fold (\<lambda>(target, m) ls. ls((from, target) := ls (from, target) @ [m])) outs links"

definition deliver ::
  "(string set \<Rightarrow> string list) \<Rightarrow> string \<times> string \<Rightarrow> paxos_net \<Rightarrow> paxos_net"
where
  "deliver iter link net =
     (case pn_links net link of
        [] \<Rightarrow> net
      | m # ms \<Rightarrow>
          let (outs, a) = agent_handle iter m (fst link) (pn_agents net (snd link))
          in \<lparr>pn_agents = (pn_agents net)(snd link := a),
              pn_links = post (snd link) outs ((pn_links net)(link := ms))\<rparr>)"

definition delivers :: "(string set \<Rightarrow> string list) \<Rightarrow> (string \<times> string) list \<Rightarrow> paxos_net \<Rightarrow> paxos_net" where
  "delivers iter links net = fold (deliver iter) links net"

text \<open>The start of the example: three nodes, three clients, each with its request at its node.\<close>

definition three_nodes :: paxos_net where
  "three_nodes =
     \<lparr>pn_agents = (\<lambda>tag. default_agent\<lparr>pa_me := tag, pa_peers := [''n0'', ''n1'', ''n2'']\<rparr>),
      pn_links = (\<lambda>_. [])((''A'', ''n0'') := [Request 30], (''B'', ''n1'') := [Request 73], (''C'', ''n2'') := [Request 42])\<rparr>"

definition split_schedule :: "(string \<times> string) list" where
  "split_schedule =
     [(''A'', ''n0''), (''n0'', ''n0''), (''n0'', ''n1''), (''n0'', ''n2''), (''n0'', ''n0''), (''n1'', ''n0''),
      (''n2'', ''n0''), (''n0'', ''n0''), (''n0'', ''n1''), (''n0'', ''n2''), (''n0'', ''n0''), (''n1'', ''n0''),
      (''n2'', ''n0''), (''n0'', ''n0''), (''n0'', ''n1''),
      (''B'', ''n1''), (''n1'', ''n1''), (''n1'', ''n2''), (''n1'', ''n1''), (''n2'', ''n1''),
      (''n0'', ''n2''), (''C'', ''n2''), (''n2'', ''n2''), (''n2'', ''n0''), (''n2'', ''n2''), (''n0'', ''n2''),
      (''n1'', ''n1''), (''n1'', ''n2''), (''n1'', ''n1''), (''n2'', ''n1''), (''n2'', ''n1''), (''n2'', ''n1''),
      (''n1'', ''n1''),
      (''n2'', ''n2''), (''n2'', ''n0''), (''n2'', ''n2''), (''n0'', ''n2''), (''n2'', ''n0''),
      (''n1'', ''n0''), (''n1'', ''n0''), (''n1'', ''n0''), (''n0'', ''n1''), (''n0'', ''n1''), (''n2'', ''n1''),
      (''n1'', ''n2''), (''n1'', ''n2''), (''n1'', ''n2''), (''n2'', ''n2'')]"

lemma in_post:
  "m \<in> set (post from outs links (p, q)) \<longleftrightarrow> m \<in> set (links (p, q)) \<or> p = from \<and> (q, m) \<in> set outs"
proof (induction outs arbitrary: links)
  case Nil
  then show ?case by (simp add: post_def)
next
  case (Cons out outs)
  have "post from (out # outs) links = post from outs (links((from, fst out) := links (from, fst out) @ [snd out]))"
    by (simp add: post_def split_beta)
  with Cons show ?case by (cases out) auto
qed

inductive paxos_step :: "(string set \<Rightarrow> string list) \<Rightarrow> paxos_net \<Rightarrow> paxos_net \<Rightarrow> bool" for iter where
  "pn_links net link \<noteq> [] \<Longrightarrow> paxos_step iter net (deliver iter link net)"

inductive_cases paxos_stepE: "paxos_step iter net net'"

text \<open>
  Values come from the requests: those under way, those stored, and the one an agent
  would propose, unless it has nothing to propose yet.
\<close>

primrec message_values :: "paxos_message \<Rightarrow> u64 set" where
  "message_values (Request val) = {val}"
| "message_values (Prepare seq) = {}"
| "message_values (Promise seq) = {}"
| "message_values (Ignored seq) = {}"
| "message_values (Accept seq val) = {val}"
| "message_values (Accepted seq val) = {val}"
| "message_values (Rejected seq) = {}"
| "message_values (Selected seq val) = {val}"
| "message_values Empty = {}"

definition idle :: "string \<Rightarrow> paxos_net \<Rightarrow> bool" where
  "idle p net \<longleftrightarrow>
     (\<forall>q seq. Prepare seq \<notin> set (pn_links net (p, q)) \<and> Promise seq \<notin> set (pn_links net (q, p)))"

definition values_in :: "u64 set \<Rightarrow> paxos_net \<Rightarrow> bool" where
  "values_in V net \<longleftrightarrow>
     (\<forall>link. \<forall>m \<in> set (pn_links net link). message_values m \<subseteq> V) \<and>
     (\<forall>p. snd ` set (pa_storage (pn_agents net p)) \<subseteq> V) \<and>
     (\<forall>p. pa_val (pn_agents net p) \<in> V \<or> idle p net)"

lemma handle_values:
  assumes "agent_handle iter m from a = (outs, a')" "message_values m \<subseteq> V"
    and "snd ` set (pa_storage a) \<subseteq> V" "pa_val a \<in> V \<or> (\<forall>seq. m \<noteq> Promise seq)"
  shows "(to, m') \<in> set outs \<Longrightarrow> message_values m' \<subseteq> V"
    and "snd ` set (pa_storage a') \<subseteq> V"
    and "pa_val a' \<in> V \<or> pa_val a' = pa_val a \<and> (\<forall>to seq. (to, Prepare seq) \<notin> set outs)"
proof -
  show "(to, m') \<in> set outs \<Longrightarrow> message_values m' \<subseteq> V"
    using assms(1,2,4) by (cases m) (auto simp: Let_def split: if_splits)
  show "snd ` set (pa_storage a') \<subseteq> V"
    using assms(1-3) unfolding image_subset_iff by (cases m) (auto simp: Let_def split: if_splits)
  show "pa_val a' \<in> V \<or> pa_val a' = pa_val a \<and> (\<forall>to seq. (to, Prepare seq) \<notin> set outs)"
    using assms(1,2) by (cases m) (auto simp: Let_def split: if_splits)
qed

text \<open>A promise answers a proposal, and goes back to where it came from.\<close>

lemma handle_promises_to:
  "agent_handle iter m from a = (outs, a') \<Longrightarrow> (to, Promise seq) \<in> set outs \<Longrightarrow> to = from \<and> m = Prepare seq"
  by (cases m) (auto simp: Let_def split: if_splits)

lemma values_in_step:
  assumes "values_in V net" "paxos_step iter net net'"
  shows "values_in V net'"
proof -
  from assms(2) obtain link where 1: "net' = deliver iter link net" "pn_links net link \<noteq> []"
    by (rule paxos_stepE)
  obtain x y where link: "link = (x, y)" by fastforce
  obtain m ms where ms: "pn_links net (x, y) = m # ms" using 1 link by (cases "pn_links net (x, y)") auto
  let ?a = "pn_agents net y"
  obtain outs a' where h: "agent_handle iter m x ?a = (outs, a')" by fastforce
  let ?links = "(pn_links net)((x, y) := ms)"
  have net': "net' = \<lparr>pn_agents = (pn_agents net)(y := a'), pn_links = post y outs ?links\<rparr>"
    using 1 ms h link by (simp add: deliver_def)
  have old: "m' \<in> set (?links l) \<Longrightarrow> m' \<in> set (pn_links net l)" for m' l
    using ms by (cases "l = (x, y)") auto
  have in_link: "m' \<in> set (pn_links net' (p, q)) \<longleftrightarrow> m' \<in> set (?links (p, q)) \<or> p = y \<and> (q, m') \<in> set outs" for m' p q
    unfolding net' paxos_net.simps by (rule in_post)
  have vals: "message_values m' \<subseteq> V" if "m' \<in> set (pn_links net l)" for m' l
    using assms(1) that unfolding values_in_def by blast
  have stored: "snd ` set (pa_storage (pn_agents net p)) \<subseteq> V" for p using assms(1) unfolding values_in_def by blast
  have proposes: "pa_val (pn_agents net p) \<in> V \<or> idle p net" for p using assms(1) unfolding values_in_def by blast
  have m: "message_values m \<subseteq> V" using vals [of m "(x, y)"] ms by simp
  have own: "pa_val ?a \<in> V \<or> (\<forall>seq. m \<noteq> Promise seq)"
    using proposes [of y] ms unfolding idle_def by (metis list.set_intros(1))
  note hv = handle_values [OF h m stored own]
  show ?thesis
    unfolding values_in_def
  proof (intro conjI allI ballI)
    fix l m'
    assume "m' \<in> set (pn_links net' l)"
    then consider "m' \<in> set (?links l)" | "(snd l, m') \<in> set outs"
      using in_link [of m' "fst l" "snd l", unfolded prod.collapse] by blast
    then show "message_values m' \<subseteq> V" by cases (use old vals hv(1) in blast)+
  next
    fix p
    show "snd ` set (pa_storage (pn_agents net' p)) \<subseteq> V" using stored hv(2) by (simp add: net')
  next
    fix p
    have idle: "idle p net'" if "idle p net" "p = y \<longrightarrow> (\<forall>to seq. (to, Prepare seq) \<notin> set outs)"
    proof -
      have "Prepare seq \<notin> set (pn_links net' (p, q))" for q seq
        using that in_link old unfolding idle_def by blast
      moreover have "Promise seq \<notin> set (pn_links net' (q, p))" for q seq
      proof
        assume "Promise seq \<in> set (pn_links net' (q, p))"
        moreover have "Promise seq \<notin> set (pn_links net (q, p))" using that(1) unfolding idle_def by blast
        ultimately have "(p, Promise seq) \<in> set outs" using in_link old by blast
        from handle_promises_to [OF h this] have "p = x" "m = Prepare seq" by simp_all
        with that(1) ms show False unfolding idle_def by (metis list.set_intros(1))
      qed
      ultimately show ?thesis unfolding idle_def by blast
    qed
    show "pa_val (pn_agents net' p) \<in> V \<or> idle p net'"
    proof (cases "p = y")
      case True
      from hv(3) show ?thesis
      proof (elim disjE conjE)
        assume "pa_val a' \<in> V"
        with True show ?thesis by (simp add: net')
      next
        assume "pa_val a' = pa_val ?a" "\<forall>to seq. (to, Prepare seq) \<notin> set outs"
        with proposes [of y] idle True show ?thesis by (auto simp: net')
      qed
    next
      case False
      with proposes [of p] idle show ?thesis by (auto simp: net')
    qed
  qed
qed

text \<open>Nothing but requests under way, and nothing stored.\<close>

definition only_requests :: "u64 set \<Rightarrow> paxos_net \<Rightarrow> bool" where
  "only_requests V net \<longleftrightarrow>
     (\<forall>link. \<forall>m \<in> set (pn_links net link). \<exists>val \<in> V. m = Request val) \<and> (\<forall>p. pa_storage (pn_agents net p) = [])"

lemma only_requests_values: "only_requests V net \<Longrightarrow> values_in V net"
  unfolding only_requests_def values_in_def idle_def by fastforce

lemma values_in_reachable:
  "(paxos_step iter)\<^sup>*\<^sup>* net net' \<Longrightarrow> values_in V net \<Longrightarrow> values_in V net'"
  by (induction rule: rtranclp_induct) (auto intro: values_in_step)

lemma delivers_reachable: "(paxos_step iter)\<^sup>*\<^sup>* net (delivers iter links net)"
proof (induction links arbitrary: net)
  case Nil
  then show ?case by (simp add: delivers_def)
next
  case (Cons link links)
  have "(paxos_step iter)\<^sup>*\<^sup>* net (deliver iter link net)"
  proof (cases "pn_links net link = []")
    case True
    then show ?thesis by (simp add: deliver_def)
  next
    case False
    then show ?thesis by (intro r_into_rtranclp paxos_step.intros)
  qed
  with Cons [of "deliver iter link net"] show ?case by (simp add: delivers_def)
qed

section \<open>Properties\<close>



text \<open>
  An agent keeps its promises as long as it hears no stale decision. Over any sequence of messages in
  which every \<open>Selected\<close> is at least as recent as the agent's own number, the numbers it promises
  increase strictly, so that no number is promised to two proposers, and after a promise it accepts nothing
  with a smaller number.
\<close>

theorem promises_increase:
  assumes "agent_run iter ms a = (outs, a')" "up_to_date iter ms a"
    and "agent_run iter ms' a' = (outs', a'')" "up_to_date iter ms' a'"
  shows "sorted_wrt (<) (promises (outs @ outs')) \<and> pa_seq a \<le> pa_seq a'' \<and>
    (\<forall>seq \<in> set (promises outs). \<forall>to seq' val. (to, Accepted seq' val) \<in> set outs' \<longrightarrow> seq \<le> seq')"
proof -
  note one = run_promises [OF assms(1,2)] and two = run_promises [OF assms(3,4)]
  have "seq < seq'" if "seq \<in> set (promises outs)" "seq' \<in> set (promises outs')" for seq seq'
    using that one two by (auto intro: order.strict_trans1)
  moreover have "seq \<le> seq'" if "seq \<in> set (promises outs)" "(to, Accepted seq' val) \<in> set outs'" for seq to seq' val
    using that one two by (meson order_trans)
  ultimately show ?thesis using one two by (auto simp: sorted_wrt_append)
qed

theorem promises_increase_witness:
  "\<exists>outs a' outs' a''. agent_run sorted_list_of_set [(''p'', Prepare 3), (''q'', Prepare 3)] default_agent = (outs, a') \<and>
    agent_run sorted_list_of_set [(''p'', Prepare 5), (''p'', Accept 4 1)] a' = (outs', a'') \<and>
    promises (outs @ outs') = [3, 5] \<and> sorted_wrt (<) (promises (outs @ outs'))"
proof -
  let ?ms = "[(''p'', Prepare 3), (''q'', Prepare 3)]" and ?ms' = "[(''p'', Prepare 5), (''p'', Accept 4 1)]"
  obtain outs a' where one: "agent_run sorted_list_of_set ?ms default_agent = (outs, a')" by fastforce
  obtain outs' a'' where two: "agent_run sorted_list_of_set ?ms' a' = (outs', a'')" by fastforce
  have "up_to_date sorted_list_of_set ?ms default_agent" "up_to_date sorted_list_of_set ?ms' a'" by simp_all
  from promises_increase [OF one this(1) two this(2)] one two show ?thesis
    by (auto simp: default_agent_def)
qed

text \<open>
  Behind every broadcast there is a majority. An agent that starts with nothing heard sends \<open>Accept\<close>
  only after promises from more than half of its peers, for a value it was asked for last; and it
  sends \<open>Selected\<close> only when it was told so, or after more than half of its peers had accepted, one of them
  that very number and value.
\<close>

theorem broadcasts_rest_on_majorities:
  assumes "agent_run iter ms a = (outs, a')" "pa_promised a = {}" "pa_accepted a = {}"
  shows "((to, Accept seq val) \<in> set outs \<longrightarrow>
      majority a (promisers ms) \<and> (val = pa_val a \<or> (\<exists>from. (from, Request val) \<in> set ms))) \<and>
    ((to, Selected seq val) \<in> set outs \<longrightarrow>
      (\<exists>from. (from, Selected seq val) \<in> set ms) \<or>
      majority a (accepters ms) \<and> (\<exists>from. (from, Accepted seq val) \<in> set ms))"
  using run_majorities [OF assms(1), of to seq val] assms(2,3) by simp

theorem broadcasts_rest_on_majorities_witness:
  "majority (default_agent\<lparr>pa_peers := [''p'', ''q'', ''r'']\<rparr>)
    (promisers [(''c'', Request 42), (''p'', Promise 1), (''q'', Promise 1)])"
proof -
  let ?a = "default_agent\<lparr>pa_peers := [''p'', ''q'', ''r'']\<rparr>"
  let ?ms = "[(''c'', Request 42), (''p'', Promise 1), (''q'', Promise 1)]"
  obtain outs a' where run: "agent_run sorted_list_of_set ?ms ?a = (outs, a')" by fastforce
  then have "(''r'', Accept 1 42) \<in> set outs" by (auto simp: default_agent_def quorum_def to_all_def)
  with broadcasts_rest_on_majorities [OF run, of "''r''" 1 42] show ?thesis by (simp add: default_agent_def)
qed

text \<open>
  C29. Only requested values are ever selected. However the messages between any number of agents and
  clients are interleaved, from a start with requests for values in \<open>V\<close> and nothing stored, every value an
  agent stores and every value under way is one of \<open>V\<close>: the default value of an agent that was asked
  for nothing is never proposed.
\<close>

theorem selected_was_requested:
  assumes "only_requests V net" "(paxos_step iter)\<^sup>*\<^sup>* net net'"
  shows "snd ` set (pa_storage (pn_agents net' p)) \<subseteq> V \<and>
    (Selected seq val \<in> set (pn_links net' link) \<longrightarrow> val \<in> V)"
proof -
  have "values_in V net'" using values_in_reachable [OF assms(2)] only_requests_values [OF assms(1)] .
  then show ?thesis unfolding values_in_def by fastforce
qed

theorem selected_was_requested_witness:
  "snd ` set (pa_storage (pn_agents (delivers sorted_list_of_set split_schedule three_nodes) ''n0'')) \<subseteq> {30, 42, 73}"
proof -
  have "only_requests {30, 42, 73} three_nodes"
    by (auto simp: only_requests_def three_nodes_def default_agent_def)
  from selected_was_requested [OF this delivers_reachable, where p = "''n0''"] show ?thesis by blast
qed

text \<open>
  C30. The agents do not agree. With the three nodes and the three clients of the example, each of which
  asks its node for one value, and links that deliver in order, there is an execution after which nothing is under
  way between the nodes, every node has stored the three values, and the logs of two nodes are in different
  orders, with two different values under the same number. (A node lowers its number when it hears a stale
  \<open>Selected\<close>, and promises the same number again, to another proposer.)
\<close>

theorem agents_disagree:
  "\<exists>net. (paxos_step sorted_list_of_set)\<^sup>*\<^sup>* three_nodes net \<and>
    concat (map (pn_links net) (List.product [''n0'', ''n1'', ''n2''] [''n0'', ''n1'', ''n2''])) = [] \<and>
    pa_storage (pn_agents net ''n0'') = [(1, 30), (2, 42), (2, 73)] \<and>
    pa_storage (pn_agents net ''n1'') = [(1, 30), (2, 73), (2, 42)]"
proof -
  let ?net = "delivers sorted_list_of_set split_schedule three_nodes"
  have "concat (map (pn_links ?net) (List.product [''n0'', ''n1'', ''n2''] [''n0'', ''n1'', ''n2''])) = [] \<and>
    pa_storage (pn_agents ?net ''n0'') = [(1, 30), (2, 42), (2, 73)] \<and>
    pa_storage (pn_agents ?net ''n1'') = [(1, 30), (2, 73), (2, 42)]"
    by (simp add: split_schedule_def three_nodes_def delivers_def deliver_def post_def default_agent_def
        quorum_def to_all_def Let_def)
  then show ?thesis using delivers_reachable by blast
qed

end
