(* ===== verification/Gossip.thy ===== *)
theory Gossip
  imports Net
begin

text \<open>
  The membership example of the repository, \<open>examples/gossip.rs\<close>: agents that count
  heartbeats, tell each other the beats they know and declare silent peers down; their messages and
  wire form; and the countdown that waits for all of them. Beats and times are \<open>u64\<close> and wrap as in the
  release build. The time an agent works with, milliseconds since it was created, is computed
  from the reading \<open>now\<close> of the clock.
\<close>

section \<open>State\<close>

record peer =
  peer_tag :: string
  peer_beat :: u64
  peer_seen :: u64

record gossip_agent =
  ga_tag :: string
  ga_beat :: u64
  ga_peers :: "peer list"
  ga_down :: "string set"
  ga_horizon :: u64
  ga_period :: u64
  ga_tick :: u64
  ga_zero :: instant
  ga_countdown :: string

definition default_gossip_agent :: "instant \<Rightarrow> gossip_agent" where
  "default_gossip_agent now =
     \<lparr>ga_tag = '''', ga_beat = 0, ga_peers = [], ga_down = {}, ga_horizon = 0, ga_period = 0, ga_tick = 0,
      ga_zero = now, ga_countdown = ''''\<rparr>"

datatype gossip_event = New string | Out string

section \<open>Gossiping and detecting\<close>

definition alive :: "u64 \<Rightarrow> gossip_agent \<Rightarrow> peer \<Rightarrow> bool" where
  "alive time a p \<longleftrightarrow> time \<le> peer_seen p + ga_horizon a"

definition gossip :: "u64 \<Rightarrow> gossip_agent \<Rightarrow> (string \<times> u64) list" where
  "gossip time a =
     (let peers = map (\<lambda>p. (peer_tag p, peer_beat p)) (filter (alive time a) (ga_peers a))
      in if length peers < 2 then [(ga_tag a, ga_beat a)]
         else [peers ! (unat (ga_beat a) mod length peers), (ga_tag a, ga_beat a)])"

text \<open>The loop of \<open>detect\<close> over the peers: the events and the set of those down.\<close>

primrec detect_loop ::
  "u64 \<Rightarrow> gossip_agent \<Rightarrow> peer list \<Rightarrow> string set \<Rightarrow> gossip_event list \<times> string set"
where
  "detect_loop time a [] down = ([], down)"
| "detect_loop time a (p # ps) down =
     (if peer_seen p + ga_horizon a < time \<and> peer_tag p \<notin> down
      then let (events, down') = detect_loop time a ps (insert (peer_tag p) down)
           in (Out (peer_tag p) # events, down')
      else detect_loop time a ps down)"

definition detect :: "u64 \<Rightarrow> gossip_agent \<Rightarrow> gossip_event list \<times> gossip_agent" where
  "detect time a =
     (let (events, down) = detect_loop time a (ga_peers a) (ga_down a) in (events, a\<lparr>ga_down := down\<rparr>))"

text \<open>\<open>iter_mut().find\<close>: the first peer of that tag is updated.\<close>

primrec update_peer :: "u64 \<Rightarrow> string \<Rightarrow> u64 \<Rightarrow> peer list \<Rightarrow> peer list option" where
  "update_peer time tag beat [] = None"
| "update_peer time tag beat (p # ps) =
     (if peer_tag p = tag
      then Some ((if peer_beat p < beat then p\<lparr>peer_beat := beat, peer_seen := time\<rparr> else p) # ps)
      else map_option ((#) p) (update_peer time tag beat ps))"

definition accept_one :: "u64 \<Rightarrow> string \<times> u64 \<Rightarrow> gossip_agent \<Rightarrow> gossip_event list \<times> gossip_agent" where
  "accept_one time pair a =
     (let (tag, beat) = pair
      in if tag = ga_tag a then ([], a)
         else case update_peer time tag beat (ga_peers a) of
                Some peers \<Rightarrow> ([], a\<lparr>ga_peers := peers\<rparr>)
              | None \<Rightarrow> ([New tag],
                  a\<lparr>ga_peers := ga_peers a @ [\<lparr>peer_tag = tag, peer_beat = beat, peer_seen = time\<rparr>]\<rparr>))"

primrec accept_all :: "u64 \<Rightarrow> (string \<times> u64) list \<Rightarrow> gossip_agent \<Rightarrow> gossip_event list \<times> gossip_agent" where
  "accept_all time [] a = ([], a)"
| "accept_all time (g # gs) a =
     (let (events, a1) = accept_one time g a; (events', a2) = accept_all time gs a1 in (events @ events', a2))"

definition accept :: "u64 \<Rightarrow> (string \<times> u64) list \<Rightarrow> gossip_agent \<Rightarrow> gossip_event list \<times> gossip_agent" where
  "accept time pairs a =
     (let (events, a1) = accept_all time pairs a; (events', a2) = detect time a1 in (events @ events', a2))"

section \<open>Messages\<close>

text \<open>\<open>Message::Stop\<close> and \<open>Message::Init\<close> are renamed: the other names are the source's.\<close>

datatype gossip_message =
    Ping string u64
  | Pong string u64
  | Gossip "(string \<times> u64) list"
  | Stop_Peer
  | Tick
  | Init_Peer u64 u64 u64 "string list" string

definition put_pair :: "'b bytes_mut \<Rightarrow> string \<Rightarrow> u64 \<Rightarrow> 'b \<Rightarrow> 'b" where
  "put_pair B tag beat buf =
     (let buf1 = bm_put_u8 B (word_of_nat (length tag)) buf;
          buf2 = bm_put B (as_bytes tag) buf1
      in bm_put_u64 B beat buf2)"

definition gossip_encode :: "'b bytes_mut \<Rightarrow> gossip_message \<Rightarrow> byte list" where
  "gossip_encode B message =
     (let buf = bm_new B
      in bm_split B (case message of
           Ping target beat \<Rightarrow> put_pair B target beat (bm_put_u8 B 1 buf)
         | Pong target beat \<Rightarrow> put_pair B target beat (bm_put_u8 B 2 buf)
         | Gossip pairs \<Rightarrow>
             fold (\<lambda>(tag, beat). put_pair B tag beat) pairs
               (bm_put_u8 B (word_of_nat (length pairs)) (bm_put_u8 B 3 buf))
         | Stop_Peer \<Rightarrow> bm_put_u8 B 4 buf
         | _ \<Rightarrow> bm_put_u8 B 0 buf))"

definition get_pair :: "'r bytes_buf \<Rightarrow> 'r \<Rightarrow> ((string \<times> u64) \<times> 'r) outcome" where
  "get_pair R buf =
     and_then (by_get_u8 R buf) (\<lambda>(n, buf1).
     and_then (by_copy_to_bytes R (unat n) buf1) (\<lambda>(v, buf2).
     and_then (by_get_u64 R buf2) (\<lambda>(b, buf3).
     and_then (unwrap (from_utf8 v)) (\<lambda>tag. Ret ((tag, b), buf3)))))"

primrec get_pairs :: "'r bytes_buf \<Rightarrow> nat \<Rightarrow> 'r \<Rightarrow> ((string \<times> u64) list \<times> 'r) outcome" where
  "get_pairs R 0 buf = Ret ([], buf)"
| "get_pairs R (Suc k) buf =
     and_then (get_pair R buf) (\<lambda>(pair, buf1).
     and_then (get_pairs R k buf1) (\<lambda>(pairs, buf2). Ret (pair # pairs, buf2)))"

definition gossip_decode :: "'r bytes_buf \<Rightarrow> byte list \<Rightarrow> gossip_message outcome" where
  "gossip_decode R bytes =
     and_then (by_get_u8 R (by_from_vec R bytes)) (\<lambda>(op, buf).
       if op = 1 then and_then (get_pair R buf) (\<lambda>((tag, b), buf'). Ret (Ping tag b))
       else if op = 2 then and_then (get_pair R buf) (\<lambda>((tag, b), buf'). Ret (Pong tag b))
       else if op = 3 then
         and_then (by_get_u8 R buf) (\<lambda>(k, buf1).
         and_then (get_pairs R (unat k) buf1) (\<lambda>(peers, buf2). Ret (Gossip peers)))
       else if op = 4 then Ret Stop_Peer
       else Ret Tick)"

section \<open>The agent\<close>

text \<open>What the example sends by value: \<open>Message\<close> itself, and the \<open>Setup\<close> of the countdown.\<close>

datatype 'tx gossip_local =
    Local_Message gossip_message
  | Countdown_Setup u64 'tx

definition elapsed_millis :: "instant \<Rightarrow> instant \<Rightarrow> u64" where
  "elapsed_millis zero now = word_of_nat ((now - zero) div 1000000)"

text \<open>The shared part of \<open>Ping\<close> and \<open>Pong\<close>: the peer at the other end becomes known.\<close>

definition meets_stranger :: "tag \<Rightarrow> string \<Rightarrow> gossip_agent \<Rightarrow> bool" where
  "meets_stranger me from a =
     (let is_known = (\<exists>p \<in> set (ga_peers a). peer_tag p = me);
          is_self = (me = from)
      in \<not> is_self \<and> \<not> is_known)"

definition on_message ::
  "'b bytes_mut \<Rightarrow> u64 \<Rightarrow> tag \<Rightarrow> string \<Rightarrow> gossip_message \<Rightarrow> gossip_agent \<Rightarrow>
   ('a, 'tx gossip_local message) call list \<times> gossip_agent"
where
  "on_message B time me from message a =
     (case message of
        Gossip peers \<Rightarrow> ([], snd (accept time peers a))
      | Ping target beat \<Rightarrow>
          let a1 = a\<lparr>ga_tag := target\<rparr>
          in if meets_stranger me from a1
             then ([Send from (with_from (envelope_of (Bytes (gossip_encode B (Pong from (ga_beat a1))))) me)],
                   snd (accept time [(from, beat)] a1))
             else ([], a1)
      | Pong target beat \<Rightarrow>
          let a1 = a\<lparr>ga_tag := target\<rparr>
          in if meets_stranger me from a1 then ([], snd (accept time [(from, beat)] a1)) else ([], a1)
      | Stop_Peer \<Rightarrow> ([Stop me, Send (ga_countdown a) (envelope_of (Bytes (as_bytes me)))], a)
      | _ \<Rightarrow> ([], a))"

text \<open>\<open>now'\<close> is the reading of the clock by \<open>sender.delay\<close>.\<close>

definition on_tick ::
  "'b bytes_mut \<Rightarrow> u64 \<Rightarrow> instant \<Rightarrow> tag \<Rightarrow> gossip_agent \<Rightarrow>
   ('a, 'tx gossip_local message) call list \<times> gossip_agent"
where
  "on_tick B time now' me a =
     (let a1 = a\<lparr>ga_beat := ga_beat a + 1\<rparr>;
          delay = Delay now' me (envelope_of (Opaque (Local_Message Tick))) (unat (ga_tick a) * 1000000)
      in if unat (ga_period a1) dvd unat (ga_beat a1)
         then let a2 = snd (detect time a1);
                  bytes = gossip_encode B (Gossip (gossip time a2))
              in (map (\<lambda>p. Send (peer_tag p) (with_from (envelope_of (Bytes bytes)) me)) (ga_peers a2) @ [delay], a2)
         else ([delay], a1))"

definition on_init ::
  "'b bytes_mut \<Rightarrow> tag \<Rightarrow> u64 \<Rightarrow> u64 \<Rightarrow> u64 \<Rightarrow> string list \<Rightarrow> string \<Rightarrow> gossip_agent \<Rightarrow>
   ('a, 'tx gossip_local message) call list \<times> gossip_agent"
where
  "on_init B me horizon tick period pings countdown a =
     (let a1 = a\<lparr>ga_horizon := horizon, ga_tick := tick, ga_period := period, ga_countdown := countdown\<rparr>
      in (Send me (envelope_of (Opaque (Local_Message Tick)))
            # map (\<lambda>tag. Send tag (with_from (envelope_of (Bytes (gossip_encode B (Ping tag (ga_beat a1))))) me)) pings,
          a1))"

definition gossip_receive ::
  "'r bytes_buf \<Rightarrow> 'b bytes_mut \<Rightarrow> instant \<Rightarrow> instant \<Rightarrow> tag \<Rightarrow> 'tx gossip_local message envelope \<Rightarrow> gossip_agent \<Rightarrow>
   ('a, 'tx gossip_local message) call list \<times> gossip_agent \<times> bool"
where
  "gossip_receive R B now now' me envelope a =
     (let time = elapsed_millis (ga_zero a) now
      in case env_message envelope of
           Bytes buf \<Rightarrow>
             (case gossip_decode R buf of
                Panic \<Rightarrow> ([], a, False)
              | Ret message \<Rightarrow>
                  let (calls, a') = on_message B time me (env_from envelope) message a in (calls, a', True))
         | Opaque (Local_Message Tick) \<Rightarrow> let (calls, a') = on_tick B time now' me a in (calls, a', True)
         | Opaque (Local_Message (Init_Peer horizon tick period pings countdown)) \<Rightarrow>
             let (calls, a') = on_init B me horizon tick period pings countdown a in (calls, a', True)
         | _ \<Rightarrow> ([], a, True))"

section \<open>The countdown\<close>

record 'tx countdown =
  cd_n :: u64
  cd_tx :: "'tx option"

definition default_countdown :: "'tx countdown" where
  "default_countdown = \<lparr>cd_n = 0, cd_tx = None\<rparr>"

text \<open>\<open>tx_send\<close> is the send on the channel to \<open>main\<close>: whether it succeeded, and the outside after it.\<close>

definition countdown_receive ::
  "('tx \<Rightarrow> 'io \<Rightarrow> bool \<times> 'io) \<Rightarrow> tag \<Rightarrow> 'tx gossip_local message envelope \<Rightarrow> 'tx countdown \<Rightarrow> 'io \<Rightarrow>
   ('a, 'tx gossip_local message) call list \<times> 'tx countdown \<times> 'io \<times> bool"
where
  "countdown_receive tx_send me envelope c io =
     (case env_message envelope of
        Opaque (Countdown_Setup n tx) \<Rightarrow> ([], c\<lparr>cd_n := n, cd_tx := Some tx\<rparr>, io, True)
      | Bytes vec \<Rightarrow>
          (case from_utf8 vec of
             None \<Rightarrow> ([], c, io, False)
           | Some tag \<Rightarrow>
               let c1 = c\<lparr>cd_n := cd_n c - 1\<rparr>
               in if cd_n c1 = 0
                  then case cd_tx c1 of
                         None \<Rightarrow> ([], c1, io, False)
                       | Some tx \<Rightarrow>
                           (case tx_send tx io of
                              (True, io') \<Rightarrow> ([Stop me], c1, io', True)
                            | (False, io') \<Rightarrow> ([], c1, io', False))
                  else ([], c1, io, True))
      | _ \<Rightarrow> ([], c, io, True))"

end
