(* ===== verification/Gossip_Claims.thy ===== *)
theory Gossip_Claims
  imports Gossip
begin

text \<open>
  The membership example: its codec loses what does not fit a byte, the beats an agent knows are
  the maxima of what it was told, and a silent peer is declared down exactly once.
\<close>

section \<open>The wire form\<close>

definition pair_wire :: "string \<times> u64 \<Rightarrow> byte list" where
  "pair_wire p = word_of_nat (length (fst p)) # as_bytes (fst p) @ be 8 (unat (snd p))"

primrec gossip_wire :: "gossip_message \<Rightarrow> byte list" where
  "gossip_wire (Ping target beat) = 1 # pair_wire (target, beat)"
| "gossip_wire (Pong target beat) = 2 # pair_wire (target, beat)"
| "gossip_wire (Gossip pairs) = 3 # word_of_nat (length pairs) # concat (map pair_wire pairs)"
| "gossip_wire Stop_Peer = [4]"
| "gossip_wire Tick = [0]"
| "gossip_wire (Init_Peer horizon tick period pings countdown) = [0]"

text \<open>What a message must be to survive: lengths of one byte, and not \<open>Init\<close>.\<close>

definition short :: "string \<times> u64 \<Rightarrow> bool" where
  "short p \<longleftrightarrow> length (fst p) < 256"

primrec wireable :: "gossip_message \<Rightarrow> bool" where
  "wireable (Ping target beat) = short (target, beat)"
| "wireable (Pong target beat) = short (target, beat)"
| "wireable (Gossip pairs) = (length pairs < 256 \<and> (\<forall>p \<in> set pairs. short p))"
| "wireable Stop_Peer = True"
| "wireable Tick = True"
| "wireable (Init_Peer horizon tick period pings countdown) = False"

text \<open>Every Rust string is UTF-8.\<close>

primrec texts_ok :: "gossip_message \<Rightarrow> bool" where
  "texts_ok (Ping target beat) = is_utf8 target"
| "texts_ok (Pong target beat) = is_utf8 target"
| "texts_ok (Gossip pairs) = (\<forall>p \<in> set pairs. is_utf8 (fst p))"
| "texts_ok Stop_Peer = True"
| "texts_ok Tick = True"
| "texts_ok (Init_Peer horizon tick period pings countdown) = True"

lemma put_pair_wire:
  assumes "big_endian_writer B written"
  shows "written (put_pair B tag beat buf) = written buf @ pair_wire (tag, beat)"
  using assms by (simp add: put_pair_def pair_wire_def big_endian_writer_def Let_def)

lemma put_pairs_wire:
  assumes "big_endian_writer B written"
  shows "written (fold (\<lambda>(tag, beat). put_pair B tag beat) pairs buf) = written buf @ concat (map pair_wire pairs)"
  by (induction pairs arbitrary: buf) (auto simp: put_pair_wire [OF assms])

lemma gossip_encode_wire:
  assumes "big_endian_writer B written"
  shows "gossip_encode B m = gossip_wire m"
  using assms put_pair_wire [OF assms] put_pairs_wire [OF assms]
  by (cases m) (simp_all add: gossip_encode_def big_endian_writer_def)

lemma unat_byte_bound: "unat (b :: byte) < 256"
  by (rule order.strict_trans2 [OF unsigned_less]) simp

context big_endian_reader
begin

lemma get_pair_wire:
  assumes "remaining r = pair_wire p @ rest" "short p" "is_utf8 (fst p)"
  obtains r' where "get_pair R r = Ret (p, r')" "remaining r' = rest"
proof -
  obtain r1 where r1: "by_get_u8 R r = Ret (word_of_nat (length (fst p)), r1)"
    "remaining r1 = as_bytes (fst p) @ be 8 (unat (snd p)) @ rest"
    using assms(1) get_u8_Cons [of r] by (auto simp: pair_wire_def)
  obtain r2 where r2: "by_copy_to_bytes R (length (fst p)) r1 = Ret (as_bytes (fst p), r2)"
    "remaining r2 = be 8 (unat (snd p)) @ rest"
    using copy_append [OF r1(2)] by auto
  obtain r3 where "by_get_u64 R r2 = Ret (snd p, r3)" "remaining r3 = rest"
    using get_u64_append [OF r2(2)] .
  moreover have "unat (word_of_nat (length (fst p)) :: byte) = length (fst p)"
    using assms(2) by (simp add: short_def unat_byte_of_nat)
  ultimately show thesis
    using that [of r3] r1(1) r2(1) assms(3) by (simp add: get_pair_def from_utf8_as_bytes)
qed

lemma get_pairs_wire:
  "remaining r = concat (map pair_wire ps) @ rest \<Longrightarrow> \<forall>p \<in> set ps. short p \<and> is_utf8 (fst p) \<Longrightarrow>
   \<exists>r'. get_pairs R (length ps) r = Ret (ps, r') \<and> remaining r' = rest"
proof (induction ps arbitrary: r)
  case Nil
  then show ?case by simp
next
  case (Cons p ps)
  then have "remaining r = pair_wire p @ concat (map pair_wire ps) @ rest" "short p" "is_utf8 (fst p)" by simp_all
  then obtain r1 where "get_pair R r = Ret (p, r1)" "remaining r1 = concat (map pair_wire ps) @ rest"
    by (rule get_pair_wire)
  with Cons.IH [of r1] Cons.prems(2) show ?case by auto
qed

lemma gossip_decode_wire:
  assumes "wireable m" "texts_ok m"
  shows "gossip_decode R (gossip_wire m @ rest) = Ret m"
proof -
  obtain b bs where wire: "gossip_wire m @ rest = b # bs" by (cases m) auto
  then obtain r where r: "by_get_u8 R (by_from_vec R (gossip_wire m @ rest)) = Ret (b, r)"
    "b # remaining r = gossip_wire m @ rest"
    by (metis get_u8_Cons from_vec)
  show ?thesis
  proof (cases m)
    case (Ping target beat)
    with r have "remaining r = pair_wire (target, beat) @ rest" by simp
    then obtain r' where "get_pair R r = Ret ((target, beat), r')"
      using get_pair_wire [of r "(target, beat)" rest] assms Ping by auto
    with r Ping show ?thesis by (simp add: gossip_decode_def)
  next
    case (Pong target beat)
    with r have "remaining r = pair_wire (target, beat) @ rest" by simp
    then obtain r' where "get_pair R r = Ret ((target, beat), r')"
      using get_pair_wire [of r "(target, beat)" rest] assms Pong by auto
    with r Pong show ?thesis by (simp add: gossip_decode_def)
  next
    case (Gossip pairs)
    with r obtain r1 where one: "by_get_u8 R r = Ret (word_of_nat (length pairs), r1)"
      "remaining r1 = concat (map pair_wire pairs) @ rest"
      using get_u8_Cons [of r] by auto
    from get_pairs_wire [OF this(2)] obtain r2 where "get_pairs R (length pairs) r1 = Ret (pairs, r2)"
      using assms Gossip by auto
    moreover have "unat (word_of_nat (length pairs) :: byte) = length pairs"
      using assms(1) Gossip by (simp add: unat_byte_of_nat)
    ultimately show ?thesis using r one(1) Gossip by (simp add: gossip_decode_def)
  qed (use r assms in \<open>simp_all add: gossip_decode_def\<close>)
qed

text \<open>Whatever is decoded fits.\<close>

lemma get_pair_short:
  assumes "get_pair R r = Ret (p, r')"
  shows "short p"
proof -
  obtain n r1 v r2 where one: "by_get_u8 R r = Ret (n, r1)" "by_copy_to_bytes R (unat n) r1 = Ret (v, r2)"
    "from_utf8 v = Some (fst p)"
    using assms by (auto simp: get_pair_def)
  from copy_to_bytes [of "unat n" r1] one(2) have "length v = unat n"
    by (auto simp: takes_def split: if_splits)
  moreover have "length (fst p) = length v" using from_utf8_Some [OF one(3)] by (metis length_as_bytes)
  ultimately show ?thesis using unat_byte_bound [of n] by (simp add: short_def)
qed

lemma get_pairs_short: "get_pairs R k r = Ret (ps, r') \<Longrightarrow> length ps = k \<and> (\<forall>p \<in> set ps. short p)"
  by (induction k arbitrary: r ps) (auto dest: get_pair_short)

lemma gossip_decode_short: "gossip_decode R bs = Ret m \<Longrightarrow> wireable m"
  using unat_byte_bound
  by (auto simp: gossip_decode_def split: if_splits dest!: get_pair_short get_pairs_short)

end

section \<open>The beats an agent knows\<close>

definition beat_of :: "gossip_agent \<Rightarrow> string \<Rightarrow> u64 option" where
  "beat_of a = map_of (map (\<lambda>p. (peer_tag p, peer_beat p)) (ga_peers a))"

definition tags_of :: "peer list \<Rightarrow> string list" where
  "tags_of ps = map peer_tag ps"

definition peers_ok :: "gossip_agent \<Rightarrow> bool" where
  "peers_ok a \<longleftrightarrow> distinct (tags_of (ga_peers a)) \<and> ga_tag a \<notin> set (tags_of (ga_peers a))"

text \<open>The largest of a set of beats, if there is one.\<close>

definition best :: "u64 set \<Rightarrow> u64 option" where
  "best B = (if B = {} then None else Some (Max B))"

lemma best_empty [simp]: "best {} = None"
  by (simp add: best_def)

lemma best_insert: "finite B \<Longrightarrow> best (insert b B) = Some (case best B of None \<Rightarrow> b | Some c \<Rightarrow> max b c)"
  by (simp add: best_def)

lemma update_peer_None: "update_peer time tag beat ps = None \<longleftrightarrow> tag \<notin> set (tags_of ps)"
  by (induction ps) (auto simp: tags_of_def)

lemma update_peer_Some:
  "update_peer time tag beat ps = Some ps' \<Longrightarrow>
   tags_of ps' = tags_of ps \<and> (\<exists>c. map_of (map (\<lambda>p. (peer_tag p, peer_beat p)) ps) tag = Some c \<and>
     map_of (map (\<lambda>p. (peer_tag p, peer_beat p)) ps') =
       (map_of (map (\<lambda>p. (peer_tag p, peer_beat p)) ps))(tag \<mapsto> max beat c))"
proof (induction ps arbitrary: ps')
  case Nil
  then show ?case by simp
next
  case (Cons p ps)
  show ?case
  proof (cases "peer_tag p = tag")
    case True
    with Cons.prems show ?thesis by (auto simp: tags_of_def max_def fun_eq_iff)
  next
    case False
    with Cons.prems obtain ps1 where "update_peer time tag beat ps = Some ps1" "ps' = p # ps1" by auto
    with Cons.IH [of ps1] False show ?thesis by (auto simp: tags_of_def fun_eq_iff)
  qed
qed

lemma beat_of_None: "beat_of a t = None \<longleftrightarrow> t \<notin> set (tags_of (ga_peers a))"
  by (auto simp: beat_of_def map_of_eq_None_iff tags_of_def image_image)

lemma accept_one_beats:
  assumes "accept_one time (tag, beat) a = (events, a')"
  shows "ga_tag a' = ga_tag a"
    and "beat_of a' t = (if t = tag \<and> tag \<noteq> ga_tag a
      then Some (case beat_of a t of None \<Rightarrow> beat | Some c \<Rightarrow> max beat c) else beat_of a t)"
    and "peers_ok a \<Longrightarrow> peers_ok a'"
proof -
  have "ga_tag a' = ga_tag a \<and> (peers_ok a \<longrightarrow> peers_ok a') \<and>
    beat_of a' t = (if t = tag \<and> tag \<noteq> ga_tag a
      then Some (case beat_of a t of None \<Rightarrow> beat | Some c \<Rightarrow> max beat c) else beat_of a t)"
  proof (cases "tag = ga_tag a")
    case True
    with assms show ?thesis by (auto simp: accept_one_def)
  next
    case other: False
    show ?thesis
    proof (cases "update_peer time tag beat (ga_peers a)")
      case None
      then have "tag \<notin> set (tags_of (ga_peers a))" by (simp add: update_peer_None)
      moreover from this have "beat_of a tag = None" by (simp add: beat_of_None)
      moreover have "a' = a\<lparr>ga_peers := ga_peers a @ [\<lparr>peer_tag = tag, peer_beat = beat, peer_seen = time\<rparr>]\<rparr>"
        using assms other None by (auto simp: accept_one_def)
      ultimately show ?thesis
        using other by (auto simp: beat_of_def peers_ok_def tags_of_def map_add_def split: option.split)
    next
      case (Some ps)
      with assms other have "a' = a\<lparr>ga_peers := ps\<rparr>" by (auto simp: accept_one_def)
      with update_peer_Some [OF Some] other show ?thesis
        by (auto simp: beat_of_def peers_ok_def)
    qed
  qed
  then show "ga_tag a' = ga_tag a" "peers_ok a \<Longrightarrow> peers_ok a'"
    "beat_of a' t = (if t = tag \<and> tag \<noteq> ga_tag a
      then Some (case beat_of a t of None \<Rightarrow> beat | Some c \<Rightarrow> max beat c) else beat_of a t)" by blast+
qed

definition told :: "string \<Rightarrow> (string \<times> u64) list \<Rightarrow> u64 set" where
  "told t pairs = {b. (t, b) \<in> set pairs}"

lemma told_finite [simp]: "finite (told t pairs)"
proof -
  have "told t pairs \<subseteq> snd ` set pairs" by (force simp: told_def)
  then show ?thesis by (rule finite_subset) simp
qed

lemma told_simps [simp]:
  "told t [] = {}" "told t (p # pairs) = (if fst p = t then insert (snd p) (told t pairs) else told t pairs)"
  by (auto simp: told_def prod_eq_iff)

lemma best_pair: "finite B \<Longrightarrow> best (set_option m \<union> B) = (case m of None \<Rightarrow> best B | Some c \<Rightarrow> best (insert c B))"
  by (cases m) simp_all

lemma accept_all_beats:
  "accept_all time pairs a = (events, a') \<Longrightarrow> t \<noteq> ga_tag a \<Longrightarrow>
   ga_tag a' = ga_tag a \<and> beat_of a' t = best (set_option (beat_of a t) \<union> told t pairs)"
proof (induction pairs arbitrary: a events)
  case Nil
  then show ?case by (cases "beat_of a t") (auto simp: best_def)
next
  case (Cons pair pairs)
  obtain tag beat where pair: "pair = (tag, beat)" by fastforce
  obtain ev1 a1 where one: "accept_one time (tag, beat) a = (ev1, a1)" by fastforce
  obtain ev2 where rest: "accept_all time pairs a1 = (ev2, a')"
    using Cons.prems(1) one pair by (auto split: prod.splits)
  note first = accept_one_beats [OF one]
  have "t \<noteq> ga_tag a1" using Cons.prems(2) first(1) by simp
  note IH = Cons.IH [OF rest this]
  show ?case
  proof (cases "t = tag")
    case True
    then have "beat_of a1 t = Some (case beat_of a t of None \<Rightarrow> beat | Some c \<Rightarrow> max beat c)"
      using first(2) [of t] Cons.prems(2) by simp
    with IH first(1) True pair show ?thesis
      by (cases "beat_of a t") (auto simp: best_pair best_insert max.assoc max.left_commute max.commute split: option.split)
  next
    case False
    with first(2) [of t] IH first(1) pair show ?thesis by simp
  qed
qed

lemma accept_all_own:
  "accept_all time pairs a = (events, a') \<Longrightarrow> (peers_ok a \<longrightarrow> peers_ok a') \<and> ga_down a' = ga_down a \<and> ga_horizon a' = ga_horizon a"
proof (induction pairs arbitrary: a events)
  case Nil
  then show ?case by simp
next
  case (Cons pair pairs)
  obtain tag beat where pair: "pair = (tag, beat)" by fastforce
  obtain ev1 a1 where one: "accept_one time (tag, beat) a = (ev1, a1)" by fastforce
  obtain ev2 where rest: "accept_all time pairs a1 = (ev2, a')"
    using Cons.prems one pair by (auto split: prod.splits)
  have "ga_down a1 = ga_down a \<and> ga_horizon a1 = ga_horizon a" using one by (auto simp: accept_one_def split: if_splits option.splits)
  with Cons.IH [OF rest] accept_one_beats(3) [OF one] show ?case by simp
qed

section \<open>Declaring peers down\<close>

definition outs :: "gossip_event list \<Rightarrow> string list" where
  "outs events = concat (map (\<lambda>e. case e of Out t \<Rightarrow> [t] | New t \<Rightarrow> []) events)"

lemma outs_simps [simp]:
  "outs [] = []" "outs (xs @ ys) = outs xs @ outs ys" "outs (Out t # es) = t # outs es" "outs (New t # es) = outs es"
  by (simp_all add: outs_def)

definition silent :: "u64 \<Rightarrow> gossip_agent \<Rightarrow> peer \<Rightarrow> bool" where
  "silent time a p \<longleftrightarrow> peer_seen p + ga_horizon a < time"

lemma detect_loop_outs:
  "detect_loop time a ps down = (events, down') \<Longrightarrow>
   distinct (outs events) \<and> set (outs events) = peer_tag ` {p \<in> set ps. silent time a p} - down \<and>
   down' = down \<union> set (outs events)"
proof (induction ps arbitrary: down events)
  case Nil
  then show ?case by simp
next
  case (Cons p ps)
  show ?case
  proof (cases "silent time a p \<and> peer_tag p \<notin> down")
    case True
    then obtain ev where ev: "detect_loop time a ps (insert (peer_tag p) down) = (ev, down')" "events = Out (peer_tag p) # ev"
      using Cons.prems by (auto simp: silent_def split: prod.splits)
    from Cons.IH [OF ev(1)] ev(2) True show ?thesis by auto
  next
    case False
    then have "detect_loop time a ps down = (events, down')" using Cons.prems by (auto simp: silent_def)
    from Cons.IH [OF this] False show ?thesis by auto
  qed
qed

lemma detect_outs:
  assumes "detect time a = (events, a')"
  shows "distinct (outs events)" "set (outs events) = peer_tag ` {p \<in> set (ga_peers a). silent time a p} - ga_down a"
    "a' = a\<lparr>ga_down := ga_down a \<union> set (outs events)\<rparr>"
proof -
  obtain down where loop: "detect_loop time a (ga_peers a) (ga_down a) = (events, down)" "a' = a\<lparr>ga_down := down\<rparr>"
    using assms by (auto simp: detect_def split: prod.splits)
  from detect_loop_outs [OF loop(1)] loop(2) show "distinct (outs events)"
    "set (outs events) = peer_tag ` {p \<in> set (ga_peers a). silent time a p} - ga_down a"
    "a' = a\<lparr>ga_down := ga_down a \<union> set (outs events)\<rparr>" by simp_all
qed

lemma accept_all_outs: "accept_all time pairs a = (events, a') \<Longrightarrow> outs events = []"
proof (induction pairs arbitrary: a events)
  case Nil
  then show ?case by simp
next
  case (Cons pair pairs)
  obtain ev1 a1 where one: "accept_one time pair a = (ev1, a1)" by fastforce
  have "outs ev1 = []" using one by (auto simp: accept_one_def split: if_splits option.splits prod.splits)
  with Cons one show ?case by (auto split: prod.splits)
qed

text \<open>The life of an agent, as far as its peers are concerned.\<close>

datatype gossip_move =
    Named string
  | Heard u64 "(string \<times> u64) list"
  | Checked u64

primrec gossip_op :: "gossip_move \<Rightarrow> gossip_agent \<Rightarrow> gossip_event list \<times> gossip_agent" where
  "gossip_op (Named tag) a = ([], a\<lparr>ga_tag := tag\<rparr>)"
| "gossip_op (Heard time pairs) a = accept time pairs a"
| "gossip_op (Checked time) a = detect time a"

primrec gossip_run :: "gossip_move list \<Rightarrow> gossip_agent \<Rightarrow> gossip_event list \<times> gossip_agent" where
  "gossip_run [] a = ([], a)"
| "gossip_run (q # qs) a =
     (let (events, a1) = gossip_op q a; (events', a2) = gossip_run qs a1 in (events @ events', a2))"

lemma gossip_op_outs:
  assumes "gossip_op q a = (events, a')"
  shows "distinct (outs events) \<and> set (outs events) \<inter> ga_down a = {} \<and> ga_down a' = ga_down a \<union> set (outs events)"
proof (cases q)
  case (Named tag)
  with assms show ?thesis by auto
next
  case (Checked time)
  with assms have "detect time a = (events, a')" by simp
  from detect_outs [OF this] show ?thesis by auto
next
  case (Heard time pairs)
  obtain ev1 a1 where one: "accept_all time pairs a = (ev1, a1)" by fastforce
  obtain ev2 where two: "detect time a1 = (ev2, a')" "events = ev1 @ ev2"
    using assms Heard one by (auto simp: accept_def split: prod.splits)
  from detect_outs [OF two(1)] accept_all_outs [OF one] accept_all_own [OF one] two(2) show ?thesis by auto
qed

lemma gossip_run_outs:
  "gossip_run qs a = (events, a') \<Longrightarrow>
   distinct (outs events) \<and> set (outs events) \<inter> ga_down a = {} \<and> ga_down a' = ga_down a \<union> set (outs events)"
proof (induction qs arbitrary: a events)
  case Nil
  then show ?case by auto
next
  case (Cons q qs)
  obtain ev1 a1 where one: "gossip_op q a = (ev1, a1)" by fastforce
  obtain ev2 where rest: "gossip_run qs a1 = (ev2, a')" "events = ev1 @ ev2"
    using Cons.prems one by (auto split: prod.splits)
  from gossip_op_outs [OF one] Cons.IH [OF rest(1)] rest(2) show ?case by auto
qed

section \<open>Properties\<close>



text \<open>
  C32. The beats an agent knows are the maxima of what it was told. Accepting a gossip leaves for every other
  tag the largest beat among the one known and those in the gossip, whatever their order and however often they
  are repeated, so that agents who heard the same know the same; every tag has one entry, and the agent itself
  has none.
\<close>

theorem gossip_keeps_maxima:
  assumes "accept time pairs a = (events, a')" "peers_ok a"
  shows "peers_ok a' \<and>
    (\<forall>tag. tag \<noteq> ga_tag a \<longrightarrow> beat_of a' tag = best (set_option (beat_of a tag) \<union> told tag pairs)) \<and>
    beat_of a' (ga_tag a) = None"
proof -
  obtain ev1 a1 where one: "accept_all time pairs a = (ev1, a1)" by fastforce
  obtain ev2 where two: "detect time a1 = (ev2, a')"
    using assms(1) one by (auto simp: accept_def split: prod.splits)
  have same: "ga_peers a' = ga_peers a1" "ga_tag a' = ga_tag a1" using detect_outs(3) [OF two] by simp_all
  then have beats: "beat_of a' = beat_of a1" by (simp add: beat_of_def)
  have ok: "peers_ok a1" using accept_all_own [OF one] assms(2) by blast
  have tag: "ga_tag a1 = ga_tag a"
    using one by (induction pairs arbitrary: a ev1)
      (auto split: prod.splits simp: accept_one_beats(1) dest: accept_one_beats(1))
  have "peers_ok a'" using ok same by (simp add: peers_ok_def)
  moreover have "beat_of a' (ga_tag a) = None"
    using ok by (simp add: beats beat_of_None peers_ok_def tag)
  ultimately show ?thesis using accept_all_beats [OF one] beats by simp
qed

theorem gossip_keeps_maxima_witness:
  "\<exists>events a'. accept 5 [(''q'', 3), (''p'', 9), (''q'', 2)] (default_gossip_agent 0) = (events, a') \<and>
    beat_of a' ''q'' = Some 3"
proof -
  obtain events a' where run: "accept 5 [(''q'', 3), (''p'', 9), (''q'', 2)] (default_gossip_agent 0) = (events, a')"
    by fastforce
  have "peers_ok (default_gossip_agent 0)" by (simp add: peers_ok_def tags_of_def default_gossip_agent_def)
  from gossip_keeps_maxima [OF run this] have
    "beat_of a' ''q'' = best (set_option (beat_of (default_gossip_agent 0) ''q'') \<union> {3, 2})"
    by (simp add: default_gossip_agent_def)
  then have "beat_of a' ''q'' = Some 3" by (simp add: beat_of_def default_gossip_agent_def best_def)
  with run show ?thesis by blast
qed

text \<open>
  C33. A silent peer is declared down, and only once. A check declares exactly the peers not heard of for
  longer than the horizon that had not been declared before; and over the whole life of an agent, whatever
  it hears and whenever it checks, no tag is ever declared down twice, even if its peer has come back
  in between.
\<close>

theorem peer_down_once:
  assumes "gossip_run moves a = (events, a')" "detect time a' = (found, a'')"
  shows "distinct (outs (events @ found)) \<and>
    set (outs found) = peer_tag ` {p \<in> set (ga_peers a'). silent time a' p} - ga_down a - set (outs events)"
  using gossip_run_outs [OF assms(1)] detect_outs [OF assms(2)] by auto

theorem peer_down_once_witness:
  "\<exists>events a' found a''.
    gossip_run [Heard 1 [(''p'', 1)], Checked 50, Heard 60 [(''p'', 2)]] ((default_gossip_agent 0)\<lparr>ga_horizon := 10, ga_tag := ''me''\<rparr>) = (events, a') \<and>
    detect 90 a' = (found, a'') \<and> outs events = [''p''] \<and> distinct (outs (events @ found)) \<and> outs found = []"
proof -
  let ?a = "(default_gossip_agent 0)\<lparr>ga_horizon := 10, ga_tag := ''me''\<rparr>"
  let ?moves = "[Heard 1 [(''p'', 1)], Checked 50, Heard 60 [(''p'', 2)]]"
  obtain events a' where run: "gossip_run ?moves ?a = (events, a')" by fastforce
  obtain found a'' where check: "detect 90 a' = (found, a'')" by fastforce
  from peer_down_once [OF run check] have once: "distinct (outs (events @ found))" .. 
  have "outs events = [''p''] \<and> outs found = []"
    using run check
    by (auto simp: default_gossip_agent_def accept_def accept_one_def detect_def)
  with run check once show ?thesis by blast
qed

end
