(* ===== verification/Sequential.thy ===== *)
theory Sequential
  imports Runtime_Inv Delivery "HOL-Library.Sublist"
begin

text \<open>
  One actor over the life of the system. The runtime hands an actor from thread to thread: from
  the scheduler's map to an event, to a worker, to a return, and back. This theory follows the
  actor itself, its state included, through all interleavings, and ties it to the messages.

  \<open>observed\<close> is a run of the system with two histories: the actions the event loop has taken from
  its channel and the events the workers have taken from theirs. \<open>bodies\<close> is the multiset of all
  actors of a tag, wherever they are. The invariant \<open>one_life\<close> says of a tag that was accepted
  once that its only actor is in the state the behaviour reaches from the spawned actor by the
  messages taken so far, and that these are, in order, a prefix of those accepted.
\<close>

section \<open>Runs with their histories\<close>

definition handles ::
  "('a, 'm, 'qe, 'qa) world \<Rightarrow> ('a, 'm) action \<Rightarrow> ('a, 'm, 'qe, 'qa) runtime_state \<Rightarrow>
   ('a, 'm, 'qe, 'qa) runtime_state \<Rightarrow> bool"
where
  "handles W act s t \<longleftrightarrow>
     (\<exists>rd actions l out go. rt_phase s = Running \<and> w_clock W rd \<and>
        receive_action (w_action_chan W) (rt_actions s) = (Some act, actions) \<and>
        event_loop_step (some_worker s) (w_name W) (w_host W) (Some act) rd (rt_loop s) = Ret (l, out, go) \<and>
        t = after_iteration W (Some act) actions l out go s)"

definition takes ::
  "('a, 'm, 'qe, 'qa) world \<Rightarrow> ('a, 'm) event \<Rightarrow> ('a, 'm, 'qe, 'qa) runtime_state \<Rightarrow>
   ('a, 'm, 'qe, 'qa) runtime_state \<Rightarrow> bool"
where
  "takes W ev s t \<longleftrightarrow>
     (\<exists>i l events l' status. i < length (rt_workers s) \<and> rt_workers s ! i = Waiting l \<and>
        chan_recv (w_event_chan W) (rt_events s) = Some (ev, events) \<and>
        worker_turn (w_behaviour W) ev (l\<lparr>local_tx := []\<rparr>) = (l', status) \<and>
        t = s\<lparr>rt_events := events,
              rt_workers := (rt_workers s)[i := Sending (local_tx l') (l'\<lparr>local_tx := []\<rparr>) status]\<rparr>)"

inductive observed ::
  "('a, 'm, 'qe, 'qa) world \<Rightarrow> ('a, 'm, 'qe, 'qa) runtime_state \<Rightarrow> ('a, 'm) action list \<Rightarrow>
   ('a, 'm) event list \<Rightarrow> ('a, 'm, 'qe, 'qa) runtime_state \<Rightarrow> bool"
for W s0 where
  begins: "observed W s0 [] [] s0"
| handled: "observed W s0 acts evs s \<Longrightarrow> handles W act s t \<Longrightarrow> observed W s0 (acts @ [act]) evs t"
| taken: "observed W s0 acts evs s \<Longrightarrow> takes W ev s t \<Longrightarrow> observed W s0 acts (evs @ [ev]) t"
| unseen: "observed W s0 acts evs s \<Longrightarrow> system_step W s t \<Longrightarrow> \<forall>act. \<not> handles W act s t \<Longrightarrow>
    \<forall>ev. \<not> takes W ev s t \<Longrightarrow> observed W s0 acts evs t"

lemma handles_step: "handles W act s t \<Longrightarrow> system_step W s t"
  unfolding handles_def system_step_def by (blast intro: rt_step.iterate)

lemma takes_step: "takes W ev s t \<Longrightarrow> system_step W s t"
  unfolding takes_def system_step_def by (blast intro: rt_step.take_event)

text \<open>The histories restrict nothing: a state is reachable exactly if it is observed with some.\<close>

lemma observed_reachable: "observed W s0 acts evs s \<Longrightarrow> (system_step W)\<^sup>*\<^sup>* s0 s"
  by (induction rule: observed.induct)
    (auto intro: rtranclp.rtrancl_into_rtrancl handles_step takes_step)

lemma reachable_observed: "(system_step W)\<^sup>*\<^sup>* s0 s \<Longrightarrow> \<exists>acts evs. observed W s0 acts evs s"
proof (induction rule: rtranclp_induct)
  case base
  show ?case using observed.begins by blast
next
  case (step s t)
  then obtain acts evs where "observed W s0 acts evs s" by blast
  with step.hyps(2) show ?case
    using observed.handled observed.taken observed.unseen by (metis (no_types))
qed

section \<open>The actors of a tag\<close>

definition cell_body :: "('a, 'm) cell \<Rightarrow> 'a multiset" where
  "cell_body c = (case c of Idle actor \<Rightarrow> {#actor#} | _ \<Rightarrow> {#})"

primrec event_body :: "tag \<Rightarrow> ('a, 'm) event \<Rightarrow> 'a multiset" where
  "event_body tag (Ev_Mail t actor e) = (if t = tag then {#actor#} else {#})"
| "event_body tag (Ev_Stop t actor) = (if t = tag then {#actor#} else {#})"
| "event_body tag Ev_Shutdown = {#}"

definition action_body :: "tag \<Rightarrow> ('a, 'm) action \<Rightarrow> 'a multiset" where
  "action_body tag act = (case act of Act_Return t actor ok \<Rightarrow> if t = tag then {#actor#} else {#} | _ \<Rightarrow> {#})"

definition event_bodies :: "tag \<Rightarrow> ('a, 'm) event list \<Rightarrow> 'a multiset" where
  "event_bodies tag events = sum_list (map (event_body tag) events)"

definition action_bodies :: "tag \<Rightarrow> ('a, 'm) action list \<Rightarrow> 'a multiset" where
  "action_bodies tag actions = sum_list (map (action_body tag) actions)"

primrec worker_body :: "tag \<Rightarrow> ('a, 'm) worker \<Rightarrow> 'a multiset" where
  "worker_body tag (Waiting l) = {#}"
| "worker_body tag (Sending acts l status) = action_bodies tag acts"
| "worker_body tag Gone = {#}"

definition bodies ::
  "('qe \<Rightarrow> ('a, 'm) event list) \<Rightarrow> ('qa \<Rightarrow> ('a, 'm) action list) \<Rightarrow> tag \<Rightarrow>
   ('a, 'm, 'qe, 'qa) runtime_state \<Rightarrow> 'a multiset"
where
  "bodies ce ca tag s =
     cell_body (cell_of (rt_loop s) tag) + event_bodies tag (ce (rt_events s))
     + sum_list (map (worker_body tag) (rt_workers s)) + action_bodies tag (ca (rt_actions s))"

lemma event_bodies_simps [simp]:
  "event_bodies tag [] = {#}"
  "event_bodies tag (ev # evs) = event_body tag ev + event_bodies tag evs"
  "event_bodies tag (evs @ evs') = event_bodies tag evs + event_bodies tag evs'"
  by (simp_all add: event_bodies_def)

lemma action_bodies_simps [simp]:
  "action_bodies tag [] = {#}"
  "action_bodies tag (act # acts) = action_body tag act + action_bodies tag acts"
  "action_bodies tag (acts @ acts') = action_bodies tag acts + action_bodies tag acts'"
  by (simp_all add: action_bodies_def)

lemma action_body_simps [simp]:
  "action_body tag (Act_Return t actor ok) = (if t = tag then {#actor#} else {#})"
  "action_body tag (Act_Spawn t actor) = {#}" "action_body tag (Act_Queue t e) = {#}"
  "action_body tag (Act_Delay d) = {#}" "action_body tag (Act_Stop t) = {#}"
  "action_body tag (Act_Logs t es) = {#}" "action_body tag (Act_Metrics m) = {#}"
  "action_body tag Act_Shutdown = {#}"
  by (simp_all add: action_body_def)

lemma body_return_iff: "action_body tag act = {#} \<longleftrightarrow> \<not> is_return tag act"
  by (cases act) (auto simp: is_return_def)

lemma no_returns_no_bodies: "filter (is_return tag) acts = [] \<Longrightarrow> action_bodies tag acts = {#}"
  by (induction acts) (auto simp: body_return_iff split: if_splits)

lemma worker_bodies_update:
  fixes ws :: "('a, 'm) worker list"
  assumes "i < length ws"
  shows "sum_list (map (worker_body tag) (ws[i := w])) + worker_body tag (ws ! i) =
    sum_list (map (worker_body tag) ws) + worker_body tag w"
  using assms
proof (induction ws arbitrary: i)
  case Nil
  then show ?case by simp
next
  case (Cons v ws)
  then show ?case by (cases i) (auto simp: ac_simps)
qed

text \<open>A worker's update that hands an actor over, or drops it.\<close>

lemma worker_bodies_moved:
  assumes "i < length ws" "worker_body tag w + moved = worker_body tag (ws ! i)"
  shows "sum_list (map (worker_body tag) (ws[i := w])) + moved = sum_list (map (worker_body tag) ws)"
proof -
  have "sum_list (map (worker_body tag) (ws[i := w])) + moved + worker_body tag w =
    sum_list (map (worker_body tag) (ws[i := w])) + worker_body tag (ws ! i)"
    using assms(2) by (simp add: ac_simps)
  also have "\<dots> = sum_list (map (worker_body tag) ws) + worker_body tag w"
    by (rule worker_bodies_update [OF assms(1)])
  finally show ?thesis by simp
qed

section \<open>What the moves do to the actors of a tag\<close>

definition spawn_body :: "tag \<Rightarrow> ('a, 'm) action \<Rightarrow> ('a, 'm) cell \<Rightarrow> 'a multiset" where
  "spawn_body tag act c = (case act of Act_Spawn t actor \<Rightarrow> if t = tag \<and> c = Absent then {#actor#} else {#} | _ \<Rightarrow> {#})"

lemma cell_step_bodies:
  "action_tag act = Some tag \<Longrightarrow>
   cell_body (fst (cell_step tag act c)) + event_bodies tag (snd (cell_step tag act c))
   \<subseteq># cell_body c + action_body tag act + spawn_body tag act c"
  by (cases "(tag, act, c)" rule: cell_step.cases) (auto simp: cell_body_def spawn_body_def)

lemma cell_step_other_bodies: "t \<noteq> tag \<Longrightarrow> event_bodies tag (snd (cell_step t act c)) = {#}"
  by (cases "(t, act, c)" rule: cell_step.cases) auto

lemma cells_step_bodies:
  "cell_body (fst (cells_step act f) tag) + event_bodies tag (snd (cells_step act f))
   \<subseteq># cell_body (f tag) + action_body tag act + spawn_body tag act (f tag)"
proof (cases "action_tag act = Some tag")
  case True
  then show ?thesis using cell_step_bodies [OF True, of "f tag"] by (simp add: cells_step_def)
next
  case False
  then have "fst (cells_step act f) tag = f tag" "event_bodies tag (snd (cells_step act f)) = {#}"
    using cell_step_other_bodies [of _ tag act] by (auto simp: cells_step_def split: option.splits)
  then show ?thesis by simp
qed

text \<open>The actor an action that is taken brings into being.\<close>

definition born :: "tag \<Rightarrow> ('a, 'm) action option \<Rightarrow> ('a, 'm) event_loop \<Rightarrow> 'a multiset" where
  "born tag received s =
     (case received of None \<Rightarrow> {#} | Some act \<Rightarrow> spawn_body tag act (cell_of s tag))"

lemma iterate_bodies:
  assumes ch: "channels_ok W ce ca" and s: "loop_ok (rt_loop s)"
    and recv: "receive_action (w_action_chan W) (rt_actions s) = (received, actions)"
    and step: "event_loop_step alive name host received rd (rt_loop s) = Ret (l, out, go)"
  shows "bodies ce ca tag (after_iteration W received actions l out go s)
    \<subseteq># bodies ce ca tag s + born tag received (rt_loop s)"
proof -
  have out: "action_bodies tag (to_self out) = {#}"
    using step_to_self_no_return [OF step] by (rule no_returns_no_bodies)
  have content: "action_bodies tag (ca (rt_actions s)) =
    (case received of None \<Rightarrow> {#} | Some act \<Rightarrow> action_body tag act) + action_bodies tag (ca actions)"
    using receive_action_content [OF ch recv] by (simp split: option.splits)
  have "cell_body (cell_of l tag) + event_bodies tag (to_workers out)
    \<subseteq># cell_body (cell_of (rt_loop s) tag) + (case received of None \<Rightarrow> {#} | Some act \<Rightarrow> action_body tag act)
      + born tag received (rt_loop s)"
    using event_loop_step_refines [OF s step] cells_step_bodies [of _ "cell_of (rt_loop s)" tag]
    by (cases received) (auto simp: born_def prod_eq_iff)
  from subset_mset.add_right_mono [OF this, of "event_bodies tag (ce (rt_events s))
      + sum_list (map (worker_body tag) (rt_workers s)) + action_bodies tag (ca actions)"]
  show ?thesis
    by (simp add: bodies_def after_iteration_def channels_send [OF ch] out content ac_simps)
qed

text \<open>A turn on mail hands back the actor as its handler left it, if at all.\<close>

definition after_mail :: "('a, 'm) behaviour \<Rightarrow> tag \<Rightarrow> 'a \<Rightarrow> 'm envelope \<Rightarrow> 'a" where
  "after_mail B tag actor e = fst (snd (receive B tag e actor))"

lemma call_actions_no_bodies [simp]: "action_bodies tag (concat (map call_actions calls)) = {#}"
  by (rule no_returns_no_bodies) (rule call_actions_no_return)

lemma books_no_bodies: "\<forall>act \<in> set books. is_book act \<Longrightarrow> action_bodies tag books = {#}"
  by (rule no_returns_no_bodies) (rule books_no_return)

lemma worker_turn_bodies:
  assumes "worker_turn B ev (l\<lparr>local_tx := []\<rparr>) = (l', status)"
  shows "action_bodies tag (local_tx l') \<subseteq>#
    (case ev of Ev_Mail t actor e \<Rightarrow> if t = tag then {#after_mail B tag actor e#} else {#} | _ \<Rightarrow> {#})"
proof (cases ev)
  case (Ev_Mail t actor e)
  obtain calls actor' ok calls' ok' where
    r: "receive B t e actor = (calls, actor', ok)" and f: "on_fail B t actor' = (calls', ok')"
    by (metis surj_pair)
  have "worker_mail B t actor e (l\<lparr>local_tx := []\<rparr>) = (l', status)" using assms Ev_Mail by simp
  note tx = worker_mail_tx [OF r f this]
  show ?thesis
  proof (cases "ok \<or> ok'")
    case True
    with tx obtain books where "\<forall>act \<in> set books. is_book act"
      "local_tx l' = concat (map call_actions calls)
           @ (if ok then [] else concat (map call_actions calls')) @ [Act_Return t actor' ok] @ books"
      by auto
    with Ev_Mail r books_no_bodies [of books tag] show ?thesis by (auto simp: after_mail_def)
  qed (use tx Ev_Mail in simp)
next
  case (Ev_Stop t actor)
  obtain calls ok where "on_stop B t actor = (calls, ok)" by fastforce
  with worker_stop_tx [OF this, of "l\<lparr>local_tx := []\<rparr>" l' status] assms Ev_Stop obtain books where
    "\<forall>act \<in> set books. is_book act" "local_tx l' = concat (map call_actions calls) @ books"
    by auto
  with Ev_Stop books_no_bodies [of books tag] show ?thesis by simp
qed (use assms in auto)

definition handed_back :: "('a, 'm) behaviour \<Rightarrow> tag \<Rightarrow> ('a, 'm) event \<Rightarrow> 'a multiset" where
  "handed_back B tag ev =
     (case ev of Ev_Mail t actor e \<Rightarrow> if t = tag then {#after_mail B tag actor e#} else {#} | _ \<Rightarrow> {#})"

lemma takes_exact:
  assumes ch: "channels_ok W ce ca" and "takes W ev s t"
  obtains i l l' status rest where "i < length (rt_workers s)" "rt_workers s ! i = Waiting l"
    and "worker_turn (w_behaviour W) ev (l\<lparr>local_tx := []\<rparr>) = (l', status)"
    and "rt_workers t = (rt_workers s)[i := Sending (local_tx l') (l'\<lparr>local_tx := []\<rparr>) status]"
    and "ce (rt_events s) = ev # ce (rt_events t)" "rt_actions t = rt_actions s" "rt_loop t = rt_loop s"
      "rt_phase t = rt_phase s" "rt_spawned t = rt_spawned s"
    and "bodies ce ca tag s = event_body tag ev + rest"
    and "bodies ce ca tag t = rest + action_bodies tag (local_tx l')"
    and "sum_list (map (worker_body tag) (rt_workers s)) \<subseteq># rest"
proof -
  from assms(2) obtain i l events l' status where i: "i < length (rt_workers s)" "rt_workers s ! i = Waiting l"
    and ev: "chan_recv (w_event_chan W) (rt_events s) = Some (ev, events)"
    and turn: "worker_turn (w_behaviour W) ev (l\<lparr>local_tx := []\<rparr>) = (l', status)"
    and t: "t = s\<lparr>rt_events := events,
      rt_workers := (rt_workers s)[i := Sending (local_tx l') (l'\<lparr>local_tx := []\<rparr>) status]\<rparr>"
    unfolding takes_def by blast
  let ?rest = "cell_body (cell_of (rt_loop s) tag) + event_bodies tag (ce events)
    + sum_list (map (worker_body tag) (rt_workers s)) + action_bodies tag (ca (rt_actions s))"
  have content: "ce (rt_events s) = ev # ce events" using channels_recv_Some(1) [OF ch ev] .
  show ?thesis
  proof (rule that [OF i turn, of ?rest])
    show "bodies ce ca tag s = event_body tag ev + ?rest" by (simp add: bodies_def content ac_simps)
    show "bodies ce ca tag t = ?rest + action_bodies tag (local_tx l')"
      using worker_bodies_update [OF i(1), of tag "Sending (local_tx l') (l'\<lparr>local_tx := []\<rparr>) status"] i(2) t
      by (simp add: bodies_def ac_simps)
  qed (use content t in simp_all)
qed

lemma takes_bodies:
  assumes ch: "channels_ok W ce ca" and "takes W ev s t"
  obtains rest where "bodies ce ca tag s = event_body tag ev + rest"
    and "bodies ce ca tag t \<subseteq># rest + handed_back (w_behaviour W) tag ev"
    and "ce (rt_events s) = ev # ce (rt_events t)" "rt_loop t = rt_loop s" "rt_spawned t = rt_spawned s"
  using assms
proof (rule takes_exact [where tag = tag])
  fix i l l' status rest
  assume "worker_turn (w_behaviour W) ev (l\<lparr>local_tx := []\<rparr>) = (l', status)"
    "bodies ce ca tag t = rest + action_bodies tag (local_tx l')" "bodies ce ca tag s = event_body tag ev + rest"
    "ce (rt_events s) = ev # ce (rt_events t)" "rt_loop t = rt_loop s" "rt_spawned t = rt_spawned s"
  moreover from this(1) have "action_bodies tag (local_tx l') \<subseteq># handed_back (w_behaviour W) tag ev"
    unfolding handed_back_def by (rule worker_turn_bodies)
  then have "rest + action_bodies tag (local_tx l') \<subseteq># rest + handed_back (w_behaviour W) tag ev"
    by (rule subset_mset.add_left_mono)
  ultimately show thesis by (intro that [of rest]) simp_all
qed

text \<open>The other moves add no actor: they pass one on, or lose it.\<close>

lemma rt_step_bodies:
  assumes ch: "channels_ok W ce ca" and ok: "loop_ok (rt_loop s)"
    and "rt_step W s t" "\<forall>act. \<not> handles W act s t" "\<forall>ev. \<not> takes W ev s t"
  shows "bodies ce ca tag t \<subseteq># bodies ce ca tag s \<and> cell_of (rt_loop t) = cell_of (rt_loop s) \<and>
    rt_spawned t = rt_spawned s \<and> mails tag (ce (rt_events t)) = mails tag (ce (rt_events s))"
  using assms(3)
proof cases
  case (iterate rd received actions l out go)
  then have none: "received = None" using assms(4) unfolding handles_def by (cases received) blast+
  with iterate iterate_bodies [OF ch ok iterate(4,5), of tag] event_loop_step_refines [OF ok iterate(5)]
  show ?thesis by (simp add: born_def after_iteration_def accepts_spawn_def)
next
  case (take_event i l ev events l' status)
  then show ?thesis using assms(5) unfolding takes_def by blast
next
  case (send_next i act acts l status)
  then show ?thesis
    using worker_bodies_moved [OF send_next(2), of tag "Sending acts l status" "action_body tag act"]
    by (simp add: bodies_def channels_send [OF ch] ac_simps)
next
  case (send_fails i act acts l status)
  then show ?thesis
    using worker_bodies_moved [OF send_fails(2), of tag Gone "worker_body tag (rt_workers s ! i)"]
    by (simp add: bodies_def) (metis mset_subset_eq_add_left)
next
  case (turn_over i l status)
  let ?w = "if status = Looping then Waiting l else Gone"
  show ?thesis
    using worker_bodies_moved [OF turn_over(2), of tag ?w "{#}"] turn_over by (simp add: bodies_def)
next
  case (disconnected i l)
  then show ?thesis
    using worker_bodies_moved [OF disconnected(2), of tag Gone "{#}"] by (simp add: bodies_def)
next
  case (drain act actions)
  with channels_recv_Some(2) [OF ch drain(3)] show ?thesis by (simp add: bodies_def)
qed (simp_all add: bodies_def channels_send [OF ch])

lemma client_step_bodies:
  assumes "channels_ok W ce ca" "client_step W s t"
  shows "bodies ce ca tag t = bodies ce ca tag s \<and> rt_loop t = rt_loop s \<and>
    rt_spawned t = rt_spawned s \<and> rt_events t = rt_events s"
  using assms(2)
  by cases (simp_all add: bodies_def run_defs split_beta channels_send [OF assms(1)])

lemma unseen_bodies:
  assumes "channels_ok W ce ca" "loop_ok (rt_loop s)" "system_step W s t"
    and "\<forall>act. \<not> handles W act s t" "\<forall>ev. \<not> takes W ev s t"
  shows "bodies ce ca tag t \<subseteq># bodies ce ca tag s \<and> cell_of (rt_loop t) = cell_of (rt_loop s) \<and>
    rt_spawned t = rt_spawned s \<and> mails tag (ce (rt_events t)) = mails tag (ce (rt_events s))"
  using assms(3) rt_step_bodies [OF assms(1,2) _ assms(4,5)] client_step_bodies [OF assms(1)]
  by (auto simp: system_step_def)

section \<open>The mail of a tag\<close>

lemma cell_step_mails:
  assumes "action_tag act = Some tag"
  shows "c \<noteq> Absent \<Longrightarrow> fst (cell_step tag act c) \<noteq> Absent \<Longrightarrow> keeps tag act"
    and "fst (cell_step tag act c) = Absent \<or> c = Absent \<Longrightarrow>
      mails tag (snd (cell_step tag act c)) = [] \<and> waiting (fst (cell_step tag act c)) = []"
    and "c = Absent \<Longrightarrow> fst (cell_step tag act c) \<noteq> Absent \<Longrightarrow>
      \<exists>actor. act = Act_Spawn tag actor \<and> fst (cell_step tag act c) = Idle actor"
  using assms
  by (cases "(tag, act, c)" rule: cell_step.cases; simp)+

lemma cells_step_mails:
  shows "f tag \<noteq> Absent \<Longrightarrow> fst (cells_step act f) tag \<noteq> Absent \<Longrightarrow>
      mails tag (snd (cells_step act f)) @ waiting (fst (cells_step act f) tag) = waiting (f tag) @ queued tag act"
    and "fst (cells_step act f) tag = Absent \<or> f tag = Absent \<Longrightarrow>
      mails tag (snd (cells_step act f)) = [] \<and> waiting (fst (cells_step act f) tag) = []"
    and "f tag = Absent \<Longrightarrow> fst (cells_step act f) tag \<noteq> Absent \<longleftrightarrow> (\<exists>actor. act = Act_Spawn tag actor)"
proof -
  show "mails tag (snd (cells_step act f)) @ waiting (fst (cells_step act f) tag) = waiting (f tag) @ queued tag act"
    if c: "f tag \<noteq> Absent" "fst (cells_step act f) tag \<noteq> Absent"
  proof (cases "action_tag act = Some tag")
    case True
    with c cell_step_mails(1) [OF True, of "f tag"] have "keeps tag act" by (simp add: cells_step_def)
    with cells_step_fifo [of f tag act] c show ?thesis by simp
  next
    case False
    with c cells_step_other [OF False, of f] queued_other [OF False] show ?thesis by simp
  qed
  show "mails tag (snd (cells_step act f)) = [] \<and> waiting (fst (cells_step act f) tag) = []"
    if "fst (cells_step act f) tag = Absent \<or> f tag = Absent"
  proof (cases "action_tag act = Some tag")
    case True
    with that cell_step_mails(2) [OF True, of "f tag"] show ?thesis by (simp add: cells_step_def)
  next
    case False
    with that cells_step_other [OF False, of f] show ?thesis by auto
  qed
  show "fst (cells_step act f) tag \<noteq> Absent \<longleftrightarrow> (\<exists>actor. act = Act_Spawn tag actor)" if "f tag = Absent"
  proof (cases "action_tag act = Some tag")
    case True
    with that cell_step_mails(3) [OF True, of "f tag"] show ?thesis by (auto simp: cells_step_def)
  next
    case False
    with that cells_step_other [OF False, of f] show ?thesis by auto
  qed
qed

text \<open>The first spawn of a tag among the actions taken, and the mail taken for the tag after it.\<close>

definition spawned_actor :: "tag \<Rightarrow> ('a, 'm) action \<Rightarrow> 'a option" where
  "spawned_actor tag act = (case act of Act_Spawn t actor \<Rightarrow> if t = tag then Some actor else None | _ \<Rightarrow> None)"

primrec first_spawn :: "tag \<Rightarrow> ('a, 'm) action list \<Rightarrow> 'a option" where
  "first_spawn tag [] = None"
| "first_spawn tag (act # acts) =
     (case spawned_actor tag act of Some actor \<Rightarrow> Some actor | None \<Rightarrow> first_spawn tag acts)"

primrec accepted_mail :: "tag \<Rightarrow> ('a, 'm) action list \<Rightarrow> 'm envelope list" where
  "accepted_mail tag [] = []"
| "accepted_mail tag (act # acts) =
     (case spawned_actor tag act of Some actor \<Rightarrow> concat (map (queued tag) acts)
      | None \<Rightarrow> accepted_mail tag acts)"

lemma first_spawn_snoc [simp]:
  "first_spawn tag (acts @ [act]) =
     (case first_spawn tag acts of Some actor \<Rightarrow> Some actor | None \<Rightarrow> spawned_actor tag act)"
  by (induction acts) (auto split: option.splits)

lemma accepted_mail_snoc [simp]:
  "accepted_mail tag (acts @ [act]) =
     accepted_mail tag acts @ (if first_spawn tag acts = None then [] else queued tag act)"
  by (induction acts) (auto split: option.splits)

lemma accepted_mail_None: "first_spawn tag acts = None \<Longrightarrow> accepted_mail tag acts = []"
  by (induction acts) (auto split: option.splits)

lemma spawned_actor_Some: "spawned_actor tag act = Some actor \<longleftrightarrow> act = Act_Spawn tag actor"
  by (cases act) (auto simp: spawned_actor_def)

lemma spawned_actor_None: "spawned_actor tag act = None \<longleftrightarrow> (\<forall>actor. act \<noteq> Act_Spawn tag actor)"
  by (cases act) (auto simp: spawned_actor_def)

section \<open>The life of an actor\<close>

lemma no_bodies_no_mails: "event_bodies tag evs = {#} \<Longrightarrow> mails tag evs = []"
proof (induction evs)
  case (Cons ev evs)
  then show ?case by (cases ev) (auto split: if_splits)
qed simp

text \<open>What has become of the actor \<open>actor\<close> spawned under a tag.\<close>

definition life ::
  "('a, 'm, 'qe, 'qa) world \<Rightarrow> ('qe \<Rightarrow> ('a, 'm) event list) \<Rightarrow> ('qa \<Rightarrow> ('a, 'm) action list) \<Rightarrow> tag \<Rightarrow>
   'm envelope list \<Rightarrow> ('a, 'm) event list \<Rightarrow> ('a, 'm, 'qe, 'qa) runtime_state \<Rightarrow> 'a \<Rightarrow> bool"
where
  "life W ce ca tag mail evs s actor \<longleftrightarrow>
     bodies ce ca tag s \<subseteq># {#foldl (after_mail (w_behaviour W) tag) actor (mails tag evs)#} \<and>
     (\<exists>rest. mails tag evs @ mails tag (ce (rt_events s)) @ rest = mail \<and>
        (cell_of (rt_loop s) tag \<noteq> Absent \<longrightarrow> rest = waiting (cell_of (rt_loop s) tag)))"

definition unborn ::
  "('qe \<Rightarrow> ('a, 'm) event list) \<Rightarrow> ('qa \<Rightarrow> ('a, 'm) action list) \<Rightarrow> tag \<Rightarrow>
   ('a, 'm) event list \<Rightarrow> ('a, 'm, 'qe, 'qa) runtime_state \<Rightarrow> bool"
where
  "unborn ce ca tag evs s \<longleftrightarrow>
     bodies ce ca tag s = {#} \<and> cell_of (rt_loop s) tag = Absent \<and> mails tag evs = []"

definition one_life ::
  "('a, 'm, 'qe, 'qa) world \<Rightarrow> ('qe \<Rightarrow> ('a, 'm) event list) \<Rightarrow> ('qa \<Rightarrow> ('a, 'm) action list) \<Rightarrow> tag \<Rightarrow>
   ('a, 'm) action list \<Rightarrow> ('a, 'm) event list \<Rightarrow> ('a, 'm, 'qe, 'qa) runtime_state \<Rightarrow> bool"
where
  "one_life W ce ca tag acts evs s \<longleftrightarrow>
     (rt_spawned s tag = 0 \<longrightarrow> first_spawn tag acts = None \<and> unborn ce ca tag evs s) \<and>
     (rt_spawned s tag = 1 \<longrightarrow>
        (\<exists>actor. first_spawn tag acts = Some actor \<and>
           life W ce ca tag (accepted_mail tag acts) evs s actor))"

lemma unborn_mails: "unborn ce ca tag evs s \<Longrightarrow> mails tag (ce (rt_events s)) = []"
  by (simp add: unborn_def bodies_def no_bodies_no_mails)

lemma one_life_frame:
  assumes "one_life W ce ca tag acts evs s"
    and "bodies ce ca tag t \<subseteq># bodies ce ca tag s" "cell_of (rt_loop t) = cell_of (rt_loop s)"
      "rt_spawned t = rt_spawned s" "mails tag (ce (rt_events t)) = mails tag (ce (rt_events s))"
  shows "one_life W ce ca tag acts evs t"
proof -
  have "unborn ce ca tag evs t" if "unborn ce ca tag evs s"
    using that assms(2,3) by (simp add: unborn_def)
  moreover have "life W ce ca tag mail evs t actor" if "life W ce ca tag mail evs s actor" for mail actor
    using that subset_mset.order_trans [OF assms(2)] assms(3,5) unfolding life_def by simp
  ultimately show ?thesis using assms(1,4) unfolding one_life_def by metis
qed

lemma one_life_taken:
  assumes ch: "channels_ok W ce ca" and s: "one_life W ce ca tag acts evs s" and "takes W ev s t"
  shows "one_life W ce ca tag acts (evs @ [ev]) t"
proof -
  obtain rest where b: "bodies ce ca tag s = event_body tag ev + rest"
      "bodies ce ca tag t \<subseteq># rest + handed_back (w_behaviour W) tag ev"
    and frame: "ce (rt_events s) = ev # ce (rt_events t)" "rt_loop t = rt_loop s" "rt_spawned t = rt_spawned s"
    using takes_bodies [OF ch assms(3)] by blast
  have "unborn ce ca tag (evs @ [ev]) t" if "unborn ce ca tag evs s"
    using that b frame
    by (cases ev) (auto simp: unborn_def handed_back_def split: if_splits)
  moreover have "life W ce ca tag mail (evs @ [ev]) t actor" if l: "life W ce ca tag mail evs s actor" for mail actor
  proof -
    let ?now = "foldl (after_mail (w_behaviour W) tag) actor (mails tag evs)"
    have "bodies ce ca tag t \<subseteq># {#foldl (after_mail (w_behaviour W) tag) actor (mails tag (evs @ [ev]))#}"
    proof (cases "event_body tag ev = {#}")
      case True
      then have "handed_back (w_behaviour W) tag ev = {#}" "mails tag [ev] = []"
        by (cases ev; auto simp: handed_back_def split: if_splits)+
      with b True l show ?thesis by (auto simp: life_def)
    next
      case False
      then obtain a where a: "event_body tag ev = {#a#}" by (cases ev) (auto split: if_splits)
      with b(1) l have "rest = {#}" "a = ?now" by (auto simp: life_def)
      with b(2) a show ?thesis by (cases ev) (auto simp: handed_back_def split: if_splits)
    qed
    moreover have "mails tag (evs @ [ev]) @ mails tag (ce (rt_events t)) =
        mails tag evs @ mails tag (ce (rt_events s))"
      using frame(1) by (cases ev) simp_all
    ultimately show ?thesis using l frame(2) unfolding life_def by (metis append_assoc)
  qed
  ultimately show ?thesis using s frame(3) unfolding one_life_def by metis
qed

lemma one_life_handled:
  assumes ch: "channels_ok W ce ca" and ok: "loop_ok (rt_loop s)"
    and s: "one_life W ce ca tag acts evs s" and "handles W act s t"
  shows "one_life W ce ca tag (acts @ [act]) evs t"
proof -
  from assms(4) obtain rd actions l out go where
    recv: "receive_action (w_action_chan W) (rt_actions s) = (Some act, actions)"
    and step: "event_loop_step (some_worker s) (w_name W) (w_host W) (Some act) rd (rt_loop s) = Ret (l, out, go)"
    and t: "t = after_iteration W (Some act) actions l out go s"
    unfolding handles_def by blast
  define f where "f = cell_of (rt_loop s)"
  have cells: "cell_of (rt_loop t) = fst (cells_step act f)" "to_workers out = snd (cells_step act f)"
    using event_loop_step_refines [OF ok step] by (simp_all add: t after_iteration_def prod_eq_iff f_def)
  have events: "mails tag (ce (rt_events t)) = mails tag (ce (rt_events s)) @ mails tag (snd (cells_step act f))"
    by (simp add: t after_iteration_def channels_send [OF ch] cells)
  have b: "bodies ce ca tag t \<subseteq># bodies ce ca tag s + spawn_body tag act (f tag)"
    using iterate_bodies [OF ch ok recv step, of tag] by (simp add: t born_def f_def)
  have n: "rt_spawned t tag = rt_spawned s tag + (if f tag = Absent \<and> spawned_actor tag act \<noteq> None then 1 else 0)"
    by (cases act) (auto simp: t after_iteration_def accepts_spawn_def f_def cell_of_Absent spawned_actor_def)
  have none: "spawn_body tag act (f tag) = {#}" if "\<not> (f tag = Absent \<and> spawned_actor tag act \<noteq> None)"
    using that by (cases act) (auto simp: spawn_body_def spawned_actor_def)
  note boxes = cells_step_mails [where f = f and tag = tag and act = act]
  show ?thesis
  proof (cases "f tag = Absent \<and> spawned_actor tag act \<noteq> None")
    case True
    then obtain actor where act: "act = Act_Spawn tag actor" by (auto simp: spawned_actor_Some)
    have "life W ce ca tag [] evs t actor" "first_spawn tag acts = None" if "rt_spawned s tag = 0"
    proof -
      have u: "unborn ce ca tag evs s" "first_spawn tag acts = None"
        using s that by (simp_all add: one_life_def)
      then show "first_spawn tag acts = None" by simp
      show "life W ce ca tag [] evs t actor"
        using b u(1) boxes(2) True events unborn_mails [OF u(1)] cells(1)
        by (simp add: life_def unborn_def act spawn_body_def)
    qed
    moreover have "spawned_actor tag act = Some actor" "queued tag act = []"
      by (simp_all add: act spawned_actor_def queued_def)
    moreover have "rt_spawned t tag = Suc (rt_spawned s tag)" using n True by simp
    ultimately show ?thesis
      unfolding one_life_def by (simp add: accepted_mail_None)
  next
    case False
    have b': "bodies ce ca tag t \<subseteq># bodies ce ca tag s" using b none [OF False] by simp
    have n': "rt_spawned t tag = rt_spawned s tag" using n False by simp
    have "unborn ce ca tag evs t \<and> spawned_actor tag act = None" if u: "unborn ce ca tag evs s"
    proof -
      have "f tag = Absent" using u by (simp add: unborn_def f_def)
      with False boxes(3) u b' cells(1) show ?thesis
        by (auto simp: unborn_def spawned_actor_None)
    qed
    moreover have "life W ce ca tag (mail @ queued tag act) evs t actor"
      if l: "life W ce ca tag mail evs s actor" for mail actor
    proof -
      obtain rest where rest: "mails tag evs @ mails tag (ce (rt_events s)) @ rest = mail"
        "f tag \<noteq> Absent \<Longrightarrow> rest = waiting (f tag)"
        using l by (auto simp: life_def f_def)
      have gone: "fst (cells_step act f) tag = Absent" if "f tag = Absent"
        using boxes(3) [OF that] False that by (auto simp: spawned_actor_None)
      have "mails tag evs @ mails tag (ce (rt_events t))
          @ (if fst (cells_step act f) tag = Absent then rest @ queued tag act
             else waiting (fst (cells_step act f) tag)) = mail @ queued tag act"
      proof (cases "f tag = Absent")
        case True
        then show ?thesis using boxes(2) rest(1) gone by (simp add: events)
      next
        case present: False
        then show ?thesis using boxes(1) [OF present] boxes(2) rest by (auto simp: events)
      qed
      moreover have "bodies ce ca tag t \<subseteq># {#foldl (after_mail (w_behaviour W) tag) actor (mails tag evs)#}"
        using l subset_mset.order_trans [OF b'] by (simp add: life_def)
      ultimately show ?thesis
        unfolding life_def by (intro conjI) (assumption, rule exI, erule conjI, simp add: cells(1))
    qed
    ultimately show ?thesis
      using s n' unfolding one_life_def by (auto simp: accepted_mail_None)
  qed
qed

text \<open>The invariant holds over every run of a started system.\<close>

lemma started_one_life:
  fixes W :: "('a, 'm, 'qe, 'qa) world"
  assumes "started W ce ca s" "channels_ok W ce ca"
  shows "one_life W ce ca tag [] [] s"
  using assms
proof (rule started_state)
  fix c now
  assume s: "rt_loop s = event_loop_init c (w_name W) now" "ce (rt_events s) = []"
    "\<And>tag. filter (is_return tag) (ca (rt_actions s)) = []"
    "rt_workers s = replicate (actor_worker_threads c) (Waiting local_new)" "rt_spawned s = (\<lambda>_. 0)"
  have "sum_list (replicate n ({#} :: 'a multiset)) = {#}" for n
    by (induction n) simp_all
  with s no_returns_no_bodies [OF s(3)] show ?thesis
    by (simp add: one_life_def unborn_def bodies_def cell_of_init cell_body_def)
qed

lemma observed_one_life:
  assumes ch: "channels_ok W ce ca" and s0: "started W ce ca s0" and "observed W s0 acts evs s"
  shows "one_life W ce ca tag acts evs s"
  using assms(3)
proof (induction rule: observed.induct)
  case begins
  show ?case using started_one_life [OF s0 ch] .
next
  case (handled acts evs s act t)
  have "loop_ok (rt_loop s)"
    using sound_law.reachable_inv [OF s0 observed_reachable [OF handled.hyps(1)]] ch by (simp add: sound_def)
  from one_life_handled [OF ch this handled.IH handled.hyps(2)] show ?case .
next
  case (taken acts evs s ev t)
  from one_life_taken [OF ch taken.IH taken.hyps(2)] show ?case .
next
  case (unseen acts evs s t)
  have "loop_ok (rt_loop s)"
    using sound_law.reachable_inv [OF s0 observed_reachable [OF unseen.hyps(1)]] ch by (simp add: sound_def)
  from one_life_frame [OF unseen.IH] unseen_bodies [OF ch this unseen.hyps(2-4)] show ?case by blast
qed

end
