(* ===== verification/Ordering.thy ===== *)
theory Ordering
  imports Sequential
begin

text \<open>
  What an actor sends, over the life of the system: the actions of its turns reach the channel
  of the event loop in the order of the turns, although the turns run on different workers. The
  reason is that the actor itself travels behind the messages of its turn: the next turn cannot
  begin before the event loop has taken the \<open>Return\<close> of the turn before.
\<close>

section \<open>What the turns of an actor send\<close>

definition turn_sent :: "('a, 'm) behaviour \<Rightarrow> tag \<Rightarrow> 'a \<Rightarrow> 'm envelope \<Rightarrow> ('a, 'm) action list" where
  "turn_sent B tag actor e =
     (case receive B tag e actor of (calls, actor', ok) \<Rightarrow>
        concat (map call_actions calls)
        @ (if ok then [] else concat (map call_actions (fst (on_fail B tag actor')))))"

primrec turns_sent :: "('a, 'm) behaviour \<Rightarrow> tag \<Rightarrow> 'a \<Rightarrow> 'm envelope list \<Rightarrow> ('a, 'm) action list" where
  "turns_sent B tag actor [] = []"
| "turns_sent B tag actor (e # es) = turn_sent B tag actor e @ turns_sent B tag (after_mail B tag actor e) es"

lemma turns_sent_snoc [simp]:
  "turns_sent B tag actor (es @ [e]) =
     turns_sent B tag actor es @ turn_sent B tag (foldl (after_mail B tag) actor es) e"
  by (induction es arbitrary: actor) simp_all

lemma turn_sent_no_bodies [simp]: "action_bodies t (turn_sent B tag actor e) = {#}"
  by (auto simp: turn_sent_def split: prod.splits)

text \<open>The messages of a turn go first, then the actor, unless the worker dies.\<close>

lemma worker_turn_sent:
  assumes "worker_turn B (Ev_Mail tag actor e) (l\<lparr>local_tx := []\<rparr>) = (l', status)"
  obtains tail where "local_tx l' = turn_sent B tag actor e @ tail"
    and "tail = [] \<or> (\<exists>a ok books. tail = Act_Return tag a ok # books)"
proof -
  obtain calls actor' ok calls' ok' where
    r: "receive B tag e actor = (calls, actor', ok)" and f: "on_fail B tag actor' = (calls', ok')"
    by (metis surj_pair)
  have "worker_mail B tag actor e (l\<lparr>local_tx := []\<rparr>) = (l', status)" using assms by simp
  note tx = worker_mail_tx [OF r f this]
  show ?thesis
  proof (cases "ok \<or> ok'")
    case True
    with tx obtain books where "local_tx l' = turn_sent B tag actor e @ Act_Return tag actor' ok # books"
      using r f by (auto simp: turn_sent_def)
    then show ?thesis using that by blast
  next
    case False
    with tx r f have "local_tx l' = turn_sent B tag actor e @ []" by (simp add: turn_sent_def)
    then show ?thesis using that by blast
  qed
qed

section \<open>Where the messages of an actor are\<close>

definition reached ::
  "('qa \<Rightarrow> ('a, 'm) action list) \<Rightarrow> ('a, 'm) action list \<Rightarrow> ('a, 'm, 'qe, 'qa) runtime_state \<Rightarrow>
   ('a, 'm) action list \<Rightarrow> bool"
where
  "reached ca acts s sent \<longleftrightarrow> subseq sent (acts @ ca (rt_actions s))"

text \<open>Worker \<open>i\<close> is still sending the last of them, before it gives the actor back.\<close>

definition sent_by ::
  "('qe \<Rightarrow> ('a, 'm) event list) \<Rightarrow> ('qa \<Rightarrow> ('a, 'm) action list) \<Rightarrow> tag \<Rightarrow> ('a, 'm) action list \<Rightarrow>
   ('a, 'm, 'qe, 'qa) runtime_state \<Rightarrow> ('a, 'm) action list \<Rightarrow> nat \<Rightarrow> bool"
where
  "sent_by ce ca tag acts s sent i \<longleftrightarrow>
     (\<exists>out tail l status. i < length (rt_workers s) \<and> rt_workers s ! i = Sending (out @ tail) l status \<and>
        subseq sent (acts @ ca (rt_actions s) @ out) \<and>
        (tail = [] \<and> bodies ce ca tag s = {#} \<or> (\<exists>a ok books. tail = Act_Return tag a ok # books)))"

definition in_order ::
  "('qe \<Rightarrow> ('a, 'm) event list) \<Rightarrow> ('qa \<Rightarrow> ('a, 'm) action list) \<Rightarrow> tag \<Rightarrow> ('a, 'm) action list \<Rightarrow>
   ('a, 'm, 'qe, 'qa) runtime_state \<Rightarrow> ('a, 'm) action list \<Rightarrow> bool"
where
  "in_order ce ca tag acts s sent \<longleftrightarrow> reached ca acts s sent \<or> (\<exists>i. sent_by ce ca tag acts s sent i)"

lemma in_order_Nil [simp]: "in_order ce ca tag acts s []"
  by (simp add: in_order_def reached_def)

lemma subseq_more: "subseq (xs @ ys) (xs @ ys @ zs)"
  using subseq_rev_drop_many [of "xs @ ys" "xs @ ys" zs] by simp

lemma reached_grows:
  "reached ca acts s sent \<Longrightarrow> subseq (acts @ ca (rt_actions s)) (acts' @ ca (rt_actions t)) \<Longrightarrow>
   reached ca acts' t sent"
  unfolding reached_def by (rule subseq_order.order_trans)

text \<open>A move that leaves the sending worker to its work.\<close>

lemma sent_by_frame:
  assumes "sent_by ce ca tag acts s sent i"
    and "subseq (acts @ ca (rt_actions s)) (acts' @ ca (rt_actions t))"
      "bodies ce ca tag t \<subseteq># bodies ce ca tag s"
      "length (rt_workers t) = length (rt_workers s)" "rt_workers t ! i = rt_workers s ! i"
  shows "sent_by ce ca tag acts' t sent i"
proof -
  from assms(1) obtain out tail l status where w: "i < length (rt_workers s)"
      "rt_workers s ! i = Sending (out @ tail) l status"
    and sub: "subseq sent (acts @ ca (rt_actions s) @ out)"
    and tail: "tail = [] \<and> bodies ce ca tag s = {#} \<or> (\<exists>a ok books. tail = Act_Return tag a ok # books)"
    unfolding sent_by_def by blast
  have "subseq ((acts @ ca (rt_actions s)) @ out) ((acts' @ ca (rt_actions t)) @ out)"
    by (rule list_emb_append_mono [OF assms(2) subseq_order.order_refl])
  with sub have "subseq sent (acts' @ ca (rt_actions t) @ out)"
    by (metis append_assoc subseq_order.order_trans)
  moreover have "tail = [] \<and> bodies ce ca tag t = {#} \<or> (\<exists>a ok books. tail = Act_Return tag a ok # books)"
    using tail assms(3) by auto
  ultimately show ?thesis unfolding sent_by_def using w assms(4,5) by metis
qed

lemma in_order_frame:
  assumes "in_order ce ca tag acts s sent"
    and "subseq (acts @ ca (rt_actions s)) (acts' @ ca (rt_actions t))"
      "bodies ce ca tag t \<subseteq># bodies ce ca tag s"
      "length (rt_workers t) = length (rt_workers s)"
      "\<And>i acts l status. i < length (rt_workers s) \<Longrightarrow> rt_workers s ! i = Sending acts l status \<Longrightarrow>
         rt_workers t ! i = rt_workers s ! i"
  shows "in_order ce ca tag acts' t sent"
  using assms(1) unfolding in_order_def
proof (elim disjE exE)
  assume "reached ca acts s sent"
  then show "reached ca acts' t sent \<or> (\<exists>i. sent_by ce ca tag acts' t sent i)"
    using reached_grows assms(2) by blast
next
  fix i
  assume i: "sent_by ce ca tag acts s sent i"
  then have "rt_workers t ! i = rt_workers s ! i" using assms(5) unfolding sent_by_def by blast
  from sent_by_frame [OF i assms(2-4) this]
  show "reached ca acts' t sent \<or> (\<exists>i. sent_by ce ca tag acts' t sent i)" by blast
qed

section \<open>The moves\<close>

lemma worker_body_le:
  "i < length ws \<Longrightarrow> worker_body tag (ws ! i) \<subseteq># sum_list (map (worker_body tag) ws)"
  using worker_bodies_update [of i ws tag Gone] by (metis add.right_neutral mset_subset_eq_add_right worker_body.simps(3))

text \<open>While its next message is in an event, the messages of the turns before have all arrived.\<close>

lemma next_turn_reached:
  assumes "in_order ce ca tag acts s sent" "bodies ce ca tag s = {#a#} + rest"
    "sum_list (map (worker_body tag) (rt_workers s)) \<subseteq># rest" "rest = {#}"
  shows "reached ca acts s sent"
proof -
  have "\<not> sent_by ce ca tag acts s sent i" for i
  proof
    assume "sent_by ce ca tag acts s sent i"
    then obtain out tail l status where w: "i < length (rt_workers s)" "rt_workers s ! i = Sending (out @ tail) l status"
      and tail: "tail = [] \<and> bodies ce ca tag s = {#} \<or> (\<exists>a ok books. tail = Act_Return tag a ok # books)"
      unfolding sent_by_def by blast
    from worker_body_le [OF w(1), of tag] w(2) tail assms(2-4) show False by auto
  qed
  with assms(1) show ?thesis by (simp add: in_order_def)
qed

lemma in_order_taken:
  assumes ch: "channels_ok W ce ca" and s: "in_order ce ca tag acts s (turns_sent (w_behaviour W) tag actor (mails tag evs))"
    and life: "life W ce ca tag mail evs s actor" and "takes W ev s t"
  shows "in_order ce ca tag acts t (turns_sent (w_behaviour W) tag actor (mails tag (evs @ [ev])))"
proof -
  obtain i l l' status rest where i: "i < length (rt_workers s)" "rt_workers s ! i = Waiting l"
    and turn: "worker_turn (w_behaviour W) ev (l\<lparr>local_tx := []\<rparr>) = (l', status)"
    and t: "rt_workers t = (rt_workers s)[i := Sending (local_tx l') (l'\<lparr>local_tx := []\<rparr>) status]"
      "rt_actions t = rt_actions s"
    and b: "bodies ce ca tag s = event_body tag ev + rest"
      "bodies ce ca tag t = rest + action_bodies tag (local_tx l')"
      "sum_list (map (worker_body tag) (rt_workers s)) \<subseteq># rest"
    using ch assms(4) by (rule takes_exact [where tag = tag])
  show ?thesis
  proof (cases "mails tag [ev]")
    case Nil
    then have "handed_back (w_behaviour W) tag ev = {#}" by (cases ev) (auto simp: handed_back_def split: if_splits)
    with worker_turn_bodies [OF turn, of tag] have "action_bodies tag (local_tx l') = {#}"
      by (simp add: handed_back_def)
    with b have "bodies ce ca tag t \<subseteq># bodies ce ca tag s" by simp
    moreover have "rt_workers t ! j = rt_workers s ! j" if "rt_workers s ! j = Sending out l status" for j out l status
      using that i t(1) by (cases "i = j") auto
    ultimately show ?thesis using in_order_frame [OF s, of acts t] t Nil by simp
  next
    case (Cons e es)
    then obtain a where ev: "ev = Ev_Mail tag a e" by (cases ev) (auto split: if_splits)
    let ?now = "foldl (after_mail (w_behaviour W) tag) actor (mails tag evs)"
    have "rest = {#}" "a = ?now" using life b(1) ev by (auto simp: life_def)
    then have "reached ca acts s (turns_sent (w_behaviour W) tag actor (mails tag evs))"
      using next_turn_reached [OF s _ b(3)] b(1) ev by simp
    then have sub: "subseq (turns_sent (w_behaviour W) tag actor (mails tag evs)
        @ turn_sent (w_behaviour W) tag ?now e) ((acts @ ca (rt_actions s)) @ turn_sent (w_behaviour W) tag ?now e)"
      unfolding reached_def by (rule list_emb_append_mono) simp
    obtain tail where tail: "local_tx l' = turn_sent (w_behaviour W) tag a e @ tail"
      "tail = [] \<or> (\<exists>a ok books. tail = Act_Return tag a ok # books)"
      using turn unfolding ev by (rule worker_turn_sent)
    with \<open>rest = {#}\<close> b(2) have "tail = [] \<and> bodies ce ca tag t = {#} \<or>
      (\<exists>a ok books. tail = Act_Return tag a ok # books)" by auto
    with sub tail(1) t i \<open>a = ?now\<close> ev
    have "sent_by ce ca tag acts t (turns_sent (w_behaviour W) tag actor (mails tag (evs @ [ev]))) i"
      unfolding sent_by_def
      by (intro exI [of _ "turn_sent (w_behaviour W) tag a e"] exI [of _ tail]) simp
    then show ?thesis unfolding in_order_def by blast
  qed
qed

lemma in_order_send_next:
  assumes ch: "channels_ok W ce ca" and s: "in_order ce ca tag acts s sent"
    and i: "i < length (rt_workers s)" "rt_workers s ! i = Sending (act # rest) l status"
    and t: "rt_workers t = (rt_workers s)[i := Sending rest l status]"
      "rt_actions t = chan_send (w_action_chan W) act (rt_actions s)"
    and b: "bodies ce ca tag t \<subseteq># bodies ce ca tag s"
  shows "in_order ce ca tag acts t sent"
  using s unfolding in_order_def
proof (elim disjE exE)
  assume "reached ca acts s sent"
  then show "reached ca acts t sent \<or> (\<exists>i. sent_by ce ca tag acts t sent i)"
    using t(2) channels_send(3) [OF ch] by (auto simp: reached_def simp flip: append_assoc)
next
  fix j
  assume j: "sent_by ce ca tag acts s sent j"
  show "reached ca acts t sent \<or> (\<exists>i. sent_by ce ca tag acts t sent i)"
  proof (cases "j = i")
    case False
    then show ?thesis
      using sent_by_frame [OF j _ b, of acts] t channels_send(3) [OF ch] by (auto simp: subseq_more)
  next
    case True
    from j obtain out tail where w: "act # rest = out @ tail"
      and sub: "subseq sent (acts @ ca (rt_actions s) @ out)"
      and tail: "tail = [] \<and> bodies ce ca tag s = {#} \<or> (\<exists>a ok books. tail = Act_Return tag a ok # books)"
      using i True unfolding sent_by_def by auto
    show ?thesis
    proof (cases out)
      case Nil
      with sub t(2) channels_send(3) [OF ch] show ?thesis
        by (auto simp: reached_def simp flip: append_assoc)
    next
      case (Cons o' out')
      with w sub t i channels_send(3) [OF ch] tail b True
      have "sent_by ce ca tag acts t sent j"
        unfolding sent_by_def by (intro exI [of _ out'] exI [of _ tail]) auto
      then show ?thesis by blast
    qed
  qed
qed

lemma in_order_turn_over:
  assumes s: "in_order ce ca tag acts s sent"
    and i: "i < length (rt_workers s)" "rt_workers s ! i = Sending [] l status"
    and t: "rt_workers t = (rt_workers s)[i := w]" "rt_actions t = rt_actions s"
    and b: "bodies ce ca tag t \<subseteq># bodies ce ca tag s"
  shows "in_order ce ca tag acts t sent"
  using s unfolding in_order_def
proof (elim disjE exE)
  assume "reached ca acts s sent"
  then show "reached ca acts t sent \<or> (\<exists>i. sent_by ce ca tag acts t sent i)"
    using t(2) by (simp add: reached_def)
next
  fix j
  assume j: "sent_by ce ca tag acts s sent j"
  show "reached ca acts t sent \<or> (\<exists>i. sent_by ce ca tag acts t sent i)"
  proof (cases "j = i")
    case False
    then show ?thesis using sent_by_frame [OF j _ b, of acts] t by auto
  next
    case True
    with j i t(2) have "reached ca acts t sent" by (auto simp: sent_by_def reached_def)
    then show ?thesis ..
  qed
qed

text \<open>The event loop takes an action off the channel into the history, and may add to the channel.\<close>

lemma after_iteration_actions:
  assumes ch: "channels_ok W ce ca" and recv: "receive_action (w_action_chan W) (rt_actions s) = (received, actions)"
  shows "subseq (acts @ ca (rt_actions s))
    ((acts @ (case received of None \<Rightarrow> [] | Some act \<Rightarrow> [act]))
      @ ca (rt_actions (after_iteration W received actions l out go s)))"
  using receive_action_content [OF ch recv]
  by (simp add: after_iteration_def channels_send [OF ch] subseq_more [of "acts @ _", simplified])

lemma in_order_unseen:
  assumes ch: "channels_ok W ce ca" and ok: "loop_ok (rt_loop s)" and s: "in_order ce ca tag acts s sent"
    and step: "system_step W s t" "\<forall>act. \<not> handles W act s t" "\<forall>ev. \<not> takes W ev s t"
    and running: "rt_phase t = Running"
  shows "in_order ce ca tag acts t sent \<and> rt_phase s = Running"
proof -
  have b: "bodies ce ca tag t \<subseteq># bodies ce ca tag s" using unseen_bodies [OF ch ok step, of tag] by blast
  from step(1) consider "rt_step W s t" | "client_step W s t" by (auto simp: system_step_def)
  then show ?thesis
  proof cases
    case 1
    then show ?thesis
    proof cases
      case (iterate rd received actions l out go)
      then have "received = None" using step(2) unfolding handles_def by (cases received) blast+
      with after_iteration_actions [OF ch iterate(4), of acts l out go] iterate(1,2) show ?thesis
        using in_order_frame [OF s _ b, of acts] by (simp add: after_iteration_def)
    next
      case (take_event i l ev events l' status)
      then show ?thesis using step(3) unfolding takes_def by blast
    next
      case (send_next i act rest l status)
      then show ?thesis using in_order_send_next [OF ch s send_next(2,3) _ _ b] running by simp
    next
      case (turn_over i l status)
      then show ?thesis using in_order_turn_over [OF s turn_over(2,3) _ _ b] running by simp
    qed (use running in \<open>auto simp: listening_phase_def split: if_splits\<close>)
  next
    case 2
    then show ?thesis
      using running in_order_frame [OF s _ b, of acts]
      by cases (simp_all add: run_defs split_beta channels_send [OF ch] subseq_more)
  qed
qed

lemma in_order_handled:
  assumes ch: "channels_ok W ce ca" and ok: "loop_ok (rt_loop s)" and s: "in_order ce ca tag acts s sent"
    and "handles W act s t" and same: "rt_spawned t tag = rt_spawned s tag"
  shows "in_order ce ca tag (acts @ [act]) t sent"
proof -
  from assms(4) obtain rd actions l out go where
    recv: "receive_action (w_action_chan W) (rt_actions s) = (Some act, actions)"
    and step: "event_loop_step (some_worker s) (w_name W) (w_host W) (Some act) rd (rt_loop s) = Ret (l, out, go)"
    and t: "t = after_iteration W (Some act) actions l out go s"
    unfolding handles_def by blast
  have "accepts_spawn (rt_loop s) (Some act) tag = 0" using same by (simp add: t after_iteration_def)
  then have "born tag (Some act) (rt_loop s) = {#}"
    by (cases act) (auto simp: born_def spawn_body_def accepts_spawn_def cell_of_Absent split: if_splits)
  then have "bodies ce ca tag t \<subseteq># bodies ce ca tag s"
    using iterate_bodies [OF ch ok recv step, of tag] by (simp add: t)
  moreover have "subseq (acts @ ca (rt_actions s)) ((acts @ [act]) @ ca (rt_actions t))"
    using after_iteration_actions [OF ch recv, of acts l out go] by (simp add: t)
  ultimately show ?thesis
    using in_order_frame [OF s, of "acts @ [act]" t] by (simp add: t after_iteration_def)
qed

section \<open>All runs\<close>

lemma observed_phase:
  "observed W s0 acts evs s \<Longrightarrow> handles W act s t \<Longrightarrow> rt_phase s = Running \<and> rt_spawned s tag \<le> rt_spawned t tag"
  by (auto simp: handles_def after_iteration_def)

lemma observed_in_order:
  assumes ch: "channels_ok W ce ca" and s0: "started W ce ca s0" and "observed W s0 acts evs s"
  shows "rt_phase s = Running \<Longrightarrow> rt_spawned s tag \<le> 1 \<Longrightarrow> first_spawn tag acts = Some actor \<Longrightarrow>
    in_order ce ca tag acts s (turns_sent (w_behaviour W) tag actor (mails tag evs))"
  using assms(3)
proof (induction rule: observed.induct)
  case begins
  then show ?case by simp
next
  case (handled acts evs s act t)
  note life = observed_one_life [OF ch s0 handled.hyps(1), of tag]
  have ok: "loop_ok (rt_loop s)"
    using sound_law.reachable_inv [OF s0 observed_reachable [OF handled.hyps(1)]] ch by (simp add: sound_def)
  have s: "rt_phase s = Running" "rt_spawned s tag \<le> rt_spawned t tag"
    using observed_phase [OF handled.hyps(1,2)] by auto
  show ?case
  proof (cases "rt_spawned s tag = 0")
    case True
    then show ?thesis using life by (simp add: one_life_def unborn_def)
  next
    case False
    with s(2) handled.prems(2) have same: "rt_spawned t tag = rt_spawned s tag" "rt_spawned s tag = 1" by simp_all
    with life handled.prems(3) have "first_spawn tag acts = Some actor" by (auto simp: one_life_def)
    with handled.IH s(1) same(2)
    have "in_order ce ca tag acts s (turns_sent (w_behaviour W) tag actor (mails tag evs))" by simp
    from in_order_handled [OF ch ok this handled.hyps(2) same(1)] show ?thesis .
  qed
next
  case (taken acts evs s ev t)
  note life = observed_one_life [OF ch s0 taken.hyps(1), of tag]
  have same: "rt_phase t = rt_phase s" "rt_spawned t = rt_spawned s"
    using taken.hyps(2) by (auto simp: takes_def)
  with life taken.prems have "rt_spawned s tag = 1" by (cases "rt_spawned s tag = 0") (auto simp: one_life_def)
  with life taken.prems(3) have "life W ce ca tag (accepted_mail tag acts) evs s actor" by (auto simp: one_life_def)
  moreover have "in_order ce ca tag acts s (turns_sent (w_behaviour W) tag actor (mails tag evs))"
    using taken.IH taken.prems same by simp
  ultimately show ?case using in_order_taken [OF ch _ _ taken.hyps(2)] by blast
next
  case (unseen acts evs s t)
  have ok: "loop_ok (rt_loop s)"
    using sound_law.reachable_inv [OF s0 observed_reachable [OF unseen.hyps(1)]] ch by (simp add: sound_def)
  have "rt_spawned t = rt_spawned s" using unseen_bodies [OF ch ok unseen.hyps(2-4)] by blast
  moreover have "rt_phase s = Running"
    using in_order_unseen [OF ch ok in_order_Nil unseen.hyps(2-4) unseen.prems(1)] by blast
  ultimately have "in_order ce ca tag acts s (turns_sent (w_behaviour W) tag actor (mails tag evs))"
    using unseen.IH unseen.prems by simp
  from in_order_unseen [OF ch ok this unseen.hyps(2-4) unseen.prems(1)] show ?case by blast
qed

section \<open>Messages for one destination\<close>

definition mail_for :: "tag \<Rightarrow> ('a, 'm) action list \<Rightarrow> 'm envelope list" where
  "mail_for tag acts = concat (map (queued tag) acts)"

lemma mail_for_append [simp]: "mail_for tag (xs @ ys) = mail_for tag xs @ mail_for tag ys"
  by (simp add: mail_for_def)

lemma subseq_mail_for: "subseq xs ys \<Longrightarrow> subseq (mail_for tag xs) (mail_for tag ys)"
proof (induction rule: list_emb.induct)
  case (list_emb_Nil ys)
  then show ?case by (simp add: mail_for_def)
next
  case (list_emb_Cons xs ys y)
  then show ?case by (simp add: mail_for_def subseq_drop_many)
next
  case (list_emb_Cons2 x y xs ys)
  then show ?case by (simp add: mail_for_def list_emb_append_mono)
qed

end
