(* ===== verification/Run_Steps.thy ===== *)
theory Run_Steps
  imports Ordering
begin

text \<open>
  Concrete runs of the runtime, move by move: what an observer knows of the state between two
  moves (\<open>run_at\<close>), and the moves of a system with lists for channels that nobody disturbs. The
  witnesses of properties of whole runs are put together from these.
\<close>

definition run_at ::
  "('a, 'm, ('a, 'm) event list, ('a, 'm) action list) world \<Rightarrow>
   ('a, 'm, ('a, 'm) event list, ('a, 'm) action list) runtime_state \<Rightarrow> tag \<Rightarrow>
   ('a, 'm) action list \<Rightarrow> ('a, 'm) event list \<Rightarrow> (tag \<Rightarrow> ('a, 'm) cell) \<Rightarrow>
   ('a, 'm) event list \<Rightarrow> ('a, 'm) worker list \<Rightarrow> nat \<Rightarrow>
   ('a, 'm, ('a, 'm) event list, ('a, 'm) action list) runtime_state \<Rightarrow> bool"
where
  "run_at W s0 tag acts evs cells events ws n s \<longleftrightarrow>
     observed W s0 acts evs s \<and> rt_phase s = Running \<and> rt_handle s \<and>
     loop_ok (rt_loop s) \<and> tasks (rt_loop s) = [] \<and> \<not> eager_shutdown_enabled (sch_config (rt_loop s)) \<and>
     cell_of (rt_loop s) = cells \<and> rt_events s = events \<and> rt_actions s = [] \<and> rt_workers s = ws \<and>
     rt_spawned s tag = n"

text \<open>Lists for channels, and a clock that can show \<open>rd\<close>.\<close>

definition list_world ::
  "('a, 'm, ('a, 'm) event list, ('a, 'm) action list) world \<Rightarrow> readings \<Rightarrow> bool"
where
  "list_world W rd \<longleftrightarrow>
     w_event_chan W = list_chan \<and> w_action_chan W = list_chan \<and> w_clock W rd \<and> 0 \<le> rd_system rd"

lemma list_world_channels: "list_world W rd \<Longrightarrow> channels_ok W (\<lambda>q. q) (\<lambda>q. q)"
  by (simp add: list_world_def channels_ok_def list_chan.unbounded_channel_axioms)

lemma run_at_start:
  assumes "\<not> eager_shutdown_enabled c" "s0 = start_actor_runtime name c now [] []"
  shows "run_at W s0 tag [] [] (\<lambda>_. Absent) [] (replicate (actor_worker_threads c) (Waiting local_new)) 0 s0"
proof -
  have "rt_loop s0 = event_loop_init c name now" by (simp add: assms(2) start_actor_runtime_def)
  then have "loop_ok (rt_loop s0)" "cell_of (rt_loop s0) = (\<lambda>_. Absent)" by (simp_all add: loop_ok_init cell_of_init)
  then show ?thesis
    using assms by (simp add: run_at_def observed.begins start_actor_runtime_def event_loop_init_def)
qed

text \<open>An iteration on an action that neither sets a timer nor ends the loop.\<close>

lemma plain_iteration:
  assumes ok: "loop_ok s" and s: "tasks s = []" "\<not> eager_shutdown_enabled (sch_config s)"
    and act: "act \<noteq> Act_Shutdown" "\<And>e. act \<noteq> Act_Delay e" and rd: "0 \<le> rd_system rd"
  shows "\<exists>l out. event_loop_step True name host (Some act) rd s = Ret (l, out, True) \<and>
    loop_ok l \<and> tasks l = [] \<and> \<not> eager_shutdown_enabled (sch_config l) \<and>
    cell_of l = fst (cells_step act (cell_of s)) \<and> to_workers out = snd (cells_step act (cell_of s)) \<and>
    to_self out = []"
proof -
  have due: "drain_due now [] = ([], [])" for now by (simp add: drain_due.simps peek_task_def bh_peek_def)
  obtain l out go where step: "event_loop_step True name host (Some act) rd s = Ret (l, out, go)"
    using event_loop_step_total [OF ok rd] by blast
  have frame: "go \<and> tasks l = [] \<and> sch_config l = sch_config s \<and> to_self out = []"
    using step
  proof (cases rule: event_loop_step_Ret)
    case (handled act' s2 events)
    have kept: "tasks s2 = []" "sch_config s2 = sch_config s"
      using handle_action_frame [OF handled(2)] handled(1) s act
      by (auto simp: handled_frame_def after_hit_def split: action.splits)
    obtain reports where
      r: "report_phase name host rd (fst (timer_phase rd s2)) = Ret (l, reports)"
      and out: "out = \<lparr>to_workers = events, to_self = snd (timer_phase rd s2), to_background = reports\<rparr>"
        "go = (\<not> (eager_shutdown_enabled (sch_config l) \<and> active l = {}))"
      using handled(3) by (rule loop_tail_Ret)
    have "timer_phase rd s2 = (s2\<lparr>tasks := []\<rparr>, [])" using kept by (simp add: timer_phase_def due)
    with report_phase_frame(3,5) [OF r] out kept s(2) show ?thesis by simp
  next
    case (skipped act' events)
    then show ?thesis
      using handle_action_frame [OF skipped(2)] s act
      by (auto simp: handled_frame_def after_hit_def nothing_sent_def split: action.splits)
  next
    case (shutdown act' events)
    have "act' = Act_Shutdown"
      using handle_action_frame [OF shutdown(2)] unfolding handled_frame_def by blast
    with shutdown(1) act(1) show ?thesis by simp
  qed simp
  have cells: "cell_of l = fst (cells_step act (cell_of s))" "to_workers out = snd (cells_step act (cell_of s))"
    using event_loop_step_refines [OF ok step] by (simp_all add: prod_eq_iff)
  have "event_loop_step True name host (Some act) rd s = Ret (l, out, True)" using step frame by simp
  moreover have "loop_ok l" using event_loop_step_keeps [OF ok step] .
  moreover have "\<not> eager_shutdown_enabled (sch_config l)" using frame s(2) by simp
  ultimately show ?thesis using frame cells by blast
qed

text \<open>Somebody sends an action and the event loop handles it.\<close>

lemma run_gives:
  assumes W: "list_world W rd" and s: "run_at W s0 tag acts evs cells [] ws n s"
    and give: "system_step W s u"
    and u: "rt_actions u = [act]" "rt_workers u = ws'" "rt_loop u = rt_loop s" "rt_phase u = Running"
      "rt_handle u" "rt_events u = []" "rt_spawned u = rt_spawned s"
    and act: "act \<noteq> Act_Shutdown" "\<And>e. act \<noteq> Act_Delay e" "\<exists>w \<in> set ws'. w \<noteq> Gone"
  obtains t where "run_at W s0 tag (acts @ [act]) evs (fst (cells_step act cells)) (snd (cells_step act cells)) ws'
      (n + (if \<exists>actor. act = Act_Spawn tag actor \<and> cells tag = Absent then 1 else 0)) t"
proof -
  have chans: "w_event_chan W = list_chan" "w_action_chan W = list_chan" and rd: "w_clock W rd" "0 \<le> rd_system rd"
    using W by (simp_all add: list_world_def)
  have empty: "rt_events s = []" "rt_actions s = []" using s by (simp_all add: run_at_def)
  then have "\<not> handles W a s v" "\<not> takes W ev s v" for a ev v
    by (auto simp: handles_def takes_def receive_action_def chans)
  then have o1: "observed W s0 acts evs u"
    using observed.unseen [OF _ give] s by (auto simp: run_at_def)
  have recv: "receive_action (w_action_chan W) (rt_actions u) = (Some act, [])"
    by (simp add: receive_action_def u chans)
  obtain l out where
    step: "event_loop_step True (w_name W) (w_host W) (Some act) rd (rt_loop s) = Ret (l, out, True)"
    and l: "loop_ok l" "tasks l = []" "\<not> eager_shutdown_enabled (sch_config l)"
      "cell_of l = fst (cells_step act cells)" "to_workers out = snd (cells_step act cells)" "to_self out = []"
    using plain_iteration [of "rt_loop s" act rd "w_name W" "w_host W"] s act(1,2) rd(2)
    unfolding run_at_def by blast
  let ?t = "after_iteration W (Some act) [] l out True u"
  have "some_worker u" using act(3) u(2) by (simp add: some_worker_def)
  then have "handles W act u ?t"
    using s u step recv rd(1) unfolding handles_def run_at_def by auto
  from observed.handled [OF o1 this] have "observed W s0 (acts @ [act]) evs ?t" .
  moreover have "accepts_spawn (rt_loop s) (Some act) tag =
      (if \<exists>actor. act = Act_Spawn tag actor \<and> cells tag = Absent then 1 else 0)"
    using s by (cases act) (auto simp: accepts_spawn_def run_at_def cell_of_Absent)
  ultimately show ?thesis
    using s u l channels_send(2,4) [OF list_world_channels [OF W]] chans
    by (intro that [of ?t]) (simp add: run_at_def after_iteration_def)
qed

text \<open>A caller of \<open>Run\<close> spawns an actor or sends a message.\<close>

lemma run_spawns:
  assumes "list_world W rd" "run_at W s0 tag acts evs cells [] ws n s" "\<exists>w \<in> set ws. w \<noteq> Gone"
  obtains t where "run_at W s0 tag (acts @ [Act_Spawn t' a]) evs (fst (cells_step (Act_Spawn t' a) cells))
      (snd (cells_step (Act_Spawn t' a) cells)) ws (n + (if t' = tag \<and> cells tag = Absent then 1 else 0)) t"
proof -
  have chan: "w_action_chan W = list_chan" using assms(1) by (simp add: list_world_def)
  let ?u = "s\<lparr>rt_actions := run_spawn list_chan t' a (rt_actions s)\<rparr>"
  have "system_step W s ?u"
    using client_step.spawn [of s W t' a] assms(2) by (simp add: system_step_def run_at_def listening_phase_def chan)
  with run_gives [OF assms(1,2) this, of "Act_Spawn t' a" ws] assms(2,3) that show ?thesis
    by (auto simp: run_at_def run_spawn_def split: if_splits)
qed

lemma run_sends:
  assumes "list_world W rd" "run_at W s0 tag acts evs cells [] ws n s" "\<exists>w \<in> set ws. w \<noteq> Gone"
    "CHR ''@'' \<notin> set address"
  obtains t where "run_at W s0 tag (acts @ [Act_Queue address e]) evs (fst (cells_step (Act_Queue address e) cells))
      (snd (cells_step (Act_Queue address e) cells)) ws n t"
proof -
  have chan: "w_action_chan W = list_chan" using assms(1) by (simp add: list_world_def)
  let ?u = "s\<lparr>rt_actions := run_send list_chan address e (rt_actions s)\<rparr>"
  have "system_step W s ?u"
    using client_step.send [of s W address e] assms(2) by (simp add: system_step_def run_at_def listening_phase_def chan)
  with run_gives [OF assms(1,2) this, of "Act_Queue address e" ws] assms(2-4) that show ?thesis
    by (auto simp: run_at_def run_send_def)
qed

text \<open>A worker takes an event and makes a turn.\<close>

lemma run_takes:
  assumes "list_world W rd" "run_at W s0 tag acts evs cells (ev # events) ws n s"
    and "i < length ws" "ws ! i = Waiting l" "worker_turn (w_behaviour W) ev (l\<lparr>local_tx := []\<rparr>) = (l', status)"
  obtains t where "run_at W s0 tag acts (evs @ [ev]) cells events
      (ws[i := Sending (local_tx l') (l'\<lparr>local_tx := []\<rparr>) status]) n t"
proof -
  let ?t = "s\<lparr>rt_events := events, rt_workers := ws[i := Sending (local_tx l') (l'\<lparr>local_tx := []\<rparr>) status]\<rparr>"
  have "takes W ev s ?t"
    unfolding takes_def using assms by (intro exI [of _ i] exI [of _ l]) (simp add: run_at_def list_world_def)
  with assms(2) observed.taken [of W s0 acts evs s ev ?t] that [of ?t] show ?thesis by (simp add: run_at_def)
qed

text \<open>A worker sends the next of its actions and the event loop handles it.\<close>

lemma run_passes:
  assumes "list_world W rd" "run_at W s0 tag acts evs cells [] ws n s"
    and "i < length ws" "ws ! i = Sending (act # rest) l status"
    and act: "act \<noteq> Act_Shutdown" "\<And>e. act \<noteq> Act_Delay e" "\<And>t a. act \<noteq> Act_Spawn t a"
  obtains t where "run_at W s0 tag (acts @ [act]) evs (fst (cells_step act cells)) (snd (cells_step act cells))
      (ws[i := Sending rest l status]) n t"
proof -
  have chan: "w_action_chan W = list_chan" using assms(1) by (simp add: list_world_def)
  let ?ws = "ws[i := Sending rest l status]"
  let ?u = "s\<lparr>rt_actions := chan_send list_chan act (rt_actions s), rt_workers := ?ws\<rparr>"
  have "system_step W s ?u"
    using rt_step.send_next [of i s act rest l status W] assms(2-4)
    by (simp add: system_step_def run_at_def listening_phase_def chan)
  moreover have "\<exists>w \<in> set ?ws. w \<noteq> Gone"
    using assms(3) by (metis set_update_memI worker.distinct(5))
  ultimately obtain t where "run_at W s0 tag (acts @ [act]) evs (fst (cells_step act cells)) (snd (cells_step act cells)) ?ws
      (n + (if \<exists>actor. act = Act_Spawn tag actor \<and> cells tag = Absent then 1 else 0)) t"
    using run_gives [OF assms(1,2), of ?u act ?ws] act(1,2) assms(2) by (auto simp: run_at_def)
  with act(3) that show ?thesis by auto
qed

text \<open>A turn is over.\<close>

lemma run_rests:
  assumes "list_world W rd" "run_at W s0 tag acts evs cells [] ws n s"
    and "i < length ws" "ws ! i = Sending [] l Looping"
  obtains t where "run_at W s0 tag acts evs cells [] (ws[i := Waiting l]) n t"
proof -
  let ?t = "s\<lparr>rt_workers := ws[i := Waiting l]\<rparr>"
  have "system_step W s ?t"
    using rt_step.turn_over [of i s l Looping W] assms(2-4) by (simp add: system_step_def run_at_def)
  moreover have "\<not> handles W a s v" "\<not> takes W ev s v" for a ev v
    using assms(1,2) by (auto simp: handles_def takes_def receive_action_def run_at_def list_world_def)
  ultimately show ?thesis
    using assms(2) observed.unseen [of W s0 acts evs s ?t] that [of ?t] by (simp add: run_at_def)
qed

end
