(* ===== verification/Sequential_Claims.thy ===== *)
theory Sequential_Claims
  imports Run_Steps Runtime_Claims
begin

text \<open>
  The guarantee of the actor model, of the whole runtime: an actor handles the messages accepted
  for its tag one at a time and in order, each in the state the one before left it in.
\<close>

section \<open>A concrete run\<close>

lemma demo_list_world: "list_world demo_world demo_readings"
  by (simp add: list_world_def demo_readings_def)

text \<open>The client spawns an actor, sends it a message, and the system runs until it is quiet.\<close>

definition demo_at ::
  "(nat, string) action list \<Rightarrow> (nat, string) event list \<Rightarrow> (tag \<Rightarrow> (nat, string) cell) \<Rightarrow>
   (nat, string) event list \<Rightarrow> (nat, string) worker list \<Rightarrow> nat \<Rightarrow>
   (nat, string, (nat, string) event list, (nat, string) action list) runtime_state \<Rightarrow> bool"
where
  "demo_at = run_at demo_world demo_start ''x''"

lemma demo_observed:
  "\<exists>s. demo_at
    [Act_Spawn ''x'' 3, Act_Queue ''x'' (envelope_of ''hi''), Act_Queue ''y'' (envelope_of ''hi''),
     Act_Return ''x'' 4 True, Act_Logs ''x'' [(0, ''got it'')]]
    [Ev_Mail ''x'' 3 (envelope_of ''hi'')]
    ((\<lambda>_. Absent)(''x'' := Idle 4)) [] ((replicate 4 (Waiting local_new))[0 := Waiting (local_new\<lparr>local_tag := ''x''\<rparr>)]) 1 s"
proof -
  let ?at = "run_at demo_world demo_start ''x''"
  let ?ws = "replicate 4 (Waiting local_new) :: (nat, string) worker list"
  let ?hi = "envelope_of ''hi''"
  note W = demo_list_world
  have alive: "\<exists>w \<in> set ?ws. w \<noteq> Gone" by simp
  have "?at [] [] (\<lambda>_. Absent) [] ?ws 0 demo_start"
    using run_at_start [of demo_config demo_start "''demo''" 0 demo_world "''x''"]
    by (simp add: demo_start_def demo_defs)
  from run_spawns [OF W this alive, of "''x''" 3] obtain s1 where
    s1: "?at [Act_Spawn ''x'' 3] [] ((\<lambda>_. Absent)(''x'' := Idle 3)) [] ?ws 1 s1"
    by (auto simp: cells_step_def)
  from run_sends [OF W this alive, of "''x''" ?hi] obtain s2 where
    s2: "?at [Act_Spawn ''x'' 3, Act_Queue ''x'' ?hi] [] ((\<lambda>_. Absent)(''x'' := Busy [])) [Ev_Mail ''x'' 3 ?hi] ?ws 1 s2"
    by (auto simp: cells_step_def)
  let ?l = "local_new\<lparr>local_tag := ''x''\<rparr> :: (nat, string) local_sender"
  let ?sent = "[Act_Queue ''y'' ?hi, Act_Return ''x'' 4 True, Act_Logs ''x'' [(0, ''got it'')]]"
  have turn: "worker_turn (w_behaviour demo_world) (Ev_Mail ''x'' 3 ?hi) (local_new\<lparr>local_tx := []\<rparr>) =
      (?l\<lparr>local_tx := ?sent\<rparr>, Looping)"
    by (simp add: demo_behaviour_def worker_mail_def local_defs local_drain_def local_new_def Let_def)
  from run_takes [OF W s2 _ _ turn, of 0] obtain s3 where
    s3: "?at [Act_Spawn ''x'' 3, Act_Queue ''x'' ?hi] [Ev_Mail ''x'' 3 ?hi]
      ((\<lambda>_. Absent)(''x'' := Busy [])) [] (?ws[0 := Sending ?sent ?l Looping]) 1 s3"
    by (auto simp: local_new_def)
  have same: "((\<lambda>_. Absent :: (nat, string) cell)(''x'' := Busy []))(''y'' := Absent) = (\<lambda>_. Absent)(''x'' := Busy [])"
    by (rule ext) simp
  obtain s4 where s4: "?at [Act_Spawn ''x'' 3, Act_Queue ''x'' ?hi, Act_Queue ''y'' ?hi] [Ev_Mail ''x'' 3 ?hi]
      ((\<lambda>_. Absent)(''x'' := Busy [])) [] (?ws[0 := Sending (tl ?sent) ?l Looping]) 1 s4"
    using run_passes [OF W s3, of 0 "hd ?sent" "tl ?sent" ?l Looping] same by (auto simp: cells_step_def)
  obtain s5 where s5: "?at [Act_Spawn ''x'' 3, Act_Queue ''x'' ?hi, Act_Queue ''y'' ?hi, Act_Return ''x'' 4 True]
      [Ev_Mail ''x'' 3 ?hi] ((\<lambda>_. Absent)(''x'' := Idle 4)) []
      (?ws[0 := Sending [Act_Logs ''x'' [(0, ''got it'')]] ?l Looping]) 1 s5"
    using run_passes [OF W s4, of 0 "Act_Return ''x'' 4 True" "[Act_Logs ''x'' [(0, ''got it'')]]" ?l Looping]
    by (auto simp: cells_step_def)
  obtain s6 where s6: "?at [Act_Spawn ''x'' 3, Act_Queue ''x'' ?hi, Act_Queue ''y'' ?hi, Act_Return ''x'' 4 True,
        Act_Logs ''x'' [(0, ''got it'')]]
      [Ev_Mail ''x'' 3 ?hi] ((\<lambda>_. Absent)(''x'' := Idle 4)) [] (?ws[0 := Sending [] ?l Looping]) 1 s6"
    using run_passes [OF W s5, of 0 "Act_Logs ''x'' [(0, ''got it'')]" "[]" ?l Looping]
    by (auto simp: cells_step_def)
  from run_rests [OF W s6, of 0 ?l] show ?thesis unfolding demo_at_def by auto
qed

text \<open>
  C2. Every actor runs sequentially over its mail. Take any interleaving of the threads and of the
  callers of \<open>Run\<close>, with the actions the event loop has taken and the events the workers have
  taken, and a tag whose spawn was accepted once. Then the messages workers have taken for the
  tag, followed by those on their way to a worker, are a prefix of the messages accepted for it
  since the spawn, in their order, and with its mailbox all of them while the tag is active. And
  wherever the actor is (at rest, in an event, in a worker's hands on its way back), there is
  one of it only, in exactly the state that the handler leaves when it is run on the messages
  taken, one after the other, starting from the actor spawned.
\<close>

theorem actor_runs_sequentially:
  assumes "channels_ok W ce ca" "started W ce ca s0" "observed W s0 acts evs s" "rt_spawned s tag = 1"
  shows "\<exists>actor. first_spawn tag acts = Some actor \<and>
    bodies ce ca tag s \<subseteq># {#foldl (after_mail (w_behaviour W) tag) actor (mails tag evs)#} \<and>
    prefix (mails tag evs @ mails tag (ce (rt_events s))) (accepted_mail tag acts) \<and>
    (tag \<in> active (rt_loop s) \<longrightarrow>
      mails tag evs @ mails tag (ce (rt_events s)) @ mailbox tag (rt_loop s) = accepted_mail tag acts)"
proof -
  have "loop_ok (rt_loop s)"
    using sound_law.reachable_inv [OF assms(2) observed_reachable [OF assms(3)]] assms(1)
    by (simp add: sound_def)
  note box = waiting_mailbox [OF this, of tag]
  obtain actor where actor: "first_spawn tag acts = Some actor"
    and l: "life W ce ca tag (accepted_mail tag acts) evs s actor"
    using observed_one_life [OF assms(1-3), of tag] assms(4) by (auto simp: one_life_def)
  then obtain rest where "mails tag evs @ mails tag (ce (rt_events s)) @ rest = accepted_mail tag acts"
    "tag \<in> active (rt_loop s) \<longrightarrow> rest = mailbox tag (rt_loop s)"
    by (auto simp: life_def cell_of_Absent box)
  moreover from this have "prefix (mails tag evs @ mails tag (ce (rt_events s))) (accepted_mail tag acts)"
    by (metis append_assoc prefixI)
  ultimately show ?thesis using actor l unfolding life_def by blast
qed

theorem actor_runs_sequentially_witness:
  "\<exists>acts evs s. observed demo_world demo_start acts evs s \<and> rt_spawned s ''x'' = 1 \<and>
    mails ''x'' evs = [envelope_of ''hi''] \<and> accepted_mail ''x'' acts = [envelope_of ''hi''] \<and>
    bodies (\<lambda>q. q) (\<lambda>q. q) ''x'' s \<subseteq># {#4#}"
proof -
  obtain s where s: "demo_at
    [Act_Spawn ''x'' 3, Act_Queue ''x'' (envelope_of ''hi''), Act_Queue ''y'' (envelope_of ''hi''),
     Act_Return ''x'' 4 True, Act_Logs ''x'' [(0, ''got it'')]]
    [Ev_Mail ''x'' 3 (envelope_of ''hi'')] ((\<lambda>_. Absent)(''x'' := Idle 4)) []
    ((replicate 4 (Waiting local_new))[0 := Waiting (local_new\<lparr>local_tag := ''x''\<rparr>)]) 1 s"
    using demo_observed by blast
  then have o: "observed demo_world demo_start
    [Act_Spawn ''x'' 3, Act_Queue ''x'' (envelope_of ''hi''), Act_Queue ''y'' (envelope_of ''hi''),
     Act_Return ''x'' 4 True, Act_Logs ''x'' [(0, ''got it'')]] [Ev_Mail ''x'' 3 (envelope_of ''hi'')] s"
    "rt_spawned s ''x'' = 1" by (simp_all add: demo_at_def run_at_def)
  from actor_runs_sequentially [OF demo_channels demo_started o] o show ?thesis
    by (auto simp: spawned_actor_def queued_def after_mail_def demo_behaviour_def
        intro!: exI [of _ s] exI [of _ "[Ev_Mail ''x'' 3 (envelope_of ''hi'')]"])
qed

text \<open>
  C3. A quiet system has done all its work. When nothing is in the channels, every worker waits and
  no \<open>on_fail\<close> or \<open>on_stop\<close> panics, an active tag that was accepted once has its actor at rest in
  the scheduler, in the state the handler reaches from the actor spawned by all the messages
  accepted for the tag, in the order the event loop took them: none is lost, repeated or handled
  out of turn, whichever workers ran the actor.
\<close>

theorem quiet_actor_caught_up:
  assumes "channels_ok W ce ca" "steady W" "started W ce ca s0" "rt_workers s0 \<noteq> []"
    and "observed W s0 acts evs s" "rt_phase s = Running"
    and quiet: "ce (rt_events s) = []" "ca (rt_actions s) = []" "\<forall>w \<in> set (rt_workers s). \<exists>l. w = Waiting l"
    and "tag \<in> active (rt_loop s)" "rt_spawned s tag = 1"
  shows "\<exists>actor. first_spawn tag acts = Some actor \<and> mails tag evs = accepted_mail tag acts \<and>
    actors (rt_loop s) tag = Some (foldl (after_mail (w_behaviour W) tag) actor (accepted_mail tag acts))"
proof -
  have reach: "(system_step W)\<^sup>*\<^sup>* s0 s" using observed_reachable [OF assms(5)] .
  have inv: "sound ce ca s" "attended ce ca s"
    using attended_law.reachable_inv [OF conjI [OF assms(3,4)] reach] assms(1,2) by blast+
  obtain actor where actor: "first_spawn tag acts = Some actor"
    and l: "life W ce ca tag (accepted_mail tag acts) evs s actor"
    using observed_one_life [OF assms(1,3,5), of tag] assms(11) by (auto simp: one_life_def)
  have "in_worker tag w = 0" if "w \<in> set (rt_workers s)" for w using that quiet(3) by fastforce
  then have "flying tag (ce (rt_events s)) (rt_workers s) (ca (rt_actions s)) = 0"
    using quiet by (simp add: flying_def)
  moreover have "1 \<le> objects ce ca tag s" using inv(2) assms(6,10) by (simp add: attended_def)
  ultimately obtain a where idle: "cell_of (rt_loop s) tag = Idle a"
    by (auto simp: objects_def in_cell_def split: cell.splits)
  then have "a \<in># bodies ce ca tag s" by (simp add: bodies_def cell_body_def)
  with l have "a = foldl (after_mail (w_behaviour W) tag) actor (mails tag evs)"
    using mset_subset_eqD by (fastforce simp: life_def)
  moreover have "mails tag evs = accepted_mail tag acts" using l idle quiet(1) by (auto simp: life_def)
  moreover have "actors (rt_loop s) tag = Some a"
    using idle assms(10) by (cases "actors (rt_loop s) tag") (auto simp: cell_of_def)
  ultimately show ?thesis using actor by simp
qed

theorem quiet_actor_caught_up_witness:
  "\<exists>acts evs s. observed demo_world demo_start acts evs s \<and>
    mails ''x'' evs = [envelope_of ''hi''] \<and> actors (rt_loop s) ''x'' = Some 4"
proof -
  obtain s where s: "demo_at
    [Act_Spawn ''x'' 3, Act_Queue ''x'' (envelope_of ''hi''), Act_Queue ''y'' (envelope_of ''hi''),
     Act_Return ''x'' 4 True, Act_Logs ''x'' [(0, ''got it'')]]
    [Ev_Mail ''x'' 3 (envelope_of ''hi'')] ((\<lambda>_. Absent)(''x'' := Idle 4)) []
    ((replicate 4 (Waiting local_new))[0 := Waiting (local_new\<lparr>local_tag := ''x''\<rparr>)]) 1 s"
    using demo_observed by blast
  then have o: "observed demo_world demo_start
    [Act_Spawn ''x'' 3, Act_Queue ''x'' (envelope_of ''hi''), Act_Queue ''y'' (envelope_of ''hi''),
     Act_Return ''x'' 4 True, Act_Logs ''x'' [(0, ''got it'')]] [Ev_Mail ''x'' 3 (envelope_of ''hi'')] s"
    and c: "rt_spawned s ''x'' = 1" "rt_phase s = Running" "rt_events s = []" "rt_actions s = []"
      "\<forall>w \<in> set (rt_workers s). \<exists>l. w = Waiting l" "cell_of (rt_loop s) ''x'' \<noteq> Absent"
    by (simp_all add: demo_at_def run_at_def numeral_eq_Suc)
  from c(6) have "''x'' \<in> active (rt_loop s)" by (simp add: cell_of_Absent)
  from quiet_actor_caught_up [OF demo_channels demo_steady demo_started demo_workers o c(2-5) this c(1)] o
  show ?thesis
    by (auto simp: spawned_actor_def queued_def after_mail_def demo_behaviour_def
        intro!: exI [of _ s] exI [of _ "[Ev_Mail ''x'' 3 (envelope_of ''hi'')]"])
qed

section \<open>The order of messages between two actors\<close>

text \<open>
  C4. Messages between two actors keep their order. While the event loop runs, take an actor
  whose tag was accepted once, and everything its turns sent so far (the calls of each handler,
  then those of \<open>on_fail\<close>), one turn after the other, whichever workers ran them. All of it has
  reached the event loop, or is in its channel, or is still to be sent by one worker, in this order:
  it is a subsequence of the actions taken, those in the channel and those that worker has
  left. So the messages for any one destination are taken by the event loop in the order they were
  sent in, none missing and none twice.
\<close>

theorem messages_keep_order:
  assumes "channels_ok W ce ca" "started W ce ca s0" "observed W s0 acts evs s"
    and "rt_phase s = Running" "rt_spawned s tag = 1"
  shows "\<exists>actor pending. first_spawn tag acts = Some actor \<and>
    (pending = [] \<or> (\<exists>i more l status. i < length (rt_workers s) \<and>
       rt_workers s ! i = Sending (pending @ more) l status)) \<and>
    subseq (turns_sent (w_behaviour W) tag actor (mails tag evs)) (acts @ ca (rt_actions s) @ pending) \<and>
    (\<forall>other. subseq (mail_for other (turns_sent (w_behaviour W) tag actor (mails tag evs)))
       (mail_for other acts @ mail_for other (ca (rt_actions s)) @ mail_for other pending))"
proof -
  obtain actor where actor: "first_spawn tag acts = Some actor"
    using observed_one_life [OF assms(1-3), of tag] assms(5) by (auto simp: one_life_def)
  let ?sent = "turns_sent (w_behaviour W) tag actor (mails tag evs)"
  have "in_order ce ca tag acts s ?sent"
    using observed_in_order [OF assms(1-4), of tag actor] assms(5) actor by simp
  then obtain pending where p: "subseq ?sent (acts @ ca (rt_actions s) @ pending)"
    "pending = [] \<or> (\<exists>i more l status. i < length (rt_workers s) \<and>
       rt_workers s ! i = Sending (pending @ more) l status)"
    unfolding in_order_def reached_def sent_by_def by (metis append_Nil2)
  have "subseq (mail_for other ?sent) (mail_for other acts @ mail_for other (ca (rt_actions s)) @ mail_for other pending)"
    for other using subseq_mail_for [OF p(1), of other] by simp
  with p actor show ?thesis by metis
qed

theorem messages_keep_order_witness:
  "\<exists>acts evs s. observed demo_world demo_start acts evs s \<and>
    turns_sent demo_behaviour ''x'' 3 (mails ''x'' evs) = [Act_Queue ''y'' (envelope_of ''hi'')] \<and>
    subseq [Act_Queue ''y'' (envelope_of ''hi'')] acts"
proof -
  obtain s where s: "demo_at
    [Act_Spawn ''x'' 3, Act_Queue ''x'' (envelope_of ''hi''), Act_Queue ''y'' (envelope_of ''hi''),
     Act_Return ''x'' 4 True, Act_Logs ''x'' [(0, ''got it'')]]
    [Ev_Mail ''x'' 3 (envelope_of ''hi'')] ((\<lambda>_. Absent)(''x'' := Idle 4)) []
    ((replicate 4 (Waiting local_new))[0 := Waiting (local_new\<lparr>local_tag := ''x''\<rparr>)]) 1 s"
    using demo_observed by blast
  let ?acts = "[Act_Spawn ''x'' 3, Act_Queue ''x'' (envelope_of ''hi''), Act_Queue ''y'' (envelope_of ''hi''),
     Act_Return ''x'' 4 True, Act_Logs ''x'' [(0, ''got it'')]] :: (nat, string) action list"
  let ?evs = "[Ev_Mail ''x'' 3 (envelope_of ''hi'')] :: (nat, string) event list"
  from s have o: "observed demo_world demo_start ?acts ?evs s"
    and c: "rt_spawned s ''x'' = 1" "rt_phase s = Running" "rt_actions s = []"
      "\<forall>i < length (rt_workers s). \<exists>l. rt_workers s ! i = Waiting l"
    by (simp_all add: demo_at_def run_at_def All_less_Suc numeral_eq_Suc)
  have sent: "turns_sent demo_behaviour ''x'' 3 (mails ''x'' ?evs) = [Act_Queue ''y'' (envelope_of ''hi'')]"
    by (simp add: turn_sent_def demo_behaviour_def)
  have first: "first_spawn ''x'' ?acts = Some 3" by (simp add: spawned_actor_def)
  obtain actor pending where p: "first_spawn ''x'' ?acts = Some actor"
    "pending = [] \<or> (\<exists>i more l status. i < length (rt_workers s) \<and>
       rt_workers s ! i = Sending (pending @ more) l status)"
    "subseq (turns_sent demo_behaviour ''x'' actor (mails ''x'' ?evs)) (?acts @ rt_actions s @ pending)"
    using messages_keep_order [OF demo_channels demo_started o c(2,1)] unfolding demo_world_simps by metis
  have "pending = []" using p(2) c(4) by auto
  moreover have "actor = 3" using p(1) first by simp
  ultimately have "subseq [Act_Queue ''y'' (envelope_of ''hi'')] ?acts" using p(3) c(3) sent by simp
  with o sent show ?thesis by blast
qed

end
