(* ===== verification/Demos.thy ===== *)
theory Demos
  imports Net Runtime
begin

text \<open>
  The small examples of the repository: \<open>examples/hello.rs\<close>, \<open>fail.rs\<close>, \<open>stop.rs\<close>, \<open>ping.rs\<close> and
  \<open>remote.rs\<close>. Each actor is a handler; where it sends on a channel to \<open>main\<close>, the channel
  is the parameter \<open>tx_send\<close>, which tells whether the send succeeded and the outside after it.
  What \<open>main\<close> does to the runtime is a list of calls on its \<open>Run\<close>, folded over the action channel.
  A message of the type an actor looks for is \<open>Opaque\<close>; anything else is ignored.

  To run such an actor in the runtime model, \<open>with_outbox\<close> keeps with each actor what it has
  sent on the channel, whose receiver lives.
\<close>

type_synonym usize = "64 word"

definition show_usize :: "usize \<Rightarrow> string" where
  "show_usize n = show_nat (unat n)"

lemma unat_usize: "n < 2 ^ 64 \<Longrightarrow> unat (word_of_nat n :: usize) = n"
  by (simp add: unat_of_nat)

section \<open>Actors that send to main\<close>

definition outbox_send :: "'tx \<Rightarrow> 'v \<Rightarrow> 'v list \<Rightarrow> bool \<times> 'v list" where
  "outbox_send tx v out = (True, out @ [v])"

definition with_outbox ::
  "('m envelope \<Rightarrow> 'a \<Rightarrow> 'v list \<Rightarrow> ('a, 'm) call list \<times> 'a \<times> 'v list \<times> bool) \<Rightarrow>
   'm envelope \<Rightarrow> 'a \<times> 'v list \<Rightarrow> ('a \<times> 'v list, 'm) call list \<times> ('a \<times> 'v list) \<times> bool"
where
  "with_outbox handler e a =
     (case handler e (fst a) (snd a) of
        (calls, a', out, ok) \<Rightarrow> (map (map_call (\<lambda>b. (b, []))) calls, (a', out), ok))"

text \<open>A handler over a list of messages, until one fails.\<close>

fun actor_run ::
  "('m envelope \<Rightarrow> 's \<Rightarrow> ('a, 'm) call list \<times> 's \<times> bool) \<Rightarrow> 'm envelope list \<Rightarrow> 's \<Rightarrow>
   ('a, 'm) call list \<times> 's \<times> bool"
where
  "actor_run handler [] s = ([], s, True)"
| "actor_run handler (e # es) s =
     (case handler e s of (calls, s', ok) \<Rightarrow>
        if ok then (case actor_run handler es s' of (calls', s'', ok') \<Rightarrow> (calls @ calls', s'', ok'))
        else (calls, s', False))"

text \<open>
  \<open>System::new\<close> and \<open>System::run\<close> at the beginning of every \<open>main\<close> are the definitions \<open>..._start\<close>; \<open>cpus\<close> is
  what \<open>num_cpus::get()\<close> tells.
\<close>

section \<open>hello\<close>

record 'tx hello_state =
  hello_tx :: 'tx

definition hello_state_new :: "'tx \<Rightarrow> 'tx hello_state" where
  "hello_state_new tx = \<lparr>hello_tx = tx\<rparr>"

definition hello_receive ::
  "('tx \<Rightarrow> usize \<Rightarrow> 'io \<Rightarrow> bool \<times> 'io) \<Rightarrow> sys_time \<Rightarrow> tag \<Rightarrow> usize message envelope \<Rightarrow> 'tx hello_state \<Rightarrow>
   'io \<Rightarrow> ('tx hello_state, usize message) call list \<times> 'tx hello_state \<times> 'io \<times> bool"
where
  "hello_receive tx_send now me envelope s io =
     (case env_message envelope of
        Opaque n \<Rightarrow>
          let log = Log now (''received: Message('' @ show_usize n @ '')'')
          in if me = ''copy''
             then (case tx_send (hello_tx s) n io of
                     (True, io') \<Rightarrow> ([log, Stop me], s, io', True)
                   | (False, io') \<Rightarrow> ([log], s, io', False))
             else ([log, Spawn ''copy'' (hello_state_new (hello_tx s)),
                    Send ''copy'' (envelope_of (Opaque n)), Stop me], s, io, True)
      | _ \<Rightarrow> ([], s, io, True))"

definition hello_start ::
  "('a, 'm, 'qe, 'qa) world \<Rightarrow> ('a, 'm) remote_actors \<Rightarrow> instant \<Rightarrow> 'qe \<Rightarrow> 'qa \<Rightarrow>
   error option \<times> ('a, 'm, 'qe, 'qa) runtime_state option"
where
  "hello_start W R now events actions =
     system_run 6 (W\<lparr>w_name := ''basic'', w_host := ''localhost''\<rparr>) R default_config now events actions"

definition hello_main :: "(('tx hello_state, usize message) action, 'qa) chan \<Rightarrow> 'tx \<Rightarrow> 'qa \<Rightarrow> 'qa" where
  "hello_main C tx q =
     (let q1 = run_spawn C ''state'' (hello_state_new tx) q;
          q2 = run_send C ''state'' (envelope_of (Opaque 42)) q1
      in run_shutdown C q2)"

section \<open>fail and stop\<close>

datatype 'tx maybe_message = Maybe_Message "usize option" 'tx

text \<open>\<open>show_message\<close> is the derived \<open>Debug\<close> text, which shows the channel.\<close>

definition maybe_receive ::
  "('tx maybe_message \<Rightarrow> string) \<Rightarrow> ('tx \<Rightarrow> usize \<Rightarrow> 'io \<Rightarrow> bool \<times> 'io) \<Rightarrow> sys_time \<Rightarrow>
   'tx maybe_message message envelope \<Rightarrow> unit \<Rightarrow> 'io \<Rightarrow>
   (unit, 'tx maybe_message message) call list \<times> unit \<times> 'io \<times> bool"
where
  "maybe_receive show_message tx_send now envelope s io =
     (case env_message envelope of
        Opaque (Maybe_Message v tx) \<Rightarrow>
          let log = Log now (''received: '' @ show_message (Maybe_Message v tx))
          in (case v of
                None \<Rightarrow> ([log], s, io, False)
              | Some x \<Rightarrow> let (sent, io') = tx_send tx x io in ([log], s, io', sent))
      | _ \<Rightarrow> ([], s, io, True))"

definition maybe_on_fail :: "sys_time \<Rightarrow> tag \<Rightarrow> 'a \<Rightarrow> ('a, 'm) call list \<times> bool" where
  "maybe_on_fail now me s = ([Log now ''failure detected!''], True)"

definition maybe_on_stop :: "sys_time \<Rightarrow> tag \<Rightarrow> 'a \<Rightarrow> ('a, 'm) call list \<times> bool" where
  "maybe_on_stop now me s = ([Log now ''shutting down''], True)"

definition fail_config :: config where
  "fail_config = new_config (default_scheduler_config\<lparr>eager_shutdown_enabled := False\<rparr>) default_remote_config"

definition fail_start ::
  "('a, 'm, 'qe, 'qa) world \<Rightarrow> ('a, 'm) remote_actors \<Rightarrow> instant \<Rightarrow> 'qe \<Rightarrow> 'qa \<Rightarrow>
   error option \<times> ('a, 'm, 'qe, 'qa) runtime_state option"
where
  "fail_start W R now events actions =
     system_run 6 (W\<lparr>w_name := ''fail-example'', w_host := ''localhost''\<rparr>) R fail_config now events actions"

definition fail_main :: "((unit, 'tx maybe_message message) action, 'qa) chan \<Rightarrow> 'tx \<Rightarrow> 'qa \<Rightarrow> 'qa" where
  "fail_main C tx q =
     (let q1 = run_spawn_default C () ''x'' q;
          q2 = run_send C ''x'' (envelope_of (Opaque (Maybe_Message (Some 42) tx))) q1;
          q3 = run_send C ''x'' (envelope_of (Opaque (Maybe_Message None tx))) q2;
          q4 = run_send C ''x'' (envelope_of (Opaque (Maybe_Message (Some 100500) tx))) q3
      in run_shutdown C q4)"

text \<open>\<open>stop.rs\<close> has a copy of the message and of the actor.\<close>

datatype 'tx stop_message = Stop_Message "usize option" 'tx

definition stop_receive ::
  "('tx stop_message \<Rightarrow> string) \<Rightarrow> ('tx \<Rightarrow> usize \<Rightarrow> 'io \<Rightarrow> bool \<times> 'io) \<Rightarrow> sys_time \<Rightarrow>
   'tx stop_message message envelope \<Rightarrow> unit \<Rightarrow> 'io \<Rightarrow>
   (unit, 'tx stop_message message) call list \<times> unit \<times> 'io \<times> bool"
where
  "stop_receive show_message tx_send now envelope s io =
     (case env_message envelope of
        Opaque (Stop_Message v tx) \<Rightarrow>
          let log = Log now (''received: '' @ show_message (Stop_Message v tx))
          in (case v of
                None \<Rightarrow> ([log], s, io, False)
              | Some x \<Rightarrow> let (sent, io') = tx_send tx x io in ([log], s, io', sent))
      | _ \<Rightarrow> ([], s, io, True))"

definition stop_on_fail :: "sys_time \<Rightarrow> tag \<Rightarrow> 'a \<Rightarrow> ('a, 'm) call list \<times> bool" where
  "stop_on_fail now me s = ([Log now ''failure detected!''], True)"

definition stop_on_stop :: "sys_time \<Rightarrow> tag \<Rightarrow> 'a \<Rightarrow> ('a, 'm) call list \<times> bool" where
  "stop_on_stop now me s = ([Log now ''shutting down''], True)"

definition stop_config :: config where
  "stop_config = new_config (default_scheduler_config\<lparr>eager_shutdown_enabled := False\<rparr>) default_remote_config"

definition stop_start ::
  "('a, 'm, 'qe, 'qa) world \<Rightarrow> ('a, 'm) remote_actors \<Rightarrow> instant \<Rightarrow> 'qe \<Rightarrow> 'qa \<Rightarrow>
   error option \<times> ('a, 'm, 'qe, 'qa) runtime_state option"
where
  "stop_start W R now events actions =
     system_run 6 (W\<lparr>w_name := ''stop-example'', w_host := ''localhost''\<rparr>) R stop_config now events actions"

definition stop_main :: "((unit, 'tx stop_message message) action, 'qa) chan \<Rightarrow> 'tx \<Rightarrow> 'qa \<Rightarrow> 'qa" where
  "stop_main C tx q =
     (let q1 = run_spawn_default C () ''x'' q;
          q2 = run_send C ''x'' (envelope_of (Opaque (Stop_Message (Some 42) tx))) q1;
          q3 = run_stop C ''x'' q2;
          q4 = run_send C ''x'' (envelope_of (Opaque (Stop_Message (Some 100500) tx))) q3
      in run_shutdown C q4)"

section \<open>ping and remote\<close>

definition PING :: "byte list" where
  "PING = [112, 105, 110, 103]"

definition PONG :: "byte list" where
  "PONG = [112, 111, 110, 103]"

text \<open>
  The two actors differ in how they tell: \<open>ping.rs\<close> prints a line, \<open>remote.rs\<close> logs one.
\<close>

definition answer :: "tag \<Rightarrow> byte list \<Rightarrow> 'x message envelope" where
  "answer me vec =
     (if vec = PING then with_from (envelope_of (Bytes PONG)) me else with_from (envelope_of (Bytes PING)) me)"

definition ping_receive ::
  "instant \<Rightarrow> tag \<Rightarrow> 'x message envelope \<Rightarrow> unit \<Rightarrow> (unit, 'x message) call list \<times> unit \<times> bool"
where
  "ping_receive now me envelope s =
     (case env_message envelope of
        Bytes vec \<Rightarrow>
          (case from_utf8 vec of
             None \<Rightarrow> ([], s, False)
           | Some msg \<Rightarrow> ([Delay now (env_from envelope) (answer me vec) 1000000000], s, True))
      | _ \<Rightarrow> ([], s, True))"

definition remote_receive ::
  "sys_time \<Rightarrow> instant \<Rightarrow> tag \<Rightarrow> 'x message envelope \<Rightarrow> unit \<Rightarrow> (unit, 'x message) call list \<times> unit \<times> bool"
where
  "remote_receive wall now me envelope s =
     (case env_message envelope of
        Bytes vec \<Rightarrow>
          (case from_utf8 vec of
             None \<Rightarrow> ([], s, False)
           | Some msg \<Rightarrow>
               ([Log wall (''received '' @ [CHR 0x27] @ msg @ [CHR 0x27]),
                 Delay now (env_from envelope) (answer me vec) 1000000000], s, True))
      | _ \<Rightarrow> ([], s, True))"

definition ping_config :: "nat \<Rightarrow> string \<Rightarrow> config" where
  "ping_config cores listen =
     new_config (with_total_threads (cores div 2))
       (listening_at listen default_server_config default_client_config)"

definition ping_start ::
  "nat \<Rightarrow> string \<Rightarrow> ('a, 'm, 'qe, 'qa) world \<Rightarrow> ('a, 'm) remote_actors \<Rightarrow> instant \<Rightarrow> 'qe \<Rightarrow> 'qa \<Rightarrow>
   error option \<times> ('a, 'm, 'qe, 'qa) runtime_state option"
where
  "ping_start cpus listen W R now events actions =
     (let cores = max 4 cpus
      in system_run (cores + 2 + 1) (W\<lparr>w_name := ''one'', w_host := ''localhost''\<rparr>) R (ping_config cores listen) now events actions)"

definition ping_main :: "((unit, 'x message) action, 'qa) chan \<Rightarrow> string option \<Rightarrow> 'qa \<Rightarrow> 'qa" where
  "ping_main C peer q =
     (let q1 = run_spawn_default C () ''ping'' q
      in case peer of
           None \<Rightarrow> q1
         | Some addr \<Rightarrow> run_send C addr (with_from (envelope_of (Bytes PING)) ''ping'') q1)"

text \<open>The first and the second system of \<open>remote.rs\<close>, which share one pool.\<close>

definition remote_start ::
  "nat \<Rightarrow> ('a, 'm, 'qe, 'qa) world \<Rightarrow> ('a, 'm) remote_actors \<Rightarrow> instant \<Rightarrow> 'qe \<Rightarrow> 'qa \<Rightarrow>
   error option \<times> ('a, 'm, 'qe, 'qa) runtime_state option"
where
  "remote_start cpus W R now events actions =
     (let cores = max 4 cpus
      in system_run (cores + 2 + 1) (W\<lparr>w_name := ''one'', w_host := ''localhost''\<rparr>) R (ping_config cores ''0.0.0.0:10001'') now events actions)"

definition remote_start_two ::
  "nat \<Rightarrow> ('a, 'm, 'qe, 'qa) world \<Rightarrow> ('a, 'm) remote_actors \<Rightarrow> instant \<Rightarrow> 'qe \<Rightarrow> 'qa \<Rightarrow>
   error option \<times> ('a, 'm, 'qe, 'qa) runtime_state option"
where
  "remote_start_two cpus W R now events actions =
     (let cores = max 4 cpus
      in system_run (cores + 2 + 1) (W\<lparr>w_name := ''two'', w_host := ''localhost''\<rparr>) R (ping_config cores ''0.0.0.0:10002'') now events actions)"

text \<open>The two systems of \<open>remote.rs\<close>: the actions of the first and of the second.\<close>

definition remote_main ::
  "((unit, 'x message) action, 'qa) chan \<Rightarrow> 'qa \<Rightarrow> 'qa \<Rightarrow> 'qa \<times> 'qa"
where
  "remote_main C q1 q2 =
     (let one = run_spawn_default C () ''ping'' q1;
          two = run_spawn_default C () ''pong'' q2
      in (run_send C ''pong@127.0.0.1:10002'' (with_from (envelope_of (Bytes PONG)) ''ping'') one, two))"

end
