(* ===== verification/Full.thy ===== *)
theory Full
  imports Demos
begin

text \<open>
  The example \<open>examples/full.rs\<close>: four kinds of actors that keep the runtime busy. \<open>Round\<close> passes
  tokens around a ring of tags, \<open>Root\<close> fans out to the ring and waits for the answers,
  \<open>Periodic\<close> measures the timer, \<open>PingPong\<close> plays with itself. Numbers are \<open>usize\<close> and wrap as in
  the release build; a remainder by zero panics. The order in which a \<open>HashMap\<close> gives its keys does
  not matter, since they are sorted.
\<close>

section \<open>Messages and actors\<close>

datatype full_message =
    Hit usize
  | Acc string usize usize
  | Trigger usize
  | Fan_Out usize
  | Fan_In usize
  | Tick instant
  | Text string

record round =
  round_size :: usize

definition round_new :: "usize \<Rightarrow> round" where
  "round_new n = \<lparr>round_size = n\<rparr>"

record root =
  root_size :: usize
  root_count :: usize
  root_epoch :: usize
  root_seen :: "usize set"

definition default_root :: root where
  "default_root = \<lparr>root_size = 0, root_count = 0, root_epoch = 0, root_seen = {}\<rparr>"

record periodic =
  per_at :: instant
  per_timings :: "usize \<rightharpoonup> usize"
  per_counter :: usize

definition default_periodic :: "instant \<Rightarrow> periodic" where
  "default_periodic now = \<lparr>per_at = now, per_timings = Map.empty, per_counter = 0\<rparr>"

record ping_pong =
  pp_count :: usize

definition default_ping_pong :: ping_pong where
  "default_ping_pong = \<lparr>pp_count = 0\<rparr>"

datatype full_actor = Round round | Root root | Periodic periodic | Ping_Pong ping_pong

type_synonym full_call = "(full_actor, full_message message) call"

section \<open>Root\<close>

definition root_in ::
  "sys_time \<Rightarrow> tag \<Rightarrow> usize \<Rightarrow> root \<Rightarrow> full_call list \<times> root"
where
  "root_in wall me k r =
     (let r1 = r\<lparr>root_seen := insert k (root_seen r), root_count := root_count r + 1\<rparr>
      in if root_count r1 = root_size r1
         then let r2 = r1\<lparr>root_seen := {}, root_count := 0\<rparr>
              in ([Log wall (''root completed the fanout of size: '' @ show_usize (root_size r2)
                     @ '' (epoch: '' @ show_usize (root_epoch r2) @ '')''),
                   Send me (with_from (envelope_of (Opaque (Trigger (root_size r2)))) me)],
                  r2\<lparr>root_epoch := root_epoch r2 + 1\<rparr>)
         else ([], r1))"

definition root_trigger :: "tag \<Rightarrow> usize \<Rightarrow> root \<Rightarrow> full_call list \<times> root" where
  "root_trigger me n r =
     (let r1 = r\<lparr>root_size := n\<rparr>
      in (map (\<lambda>k. Send (show_nat k) (with_from (envelope_of (Opaque (Fan_Out (word_of_nat k)))) me))
            [0..<unat (root_size r1)], r1))"

definition root_receive ::
  "sys_time \<Rightarrow> tag \<Rightarrow> full_message message envelope \<Rightarrow> root \<Rightarrow> full_call list \<times> root \<times> bool"
where
  "root_receive wall me envelope r =
     (case env_message envelope of
        Opaque (Fan_In k) \<Rightarrow> let (calls, r') = root_in wall me k r in (calls, r', True)
      | Opaque (Trigger n) \<Rightarrow> let (calls, r') = root_trigger me n r in (calls, r', True)
      | _ \<Rightarrow> ([], r, True))"

section \<open>Round\<close>

definition next_tag :: "usize \<Rightarrow> usize \<Rightarrow> string outcome" where
  "next_tag k n = (if n = 0 then Panic else Ret (show_usize ((k + 1) mod n)))"

text \<open>
  A message that is none of \<open>Hit\<close>, \<open>Acc\<close> and \<open>Fan::Out\<close> is logged with its \<open>type_id\<close>, whose text
  \<open>type_text\<close> is the compiler's.
\<close>

definition round_receive ::
  "sys_time \<Rightarrow> (full_message message \<Rightarrow> string) \<Rightarrow> tag \<Rightarrow> full_message message envelope \<Rightarrow> round \<Rightarrow>
   full_call list \<times> round \<times> bool"
where
  "round_receive wall type_text me envelope r =
     (case env_message envelope of
        Opaque (Hit h) \<Rightarrow>
          (case next_tag h (round_size r) of
             Panic \<Rightarrow> ([], r, False)
           | Ret tag \<Rightarrow> ([Send tag (with_from (envelope_of (Opaque (Hit (h + 1)))) me)], r, True))
      | Opaque (Acc name zero hits) \<Rightarrow>
          (case next_tag (zero + hits) (round_size r) of
             Panic \<Rightarrow> ([], r, False)
           | Ret tag \<Rightarrow> ([Send tag (with_from (envelope_of (Opaque (Acc name zero (hits + 1)))) me)], r, True))
      | Opaque (Fan_Out k) \<Rightarrow>
          ([Send (env_from envelope) (with_from (envelope_of (Opaque (Fan_In k))) me)], r, True)
      | msg \<Rightarrow> ([Log wall (''unexpected message: '' @ type_text msg)], r, True))"

section \<open>Periodic\<close>

definition per_report :: "periodic \<Rightarrow> (usize \<times> usize \<times> usize \<times> usize) outcome" where
  "per_report p =
     (let ds = sorted_list_of_set (dom (per_timings p))
      in if ds = [] then Panic
         else Ret (ds ! 0, ds ! (length ds - 1), ds ! ((length ds - 1) div 2), ds ! ((length ds - 1) * 99 div 100)))"

definition report_text :: "usize \<times> usize \<times> usize \<times> usize \<Rightarrow> string" where
  "report_text r =
     (case r of (lo, hi, p50, p99) \<Rightarrow>
        ''min='' @ show_usize lo @ '' p50='' @ show_usize p50 @ '' p99='' @ show_usize p99
        @ '' max='' @ show_usize hi)"

definition DELAY :: duration where
  "DELAY = 10 * 1000000"

text \<open>
  The readings of the clock: \<open>now\<close> when the message is taken, \<open>now'\<close> for the next tick, \<open>now''\<close> by
  \<open>sender.delay\<close>. \<open>duration_since\<close> of a later instant is zero.
\<close>

definition periodic_receive ::
  "sys_time \<Rightarrow> instant \<Rightarrow> instant \<Rightarrow> instant \<Rightarrow> tag \<Rightarrow> full_message message envelope \<Rightarrow> periodic \<Rightarrow>
   full_call list \<times> periodic \<times> bool"
where
  "periodic_receive wall now now' now'' me envelope p =
     (case env_message envelope of
        Opaque (Tick at) \<Rightarrow>
          let d = word_of_nat ((now - at) div 1000000);
              p1 = p\<lparr>per_at := now,
                     per_timings := (per_timings p)(d \<mapsto> (case per_timings p d of None \<Rightarrow> 1 | Some n \<Rightarrow> n + 1)),
                     per_counter := per_counter p + 1\<rparr>;
              tick = Delay now'' me (with_from (envelope_of (Opaque (Tick now'))) me) DELAY
          in if per_counter p1 mod 1000 = 0
             then (case per_report p1 of
                     Panic \<Rightarrow> ([], p1, False)
                   | Ret r \<Rightarrow> ([Log wall (report_text r), tick], p1\<lparr>per_timings := Map.empty\<rparr>, True))
             else ([tick], p1, True)
      | _ \<Rightarrow> ([], p, True))"

section \<open>PingPong\<close>

definition ping_pong_receive ::
  "sys_time \<Rightarrow> tag \<Rightarrow> full_message message envelope \<Rightarrow> ping_pong \<Rightarrow> full_call list \<times> ping_pong \<times> bool"
where
  "ping_pong_receive wall me envelope p =
     (case env_message envelope of
        Opaque (Text s) \<Rightarrow>
          let log = (if pp_count p mod 1000 = 0
                     then [Log wall (''Actor '' @ [CHR 0x27] @ me @ [CHR 0x27] @ '' (count='' @ show_usize (pp_count p)
                            @ '') received message '' @ [CHR 0x27] @ s @ [CHR 0x27])]
                     else []);
              reply = (if s = ''ping''
                       then [Send (env_from envelope) (with_from (envelope_of (Opaque (Text ''pong''))) me)]
                       else if s = ''pong''
                       then [Send (env_from envelope) (with_from (envelope_of (Opaque (Text ''ping''))) me)]
                       else [])
          in (log @ reply, p\<lparr>pp_count := pp_count p + 1\<rparr>, True)
      | _ \<Rightarrow> ([], p, True))"

section \<open>The actors together\<close>

text \<open>What the handlers read from the environment.\<close>

record full_env =
  fe_wall :: sys_time
  fe_type_text :: "full_message message \<Rightarrow> string"
  fe_now :: instant
  fe_tick :: instant
  fe_delay :: instant

primrec full_receive ::
  "full_env \<Rightarrow> tag \<Rightarrow> full_message message envelope \<Rightarrow> full_actor \<Rightarrow> full_call list \<times> full_actor \<times> bool"
where
  "full_receive E me e (Round r) =
     (case round_receive (fe_wall E) (fe_type_text E) me e r of (calls, r', ok) \<Rightarrow> (calls, Round r', ok))"
| "full_receive E me e (Root r) =
     (case root_receive (fe_wall E) me e r of (calls, r', ok) \<Rightarrow> (calls, Root r', ok))"
| "full_receive E me e (Periodic p) =
     (case periodic_receive (fe_wall E) (fe_now E) (fe_tick E) (fe_delay E) me e p of
        (calls, p', ok) \<Rightarrow> (calls, Periodic p', ok))"
| "full_receive E me e (Ping_Pong p) =
     (case ping_pong_receive (fe_wall E) me e p of (calls, p', ok) \<Rightarrow> (calls, Ping_Pong p', ok))"

definition full_behaviour :: "full_env \<Rightarrow> (full_actor, full_message message) behaviour" where
  "full_behaviour E =
     \<lparr>receive = full_receive E, on_fail = default_on_fail, on_stop = default_on_stop\<rparr>"

section \<open>main\<close>

definition FULL_SIZE :: nat where
  "FULL_SIZE = 100000"

definition full_config :: "nat \<Rightarrow> config" where
  "full_config cores =
     new_config ((with_total_threads cores)\<lparr>metric_reporting_enabled := True\<rparr>) default_remote_config"

definition full_start ::
  "nat \<Rightarrow> ('a, 'm, 'qe, 'qa) world \<Rightarrow> ('a, 'm) remote_actors \<Rightarrow> instant \<Rightarrow> 'qe \<Rightarrow> 'qa \<Rightarrow>
   error option \<times> ('a, 'm, 'qe, 'qa) runtime_state option"
where
  "full_start cpus W R now events actions =
     (let cores = min 4 cpus
      in system_run (cores + 2) (W\<lparr>w_name := ''full'', w_host := ''localhost''\<rparr>) R (full_config cores) now events actions)"

text \<open>\<open>now\<close> is the creation of the timer actor, \<open>tick\<close> of its first message, \<open>later\<close> what \<open>delay\<close> reads.\<close>

definition full_main ::
  "((full_actor, full_message message) action, 'qa) chan \<Rightarrow> instant \<Rightarrow> instant \<Rightarrow> instant \<Rightarrow> 'qa \<Rightarrow> 'qa"
where
  "full_main C now tick later q =
     (let q1 = fold (\<lambda>k. run_spawn C (show_nat k) (Round (round_new (word_of_nat FULL_SIZE)))) [0..<FULL_SIZE] q;
          q2 = run_send C ''0'' (envelope_of (Opaque (Hit 0))) q1;
          q3 = fold (\<lambda>k. run_send C (show_nat k)
                 (with_from (envelope_of (Opaque (Acc (show_nat k) (word_of_nat k) 0))) (show_nat k))) [0..<1000] q2;
          q4 = run_spawn_default C (Root default_root) ''root'' q3;
          q5 = run_send C ''root'' (with_from (envelope_of (Opaque (Trigger (word_of_nat FULL_SIZE)))) ''root'') q4;
          q6 = run_spawn_default C (Periodic (default_periodic now)) ''timer'' q5;
          q7 = run_delay C later ''timer'' (with_from (envelope_of (Opaque (Tick tick))) ''timer'') (10 * 1000000000) q6;
          q8 = run_spawn_default C (Ping_Pong default_ping_pong) ''ping'' q7;
          q9 = run_spawn_default C (Ping_Pong default_ping_pong) ''pong'' q8
      in run_send C ''ping'' (with_from (envelope_of (Opaque (Text ''ping''))) ''pong'') q9)"

end
