(* ===== verification/Typing.thy ===== *)
theory Typing
  imports Runtime_Inv Delivery
begin

text \<open>
  Types for actors. A message is a \<open>Box<dyn Any>\<close> and an actor a \<open>Box<dyn AnyActor>\<close>, so nothing
  in the Rust types says which messages an actor is sent or which states it can be in. The locale
  \<open>typed_actors\<close> is such a discipline for a set of actors: \<open>good tag e\<close> for the messages a tag may
  be sent, \<open>fine tag a\<close> for the states of its actor, kept by the handlers. The runtime keeps it:
  whatever the interleaving, every message and every actor anywhere in the system (mailboxes,
  timers, channels, workers) obeys it, if what the callers of \<open>Run\<close> send does.
\<close>

section \<open>The discipline\<close>

definition typed_action ::
  "(tag \<Rightarrow> 'm envelope \<Rightarrow> bool) \<Rightarrow> (tag \<Rightarrow> 'a \<Rightarrow> bool) \<Rightarrow> ('a, 'm) action \<Rightarrow> bool"
where
  "typed_action good fine act =
     (case act of
        Act_Return tag actor ok \<Rightarrow> fine tag actor
      | Act_Spawn tag actor \<Rightarrow> fine tag actor
      | Act_Queue tag e \<Rightarrow> good tag e
      | Act_Delay d \<Rightarrow> good (entry_tag d) (entry_envelope d)
      | _ \<Rightarrow> True)"

primrec typed_event ::
  "(tag \<Rightarrow> 'm envelope \<Rightarrow> bool) \<Rightarrow> (tag \<Rightarrow> 'a \<Rightarrow> bool) \<Rightarrow> ('a, 'm) event \<Rightarrow> bool"
where
  "typed_event good fine (Ev_Mail tag actor e) = (fine tag actor \<and> good tag e)"
| "typed_event good fine (Ev_Stop tag actor) = fine tag actor"
| "typed_event good fine Ev_Shutdown = True"

definition typed_calls ::
  "(tag \<Rightarrow> 'm envelope \<Rightarrow> bool) \<Rightarrow> (tag \<Rightarrow> 'a \<Rightarrow> bool) \<Rightarrow> ('a, 'm) call list \<Rightarrow> bool"
where
  "typed_calls good fine calls = list_all (typed_action good fine) (concat (map call_actions calls))"

locale typed_actors =
  fixes B :: "('a, 'm) behaviour" and good :: "tag \<Rightarrow> 'm envelope \<Rightarrow> bool" and fine :: "tag \<Rightarrow> 'a \<Rightarrow> bool"
  assumes receive_typed: "fine tag a \<Longrightarrow> good tag e \<Longrightarrow> receive B tag e a = (calls, a', ok) \<Longrightarrow>
      fine tag a' \<and> typed_calls good fine calls"
    and on_fail_typed: "fine tag a \<Longrightarrow> on_fail B tag a = (calls, ok) \<Longrightarrow> typed_calls good fine calls"
    and on_stop_typed: "fine tag a \<Longrightarrow> on_stop B tag a = (calls, ok) \<Longrightarrow> typed_calls good fine calls"

primrec typed_cell ::
  "(tag \<Rightarrow> 'm envelope \<Rightarrow> bool) \<Rightarrow> (tag \<Rightarrow> 'a \<Rightarrow> bool) \<Rightarrow> tag \<Rightarrow> ('a, 'm) cell \<Rightarrow> bool"
where
  "typed_cell good fine tag Absent = True"
| "typed_cell good fine tag (Idle a) = fine tag a"
| "typed_cell good fine tag (Busy es) = list_all (good tag) es"

definition typed_loop ::
  "(tag \<Rightarrow> 'm envelope \<Rightarrow> bool) \<Rightarrow> (tag \<Rightarrow> 'a \<Rightarrow> bool) \<Rightarrow> ('a, 'm) event_loop \<Rightarrow> bool"
where
  "typed_loop good fine s \<longleftrightarrow>
     loop_ok s \<and> (\<forall>tag. typed_cell good fine tag (cell_of s tag)) \<and> (\<forall>(tag, e) \<in># pending s. good tag e)"

primrec typed_worker ::
  "(tag \<Rightarrow> 'm envelope \<Rightarrow> bool) \<Rightarrow> (tag \<Rightarrow> 'a \<Rightarrow> bool) \<Rightarrow> ('a, 'm) worker \<Rightarrow> bool"
where
  "typed_worker good fine (Waiting l) = True"
| "typed_worker good fine (Sending acts l status) = list_all (typed_action good fine) acts"
| "typed_worker good fine Gone = True"

definition typed_state ::
  "('qe \<Rightarrow> ('a, 'm) event list) \<Rightarrow> ('qa \<Rightarrow> ('a, 'm) action list) \<Rightarrow> (tag \<Rightarrow> 'm envelope \<Rightarrow> bool) \<Rightarrow>
   (tag \<Rightarrow> 'a \<Rightarrow> bool) \<Rightarrow> ('a, 'm, 'qe, 'qa) runtime_state \<Rightarrow> bool"
where
  "typed_state ce ca good fine s \<longleftrightarrow>
     typed_loop good fine (rt_loop s) \<and> list_all (typed_event good fine) (ce (rt_events s)) \<and>
     list_all (typed_action good fine) (ca (rt_actions s)) \<and> list_all (typed_worker good fine) (rt_workers s)"

text \<open>The moves of the threads, and the calls on \<open>Run\<close> that send what the discipline allows.\<close>

definition typed_step ::
  "('a, 'm, 'qe, 'qa) world \<Rightarrow> ('qa \<Rightarrow> ('a, 'm) action list) \<Rightarrow> (tag \<Rightarrow> 'm envelope \<Rightarrow> bool) \<Rightarrow>
   (tag \<Rightarrow> 'a \<Rightarrow> bool) \<Rightarrow> ('a, 'm, 'qe, 'qa) runtime_state \<Rightarrow> ('a, 'm, 'qe, 'qa) runtime_state \<Rightarrow> bool"
where
  "typed_step W ca good fine s t \<longleftrightarrow>
     rt_step W s t \<or> client_step W s t \<and> list_all (typed_action good fine) (ca (rt_actions t))"

lemma typed_action_simps [simp]:
  "typed_action good fine (Act_Return tag a ok) = fine tag a"
  "typed_action good fine (Act_Spawn tag a) = fine tag a"
  "typed_action good fine (Act_Queue tag e) = good tag e"
  "typed_action good fine (Act_Delay d) = good (entry_tag d) (entry_envelope d)"
  "typed_action good fine (Act_Stop tag)" "typed_action good fine (Act_Logs tag es)"
  "typed_action good fine (Act_Metrics m)" "typed_action good fine Act_Shutdown"
  by (simp_all add: typed_action_def)

lemma typed_calls_simps [simp]:
  "typed_calls good fine []"
  "typed_calls good fine (c # calls) \<longleftrightarrow>
     list_all (typed_action good fine) (call_actions c) \<and> typed_calls good fine calls"
  "typed_calls good fine (calls @ calls') \<longleftrightarrow> typed_calls good fine calls \<and> typed_calls good fine calls'"
  by (simp_all add: typed_calls_def)

section \<open>The event loop\<close>

lemma cell_step_typed:
  "typed_cell good fine tag c \<Longrightarrow> typed_action good fine act \<Longrightarrow> action_tag act = Some tag \<Longrightarrow>
   typed_cell good fine tag (fst (cell_step tag act c)) \<and>
   list_all (typed_event good fine) (snd (cell_step tag act c))"
  by (cases "(tag, act, c)" rule: cell_step.cases) auto

lemma cells_step_typed:
  assumes "\<And>tag. typed_cell good fine tag (f tag)" "typed_action good fine act"
  shows "typed_cell good fine tag (fst (cells_step act f) tag)"
    and "list_all (typed_event good fine) (snd (cells_step act f))"
  using cell_step_typed [OF assms(1,2)] assms(1) by (auto simp: cells_step_def split: option.split)

lemma to_self_requeued:
  assumes "event_loop_step alive name host received rd s = Ret (s', out, go)"
  shows "list_all (typed_action good fine) (to_self out) \<longleftrightarrow> (\<forall>(tag, e) \<in># requeued out. good tag e)"
proof -
  have due: "list_all (typed_action good fine) acts \<longleftrightarrow> (\<forall>(tag, e) \<in> set (requeued_list acts). good tag e)"
    if "acts = map (\<lambda>e. Act_Queue (entry_tag e) (entry_envelope e)) es" for acts :: "('a, 'b) action list" and es :: "'b entry list"
    unfolding that requeued_due by (auto simp: list_all_iff requeue_def)
  have "\<exists>es :: 'b entry list. to_self out = map (\<lambda>e. Act_Queue (entry_tag e) (entry_envelope e)) es"
    using assms
    by (cases rule: event_loop_step_Ret)
      (auto elim!: loop_tail_Ret simp: timer_phase_def Let_def split_beta nothing_sent_def)
  then show ?thesis using due [of "to_self out"] by (auto simp: requeued_def)
qed

lemma event_loop_step_typed:
  assumes "typed_loop good fine s" "\<And>act. received = Some act \<Longrightarrow> typed_action good fine act"
    and step: "event_loop_step alive name host received rd s = Ret (s', out, go)"
  shows "typed_loop good fine s' \<and> list_all (typed_event good fine) (to_workers out) \<and>
    list_all (typed_action good fine) (to_self out)"
proof -
  have ok: "loop_ok s" and cells: "\<And>tag. typed_cell good fine tag (cell_of s tag)"
    and tasks: "\<forall>(tag, e) \<in># pending s. good tag e"
    using assms(1) by (simp_all add: typed_loop_def)
  have "(\<forall>(tag, e) \<in># (case received of None \<Rightarrow> {#} | Some act \<Rightarrow> delayed act). good tag e)"
    using assms(2) by (auto simp: delayed_def requeue_def split: option.splits action.splits)
  with pending_step [OF ok step] tasks have "\<forall>(tag, e) \<in># requeued out + pending s'. good tag e" by auto
  then have "\<forall>(tag, e) \<in># pending s'. good tag e" "list_all (typed_action good fine) (to_self out)"
    using to_self_requeued [OF step, of good fine] by auto
  moreover have "(\<forall>tag. typed_cell good fine tag (cell_of s' tag)) \<and> list_all (typed_event good fine) (to_workers out)"
  proof (cases received)
    case None
    with event_loop_step_refines [OF ok step] cells show ?thesis by simp
  next
    case (Some act)
    with event_loop_step_refines [OF ok step] cells_step_typed [OF cells assms(2) [OF Some]]
    show ?thesis by (simp add: prod_eq_iff)
  qed
  ultimately show ?thesis using event_loop_step_keeps [OF ok step] by (simp add: typed_loop_def)
qed

section \<open>The workers\<close>

lemma books_typed: "\<forall>act \<in> set books. is_book act \<Longrightarrow> list_all (typed_action good fine) books"
  by (auto simp: list_all_iff is_book_def typed_action_def split: action.splits)

context typed_actors
begin

lemma worker_turn_typed:
  assumes "typed_event good fine ev" "worker_turn B ev (l\<lparr>local_tx := []\<rparr>) = (l', status)"
  shows "list_all (typed_action good fine) (local_tx l')"
proof (cases ev)
  case (Ev_Mail tag actor e)
  obtain calls actor' ok calls' ok' where
    r: "receive B tag e actor = (calls, actor', ok)" and f: "on_fail B tag actor' = (calls', ok')"
    by (metis surj_pair)
  have fine: "fine tag actor'" and calls: "typed_calls good fine calls" "typed_calls good fine calls'"
    using assms(1) Ev_Mail receive_typed [OF _ _ r] on_fail_typed [OF _ f] by auto
  have "worker_mail B tag actor e (l\<lparr>local_tx := []\<rparr>) = (l', status)" using assms(2) Ev_Mail by simp
  note tx = worker_mail_tx [OF r f this]
  show ?thesis
  proof (cases "ok \<or> ok'")
    case True
    with tx obtain books where "\<forall>act \<in> set books. is_book act"
      "local_tx l' = concat (map call_actions calls)
           @ (if ok then [] else concat (map call_actions calls')) @ [Act_Return tag actor' ok] @ books"
      by auto
    then show ?thesis using calls fine books_typed [of books good fine] by (simp add: typed_calls_def)
  next
    case False
    then show ?thesis using tx calls by (simp add: typed_calls_def)
  qed
next
  case (Ev_Stop tag actor)
  obtain calls ok where c: "on_stop B tag actor = (calls, ok)" by fastforce
  with worker_stop_tx [OF c, of "l\<lparr>local_tx := []\<rparr>" l' status] assms(2) Ev_Stop obtain books where
    "\<forall>act \<in> set books. is_book act" "local_tx l' = concat (map call_actions calls) @ books"
    by auto
  then show ?thesis
    using on_stop_typed [OF _ c] assms(1) Ev_Stop books_typed [of books good fine] by (simp add: typed_calls_def)
qed (use assms(2) in auto)

lemma update_typed:
  "list_all (typed_worker good fine) ws \<Longrightarrow> typed_worker good fine w \<Longrightarrow> list_all (typed_worker good fine) (ws[i := w])"
  by (auto simp: list_all_iff dest: set_update_subset_insert [THEN subsetD])

lemma rt_step_typed:
  assumes ch: "channels_ok W ce ca" and W: "w_behaviour W = B"
    and "rt_step W s t" and s: "typed_state ce ca good fine s"
  shows "typed_state ce ca good fine t"
  using assms(3)
proof cases
  case (iterate rd received actions l out go)
  have content: "ca (rt_actions s) = (case received of None \<Rightarrow> [] | Some act \<Rightarrow> [act]) @ ca actions"
    using receive_action_content [OF ch iterate(4)] .
  with s have "typed_action good fine act" if "received = Some act" for act
    using that by (simp add: typed_state_def)
  from event_loop_step_typed [OF _ this iterate(5)] s content show ?thesis
    by (simp add: iterate(1) typed_state_def after_iteration_def channels_send [OF ch] split: option.splits)
next
  case (tell_shutdown k)
  with s show ?thesis by (simp add: typed_state_def channels_send [OF ch])
next
  case (drain act actions)
  with s channels_recv_Some(2) [OF ch drain(3)] show ?thesis by (simp add: typed_state_def)
next
  case (take_event i l ev events l' status)
  have "typed_event good fine ev" "list_all (typed_event good fine) (ce events)"
    using s channels_recv_Some(1) [OF ch take_event(4)] by (simp_all add: typed_state_def)
  with worker_turn_typed [of ev l l' status] take_event W s show ?thesis
    by (simp add: typed_state_def update_typed)
next
  case (send_next i act acts l status)
  have "typed_worker good fine (rt_workers s ! i)" using s send_next(2) by (simp add: typed_state_def list_all_length)
  with send_next s show ?thesis
    by (simp add: typed_state_def channels_send [OF ch] update_typed)
next
  case (send_fails i act acts l status)
  with s show ?thesis by (simp add: typed_state_def update_typed)
next
  case (turn_over i l status)
  with s show ?thesis by (simp add: typed_state_def update_typed)
next
  case (disconnected i l)
  with s show ?thesis by (simp add: typed_state_def update_typed)
qed (use s in \<open>simp_all add: typed_state_def\<close>)

lemma typed_step_typed:
  assumes ch: "channels_ok W ce ca" and W: "w_behaviour W = B"
    and "typed_step W ca good fine s t" "typed_state ce ca good fine s"
  shows "typed_state ce ca good fine t"
  using assms(3) unfolding typed_step_def
proof
  assume "rt_step W s t"
  then show ?thesis using rt_step_typed [OF ch W] assms(4) by blast
next
  assume t: "client_step W s t \<and> list_all (typed_action good fine) (ca (rt_actions t))"
  then have "rt_loop t = rt_loop s \<and> rt_events t = rt_events s \<and> rt_workers t = rt_workers s"
    by (auto elim: client_step.cases)
  with t assms(4) show ?thesis by (simp add: typed_state_def)
qed

lemma typed_steps_typed:
  assumes "channels_ok W ce ca" "w_behaviour W = B"
    and "(typed_step W ca good fine)\<^sup>*\<^sup>* s t" "typed_state ce ca good fine s"
  shows "typed_state ce ca good fine t"
  using assms(3,4) by (induction rule: rtranclp_induct) (auto intro: typed_step_typed [OF assms(1,2)])

end

lemma started_typed:
  assumes "started W ce ca s" "channels_ok W ce ca" "list_all (typed_action good fine) (ca (rt_actions s))"
  shows "typed_state ce ca good fine s"
  using assms(1,2)
proof (rule started_state)
  fix c now
  assume "rt_loop s = event_loop_init c (w_name W) now" "ce (rt_events s) = []"
    "rt_workers s = replicate (actor_worker_threads c) (Waiting local_new)"
  moreover from this(1) have "typed_loop good fine (rt_loop s)"
    by (simp add: typed_loop_def loop_ok_init cell_of_init)
      (simp add: pending_def event_loop_init_def)
  ultimately show ?thesis using assms(3) by (simp add: typed_state_def list_all_iff)
qed

end
