(* ===== verification/Full_Claims.thy ===== *)
theory Full_Claims
  imports Full Typing
begin

text \<open>
  Properties of \<open>examples/full.rs\<close>: what \<open>Periodic\<close> reports, the round trip of a fan-out, and that
  the whole example keeps to its own protocol in the runtime, an instance of \<open>typed_actors\<close>.
\<close>

section \<open>The report of the timer\<close>

lemma sorted_rank:
  fixes A :: "'a :: linorder set"
  assumes "finite A" "i < card A"
  shows "sorted_list_of_set A ! i \<in> A" "card {a \<in> A. a < sorted_list_of_set A ! i} = i"
proof -
  let ?ds = "sorted_list_of_set A"
  have ds: "set ?ds = A" "distinct ?ds" "sorted ?ds" "length ?ds = card A" using assms(1) by simp_all
  show mem: "?ds ! i \<in> A" using ds assms(2) by (metis nth_mem)
  have "{a \<in> A. a < ?ds ! i} = set (take i ?ds)"
  proof (intro equalityI subsetI)
    fix a
    assume a: "a \<in> {a \<in> A. a < ?ds ! i}"
    then have "a \<in> set ?ds" using ds(1) by blast
    then obtain j where j: "j < length ?ds" "?ds ! j = a" unfolding in_set_conv_nth by blast
    have "j < i" using a j ds(3) assms(2) ds(4) by (metis leD linorder_not_le mem_Collect_eq sorted_nth_mono)
    then show "a \<in> set (take i ?ds)" using j by (auto simp: in_set_conv_nth)
  next
    fix a
    assume "a \<in> set (take i ?ds)"
    then obtain j where j: "j < i" "?ds ! j = a" by (auto simp: in_set_conv_nth)
    then have "a \<le> ?ds ! i" "a \<noteq> ?ds ! i"
      using ds(2-4) assms(2) by (auto simp: sorted_iff_nth_mono nth_eq_iff_index_eq)
    moreover have "a \<in> A" using j ds(1,4) assms(2) by (metis nth_mem order.strict_trans)
    ultimately show "a \<in> {a \<in> A. a < ?ds ! i}" by simp
  qed
  then show "card {a \<in> A. a < ?ds ! i} = i" using ds(2,4) assms(2) by (simp add: distinct_card)
qed

text \<open>
  C37. What the timer reports. The report exists exactly if some latency was measured, so the handler,
  which reports after it has entered one, never panics; then the four numbers are latencies that
  were measured, in order, none was below the first or above the last, and the middle two are the
  elements of rank \<open>(n - 1) / 2\<close> and \<open>99 (n - 1) / 100\<close> among the \<open>n\<close> distinct latencies, whatever
  their counts.
\<close>

theorem report_ranks:
  assumes "finite (dom (per_timings p))"
  shows "(per_report p = Panic \<longleftrightarrow> dom (per_timings p) = {}) \<and>
    (\<forall>lo hi p50 p99. per_report p = Ret (lo, hi, p50, p99) \<longrightarrow>
      lo \<le> p50 \<and> p50 \<le> p99 \<and> p99 \<le> hi \<and> {lo, hi, p50, p99} \<subseteq> dom (per_timings p) \<and>
      (\<forall>d \<in> dom (per_timings p). lo \<le> d \<and> d \<le> hi) \<and>
      card {d \<in> dom (per_timings p). d < p50} = (card (dom (per_timings p)) - 1) div 2 \<and>
      card {d \<in> dom (per_timings p). d < p99} = (card (dom (per_timings p)) - 1) * 99 div 100)"
proof (intro conjI allI impI)
  let ?A = "dom (per_timings p)" and ?ds = "sorted_list_of_set (dom (per_timings p))"
  show "per_report p = Panic \<longleftrightarrow> ?A = {}" using assms by (simp add: per_report_def Let_def)
  fix lo hi p50 p99
  assume r: "per_report p = Ret (lo, hi, p50, p99)"
  then have ne: "?A \<noteq> {}" using assms by (auto simp: per_report_def Let_def)
  let ?n = "card ?A"
  have n: "0 < ?n" "length ?ds = ?n" using assms ne by (simp_all add: card_gt_0_iff)
  have at: "lo = ?ds ! 0" "hi = ?ds ! (?n - 1)" "p50 = ?ds ! ((?n - 1) div 2)" "p99 = ?ds ! ((?n - 1) * 99 div 100)"
    using r n by (auto simp: per_report_def Let_def split: if_splits)
  have i: "(?n - 1) div 2 \<le> (?n - 1) * 99 div 100" "(?n - 1) * 99 div 100 \<le> ?n - 1" "(?n - 1) div 2 \<le> ?n - 1"
    by simp_all
  have mono: "?ds ! j \<le> ?ds ! k" if "j \<le> k" "k < ?n" for j k
    using that n sorted_nth_mono [of ?ds j k] by simp
  show "lo \<le> p50" unfolding at by (rule mono) (use i n(1) in linarith)+
  show "p50 \<le> p99" unfolding at by (rule mono) (use i n(1) in linarith)+
  show "p99 \<le> hi" unfolding at by (rule mono) (use i n(1) in linarith)+
  have mem: "?ds ! j \<in> ?A" if "j < ?n" for j using sorted_rank(1) [OF assms that] .
  have "lo \<in> ?A" "hi \<in> ?A" "p50 \<in> ?A" "p99 \<in> ?A"
    unfolding at by (rule mem, use i n(1) in linarith)+
  then show "{lo, hi, p50, p99} \<subseteq> ?A" by simp
  show "\<forall>d \<in> ?A. lo \<le> d \<and> d \<le> hi"
  proof
    fix d
    assume "d \<in> ?A"
    then obtain j where "j < ?n" "?ds ! j = d" using assms n by (metis in_set_conv_nth set_sorted_list_of_set)
    then show "lo \<le> d \<and> d \<le> hi" unfolding at using mono [of 0 j] mono [of j "?n - 1"] n(1) by simp
  qed
  show "card {d \<in> ?A. d < p50} = (?n - 1) div 2" "card {d \<in> ?A. d < p99} = (?n - 1) * 99 div 100"
    unfolding at by (rule sorted_rank(2) [OF assms], use i n(1) in linarith)+
qed

theorem report_ranks_witness:
  "\<exists>hi p50 p99. per_report ((default_periodic 0)
      \<lparr>per_timings := [10 \<mapsto> 1, 11 \<mapsto> 998, 30 \<mapsto> 1]\<rparr>) = Ret (10, hi, p50, p99) \<and> p50 \<le> hi"
proof -
  let ?p = "(default_periodic 0)\<lparr>per_timings := [10 \<mapsto> 1, 11 \<mapsto> 998, 30 \<mapsto> (1 :: usize)]\<rparr>"
  have fin: "finite (dom (per_timings ?p))" by simp
  have r: "per_report ?p = Ret (10, 30, 11, 11)"
    by (simp add: per_report_def default_periodic_def insert_commute)
  from report_ranks [OF fin] r show ?thesis by blast
qed

section \<open>A fan-out\<close>

definition fan_in :: "usize \<Rightarrow> full_message message envelope" where
  "fan_in k = with_from (envelope_of (Opaque (Fan_In k))) (show_usize k)"

lemma root_counts:
  assumes "root_count r = word_of_nat c" "c + length ks < unat (root_size r)"
  shows "actor_run (root_receive wall me) (map fan_in ks) r =
    ([], r\<lparr>root_count := word_of_nat (c + length ks), root_seen := root_seen r \<union> set ks\<rparr>, True)"
  using assms
proof (induction ks arbitrary: r c)
  case Nil
  then show ?case by simp
next
  case (Cons k ks)
  let ?r = "r\<lparr>root_seen := insert k (root_seen r), root_count := root_count r + 1\<rparr>"
  have "root_count r + 1 \<noteq> root_size r"
  proof
    assume "root_count r + 1 = root_size r"
    then have "word_of_nat (Suc c) = root_size r" using Cons.prems(1) by (simp add: ac_simps)
    moreover have "Suc c < 2 ^ 64"
      using Cons.prems(2) unsigned_less [of "root_size r", where 'a = nat] by simp
    ultimately have "unat (root_size r) = Suc c" using unat_usize by metis
    then show False using Cons.prems(2) by simp
  qed
  then have "root_receive wall me (fan_in k) r = ([], ?r, True)"
    by (simp add: root_receive_def root_in_def fan_in_def envelope_defs Let_def)
  moreover have "root_count ?r = word_of_nat (Suc c)" using Cons.prems(1) by (simp add: ac_simps)
  note Cons.IH [OF this]
  ultimately show ?case using Cons.prems(2) by simp
qed

text \<open>
  C35. A fan-out comes back exactly once. A \<open>Root\<close> that is triggered with a size sends one message to
  each tag of the ring; each \<open>Round\<close> answers its own with its number; and in whatever order the
  answers come, \<open>Root\<close> sends nothing before the last of them, and then triggers itself again with the
  same size, with its counter back at zero, for the next epoch.
\<close>

theorem fan_out_comes_back:
  assumes "root_count r = 0" "n \<noteq> 0" and order: "mset order = mset (map word_of_nat [0..<unat n])"
  defines "out \<equiv> \<lambda>k. with_from (envelope_of (Opaque (Fan_Out (word_of_nat k)))) ''root''"
  shows "root_receive wall ''root'' (envelope_of (Opaque (Trigger n))) r =
      (map (\<lambda>k. Send (show_nat k) (out k)) [0..<unat n], r\<lparr>root_size := n\<rparr>, True) \<and>
    (\<forall>k < unat n. \<forall>round. round_receive wall type_text (show_nat k) (out k) round =
      ([Send ''root'' (fan_in (word_of_nat k))], round, True)) \<and>
    (\<forall>i < unat n. fst (actor_run (root_receive wall ''root'') (map fan_in (take i order)) (r\<lparr>root_size := n\<rparr>)) = []) \<and>
    actor_run (root_receive wall ''root'') (map fan_in order) (r\<lparr>root_size := n\<rparr>) =
      ([Log wall (''root completed the fanout of size: '' @ show_usize n
           @ '' (epoch: '' @ show_usize (root_epoch r) @ '')''),
        Send ''root'' (with_from (envelope_of (Opaque (Trigger n))) ''root'')],
       r\<lparr>root_size := n, root_seen := {}, root_count := 0, root_epoch := root_epoch r + 1\<rparr>, True)"
proof (intro conjI allI impI)
  let ?r = "r\<lparr>root_size := n\<rparr>"
  have len: "length order = unat n" using order by (metis diff_zero length_map length_upt size_mset)
  have pos: "0 < unat n" "unat n < 2 ^ 64"
    using assms(2) unsigned_less [of n, where 'a = nat] by (simp_all add: unat_gt_0)
  show "root_receive wall ''root'' (envelope_of (Opaque (Trigger n))) r =
      (map (\<lambda>k. Send (show_nat k) (out k)) [0..<unat n], r\<lparr>root_size := n\<rparr>, True)"
    by (simp add: root_receive_def root_trigger_def out_def envelope_defs)
  show "round_receive wall type_text (show_nat k) (out k) round =
      ([Send ''root'' (fan_in (word_of_nat k))], round, True)" if "k < unat n" for k round
  proof -
    have "show_usize (word_of_nat k) = show_nat k"
      using that pos by (simp add: show_usize_def unat_of_nat)
    then show ?thesis by (simp add: round_receive_def out_def envelope_defs fan_in_def)
  qed
  show "fst (actor_run (root_receive wall ''root'') (map fan_in (take i order)) ?r) = []" if "i < unat n" for i
    using root_counts [of ?r 0 "take i order" wall "''root''"] assms(1) that len by simp
  obtain ks k where ks: "order = ks @ [k]" using len pos by (cases order rule: rev_cases) auto
  let ?s = "?r\<lparr>root_count := word_of_nat (length ks), root_seen := root_seen r \<union> set ks\<rparr>"
  have run: "actor_run (root_receive wall ''root'') (map fan_in ks) ?r = ([], ?s, True)"
    using root_counts [of ?r 0 ks wall "''root''"] assms(1) len ks by simp
  have "word_of_nat (length ks) + 1 = (word_of_nat (length order) :: usize)" using ks by (simp add: ac_simps)
  then have "word_of_nat (length ks) + 1 = n" unfolding len by simp
  then have last: "root_receive wall ''root'' (fan_in k) ?s =
      ([Log wall (''root completed the fanout of size: '' @ show_usize n
           @ '' (epoch: '' @ show_usize (root_epoch r) @ '')''),
        Send ''root'' (with_from (envelope_of (Opaque (Trigger n))) ''root'')],
       r\<lparr>root_size := n, root_seen := {}, root_count := 0, root_epoch := root_epoch r + 1\<rparr>, True)"
    by (simp add: root_receive_def root_in_def fan_in_def envelope_defs Let_def)
  have "actor_run h (es @ [e]) s = (case actor_run h es s of (calls, s', ok) \<Rightarrow>
      if ok then (case h e s' of (calls', s'', ok') \<Rightarrow> (calls @ calls', s'', ok')) else (calls, s', False))"
    for h :: "full_message message envelope \<Rightarrow> root \<Rightarrow> full_call list \<times> root \<times> bool" and es e s
    by (induction es arbitrary: s) (auto split: prod.splits)
  then show "actor_run (root_receive wall ''root'') (map fan_in order) ?r =
      ([Log wall (''root completed the fanout of size: '' @ show_usize n
           @ '' (epoch: '' @ show_usize (root_epoch r) @ '')''),
        Send ''root'' (with_from (envelope_of (Opaque (Trigger n))) ''root'')],
       r\<lparr>root_size := n, root_seen := {}, root_count := 0, root_epoch := root_epoch r + 1\<rparr>, True)"
    using run last unfolding ks by simp
qed

theorem fan_out_comes_back_witness:
  "fst (actor_run (root_receive 0 ''root'') (map fan_in [1, 0]) (default_root\<lparr>root_size := 2\<rparr>)) =
    [Log 0 ''root completed the fanout of size: 2 (epoch: 0)'',
     Send ''root'' (with_from (envelope_of (Opaque (Trigger 2))) ''root'')]"
proof -
  have u: "unat (2 :: usize) = 2" by simp
  have o: "mset [1, 0] = mset (map word_of_nat [0..<unat (2 :: usize)])" unfolding u by (simp add: upt_rec)
  have c: "root_count default_root = 0" "(2 :: usize) \<noteq> 0" by (simp_all add: default_root_def)
  have s: "show_usize 2 = ''2''" "show_usize 0 = ''0''"
    by (simp_all add: show_usize_def show_nat.simps, code_simp+)
  from fan_out_comes_back [OF c o, of 0] s show ?thesis by (simp add: default_root_def)
qed

section \<open>The protocol of the example\<close>

text \<open>
  Which messages a tag may be sent, for a ring of \<open>n\<close>: a token is at the tag of its number modulo
  \<open>n\<close>, a fan-out goes to its own tag from \<open>root\<close>, and \<open>ping\<close> and \<open>pong\<close> play with each other.
\<close>

definition full_good :: "usize \<Rightarrow> tag \<Rightarrow> full_message message envelope \<Rightarrow> bool" where
  "full_good n tag e =
     (case env_message e of
        Opaque (Hit h) \<Rightarrow> tag = show_usize (h mod n)
      | Opaque (Acc name zero hits) \<Rightarrow> tag = show_usize ((zero + hits) mod n)
      | Opaque (Fan_Out k) \<Rightarrow> tag = show_usize k \<and> k < n \<and> env_from e = ''root''
      | Opaque (Fan_In k) \<Rightarrow> tag = ''root'' \<and> k < n
      | Opaque (Trigger m) \<Rightarrow> tag = ''root'' \<and> (m = n \<or> m = 0)
      | Opaque (Tick at) \<Rightarrow> tag = ''timer''
      | Opaque (Text s) \<Rightarrow>
          tag = ''ping'' \<and> s = ''ping'' \<and> env_from e = ''pong'' \<or>
          tag = ''pong'' \<and> s = ''pong'' \<and> env_from e = ''ping''
      | _ \<Rightarrow> False)"

definition full_fine :: "usize \<Rightarrow> tag \<Rightarrow> full_actor \<Rightarrow> bool" where
  "full_fine n tag actor =
     (case actor of
        Round r \<Rightarrow> round_size r = n \<and> (\<exists>k < n. tag = show_usize k)
      | Root r \<Rightarrow> tag = ''root'' \<and> (root_size r = n \<or> root_size r = 0)
      | Periodic p \<Rightarrow> tag = ''timer'' \<and> finite (dom (per_timings p))
      | Ping_Pong p \<Rightarrow> tag = ''ping'' \<or> tag = ''pong'')"

lemma show_usize_no_at: "CHR ''@'' \<notin> set (show_usize k)"
  using show_nat_digits digits_not_at(1) unfolding show_usize_def by blast

lemma usize_mod_less: "n \<noteq> 0 \<Longrightarrow> (k :: usize) mod n < n"
  by (simp add: word_less_nat_alt unat_mod unat_gt_0)

lemma show_usize_names:
  "show_usize k \<noteq> ''root''" "show_usize k \<noteq> ''timer''" "show_usize k \<noteq> ''ping''" "show_usize k \<noteq> ''pong''"
proof -
  have "\<not> is_digit (CHR ''r'')" "\<not> is_digit (CHR ''g'')" by (simp_all add: is_digit_def)
  then have "CHR ''r'' \<notin> set (show_usize k)" "CHR ''g'' \<notin> set (show_usize k)"
    using show_nat_digits unfolding show_usize_def by blast+
  then show "show_usize k \<noteq> ''root''" "show_usize k \<noteq> ''timer''" "show_usize k \<noteq> ''ping''" "show_usize k \<noteq> ''pong''"
    by auto
qed

lemmas full_handlers = round_receive_def root_receive_def root_in_def root_trigger_def periodic_receive_def
  ping_pong_receive_def next_tag_def

lemma round_typed:
  assumes "n \<noteq> 0" "full_fine n tag (Round r)" "full_good n tag e" "round_receive wall ty tag e r = (calls, r', ok)"
  shows "full_fine n tag (Round r') \<and> typed_calls (full_good n) (full_fine n) calls \<and> ok"
  using assms usize_mod_less [OF assms(1)] show_usize_no_at
  by (auto simp: full_handlers full_fine_def full_good_def envelope_defs ac_simps
      split: message.splits full_message.splits)

lemma root_typed:
  assumes "n \<noteq> 0" "full_fine n tag (Root r)" "full_good n tag e" "root_receive wall tag e r = (calls, r', ok)"
  shows "full_fine n tag (Root r') \<and> typed_calls (full_good n) (full_fine n) calls \<and> ok"
proof -
  have outs: "typed_calls (full_good n) (full_fine n)
      (map (\<lambda>k. Send (show_nat k) (with_from (envelope_of (Opaque (Fan_Out (word_of_nat k)))) ''root'')) [0..<unat m])"
    if "m = n \<or> m = 0" for m
  proof -
    have "full_good n (show_nat k) (with_from (envelope_of (Opaque (Fan_Out (word_of_nat k)))) ''root'') \<and>
        CHR ''@'' \<notin> set (show_nat k)" if "k < unat m" for k
    proof -
      have "k < 2 ^ 64" using that unsigned_less [of m, where 'a = nat] by simp
      then have "show_usize (word_of_nat k) = show_nat k" "(word_of_nat k :: usize) < n"
        using that \<open>m = n \<or> m = 0\<close> by (auto simp: show_usize_def unat_usize word_less_nat_alt)
      then show ?thesis using show_usize_no_at [of "word_of_nat k"] by (simp add: full_good_def envelope_defs)
    qed
    then show ?thesis by (auto simp: typed_calls_def list_all_iff)
  qed
  show ?thesis
    using assms outs
    by (auto simp: full_handlers full_fine_def full_good_def envelope_defs Let_def
        split: message.splits full_message.splits if_splits)
qed

lemma periodic_typed:
  assumes "full_fine n tag (Periodic p)" "full_good n tag e"
    "periodic_receive wall now now' now'' tag e p = (calls, p', ok)"
  shows "full_fine n tag (Periodic p') \<and> typed_calls (full_good n) (full_fine n) calls \<and> ok"
  using assms
  by (auto simp: full_handlers full_fine_def full_good_def envelope_defs Let_def per_report_def
      split: message.splits full_message.splits if_splits)

lemma ping_pong_typed:
  assumes "full_fine n tag (Ping_Pong p)" "full_good n tag e" "ping_pong_receive wall tag e p = (calls, p', ok)"
  shows "full_fine n tag (Ping_Pong p') \<and> typed_calls (full_good n) (full_fine n) calls \<and> ok"
  using assms
  by (auto simp: full_handlers full_fine_def full_good_def envelope_defs
      split: message.splits full_message.splits if_splits)

lemma full_receive_typed:
  assumes "n \<noteq> 0" "full_fine n tag a" "full_good n tag e" "full_receive E tag e a = (calls, a', ok)"
  shows "full_fine n tag a' \<and> typed_calls (full_good n) (full_fine n) calls \<and> ok"
proof (cases a)
  case (Round r)
  then show ?thesis using assms(2-4) by (auto split: prod.splits dest: round_typed [OF assms(1)])
next
  case (Root r)
  then show ?thesis using assms(2-4) by (auto split: prod.splits dest: root_typed [OF assms(1)])
next
  case (Periodic p)
  then show ?thesis using assms(2-4) by (auto split: prod.splits dest: periodic_typed)
next
  case (Ping_Pong p)
  then show ?thesis using assms(2-4) by (auto split: prod.splits dest: ping_pong_typed)
qed

text \<open>The size of the example is left open: the discipline holds for every ring that is not empty.\<close>

interpretation full: typed_actors "full_behaviour E" "full_good (word_of_nat FULL_SIZE)" "full_fine (word_of_nat FULL_SIZE)" for E
proof
  have size: "(word_of_nat FULL_SIZE :: usize) \<noteq> 0" by (simp add: FULL_SIZE_def)
  fix tag a e calls a' ok
  assume "full_fine (word_of_nat FULL_SIZE) tag a" "full_good (word_of_nat FULL_SIZE) tag e"
    "receive (full_behaviour E) tag e a = (calls, a', ok)"
  then show "full_fine (word_of_nat FULL_SIZE) tag a' \<and>
      typed_calls (full_good (word_of_nat FULL_SIZE)) (full_fine (word_of_nat FULL_SIZE)) calls"
    using full_receive_typed [OF size] by (simp add: full_behaviour_def)
qed (simp_all add: full_behaviour_def default_on_fail_def default_on_stop_def)

text \<open>The actors of the ring know all the messages they are sent.\<close>

lemma round_understands:
  assumes "full_fine n tag (Round r)" "full_good n tag e" "round_receive wall ty tag e r = (calls, r', ok)"
  shows "Log at msg \<notin> set calls"
  using assms show_usize_names
  by (auto simp: full_handlers full_fine_def full_good_def
      split: message.splits full_message.splits outcome.splits if_splits)

section \<open>main\<close>

lemma content_fold:
  assumes "unbounded_channel C content"
  shows "content (fold (\<lambda>k. chan_send C (f k)) ks q) = content q @ map f ks"
  using assms by (induction ks arbitrary: q) (simp_all add: unbounded_channel.content_send)

lemma full_main_typed:
  assumes C: "unbounded_channel C content"
  shows "\<exists>acts. content (full_main C now tick later q) = content q @ acts \<and>
    list_all (typed_action (full_good (word_of_nat FULL_SIZE)) (full_fine (word_of_nat FULL_SIZE))) acts"
proof -
  let ?n = "word_of_nat FULL_SIZE :: usize"
  let ?round = "\<lambda>k. Act_Spawn (show_nat k) (Round (round_new ?n))"
  let ?acc = "\<lambda>k. Act_Queue (show_nat k) (with_from (envelope_of (Opaque (Acc (show_nat k) (word_of_nat k) 0))) (show_nat k))"
  have at: "CHR ''@'' \<notin> set (show_nat k)" for k
    using show_nat_digits digits_not_at(1) by blast
  have unat: "unat ?n = FULL_SIZE" by (rule unat_usize) (simp add: FULL_SIZE_def)
  have num: "show_usize (word_of_nat k) = show_nat k \<and> (word_of_nat k :: usize) < ?n \<and> word_of_nat k mod ?n = word_of_nat k"
    if "k < FULL_SIZE" for k
  proof -
    have k: "unat (word_of_nat k :: usize) = k" using that by (intro unat_usize) (simp add: FULL_SIZE_def)
    then have "(word_of_nat k :: usize) < ?n" using that unat by (simp add: word_less_nat_alt)
    then show ?thesis using k unat that by (simp add: show_usize_def word_unat_eq_iff unat_mod)
  qed
  have rounds: "list_all (typed_action (full_good ?n) (full_fine ?n)) (map ?round [0..<FULL_SIZE])"
    using num by (auto simp: list_all_iff full_fine_def round_new_def) metis
  have accs: "list_all (typed_action (full_good ?n) (full_fine ?n)) (map ?acc [0..<1000])"
    using num by (auto simp: list_all_iff full_good_def envelope_defs FULL_SIZE_def)
  have sends: "run_spawn C tag actor = chan_send C (Act_Spawn tag actor)"
    "run_send C (show_nat k) e = chan_send C (Act_Queue (show_nat k) e)"
    "run_send C ''0'' e = chan_send C (Act_Queue ''0'' e)" "run_send C ''root'' e = chan_send C (Act_Queue ''root'' e)"
    "run_send C ''ping'' e = chan_send C (Act_Queue ''ping'' e)" for tag actor k e
    by (simp_all add: fun_eq_iff run_spawn_def run_send_def at)
  have zero: "show_usize 0 = ''0''" by (simp add: show_usize_def show_nat.simps, code_simp)
  let ?rest = "[Act_Spawn ''root'' (Root default_root),
    Act_Queue ''root'' (with_from (envelope_of (Opaque (Trigger ?n))) ''root''),
    Act_Spawn ''timer'' (Periodic (default_periodic now)),
    Act_Delay \<lparr>entry_at = later + 10 * 1000000000, entry_tag = ''timer'',
      entry_envelope = with_from (envelope_of (Opaque (Tick tick))) ''timer''\<rparr>,
    Act_Spawn ''ping'' (Ping_Pong default_ping_pong), Act_Spawn ''pong'' (Ping_Pong default_ping_pong),
    Act_Queue ''ping'' (with_from (envelope_of (Opaque (Text ''ping''))) ''pong'')]"
  have "content (full_main C now tick later q) = content q @ (map ?round [0..<FULL_SIZE]
      @ Act_Queue ''0'' (envelope_of (Opaque (Hit 0))) # map ?acc [0..<1000] @ ?rest)"
    unfolding full_main_def run_spawn_default_def run_delay_def Let_def sends
    by (simp add: content_fold [OF C] unbounded_channel.content_send [OF C])
  moreover have "list_all (typed_action (full_good ?n) (full_fine ?n))
      (Act_Queue ''0'' (envelope_of (Opaque (Hit 0))) # ?rest)"
    using zero by (simp add: full_good_def full_fine_def envelope_defs default_root_def default_periodic_def)
  ultimately show ?thesis using rounds accs by auto
qed

section \<open>The example in the runtime\<close>

text \<open>
  C20. The full example keeps to its protocol. All that \<open>main\<close> asks of the runtime obeys the
  discipline \<open>full_good\<close> and \<open>full_fine\<close>; and whatever the interleaving of the threads with such
  calls, everything in the system obeys it: every token is at the tag of its number modulo the
  size of the ring, every \<open>Fan::Out\<close> at its own tag and every \<open>Fan::In\<close> on its way to \<open>root\<close>, in
  mailboxes, timers, channels and workers alike. So no message a worker takes makes a handler panic
  (no remainder by zero, no report of nothing), and no actor of the ring is sent a message that it
  does not know.
\<close>

theorem full_keeps_protocol:
  fixes W :: "(full_actor, full_message message, 'qe, 'qa) world"
  defines "good \<equiv> full_good (word_of_nat FULL_SIZE)" and "fine \<equiv> full_fine (word_of_nat FULL_SIZE)"
  assumes "channels_ok W ce ca" "w_behaviour W = full_behaviour E" "started W ce ca s0" "ca (rt_actions s0) = []"
    and "(typed_step W ca good fine)\<^sup>*\<^sup>* s0 s"
  shows "list_all (typed_action good fine) (ca (full_main (w_action_chan W) now tick later (rt_actions s0))) \<and>
    typed_state ce ca good fine s \<and>
    (\<forall>tag actor e. Ev_Mail tag actor e \<in> set (ce (rt_events s)) \<longrightarrow>
      (\<exists>calls actor'. receive (w_behaviour W) tag e actor = (calls, actor', True) \<and>
         (\<forall>r at msg. actor = Round r \<longrightarrow> Log at msg \<notin> set calls)))"
proof (intro conjI allI impI)
  have C: "unbounded_channel (w_action_chan W) ca" using assms(3) by (simp add: channels_ok_def)
  show "list_all (typed_action good fine) (ca (full_main (w_action_chan W) now tick later (rt_actions s0)))"
    using full_main_typed [OF C, of now tick later "rt_actions s0"] assms(6) by (auto simp: good_def fine_def)
  have "typed_state ce ca good fine s0" using started_typed [OF assms(5,3)] assms(6) by simp
  then show typed: "typed_state ce ca good fine s"
    using full.typed_steps_typed [OF assms(3,4)] assms(7) by (simp add: good_def fine_def)
  fix tag actor e
  assume "Ev_Mail tag actor e \<in> set (ce (rt_events s))"
  with typed have obey: "fine tag actor" "good tag e" by (auto simp: typed_state_def list_all_iff)
  obtain calls actor' ok where r: "full_receive E tag e actor = (calls, actor', ok)" by (metis surj_pair)
  have "(word_of_nat FULL_SIZE :: usize) \<noteq> 0" by (simp add: FULL_SIZE_def)
  from full_receive_typed [OF this _ _ r] obey have ok by (simp add: good_def fine_def)
  moreover have "Log at msg \<notin> set calls" if "actor = Round rd" for rd at msg
    using r that obey round_understands by (fastforce simp: good_def fine_def split: prod.splits)
  ultimately show "\<exists>calls actor'. receive (w_behaviour W) tag e actor = (calls, actor', True) \<and>
      (\<forall>r at msg. actor = Round r \<longrightarrow> Log at msg \<notin> set calls)"
    using r assms(4) by (intro exI [of _ calls] exI [of _ actor']) (simp add: full_behaviour_def)
qed

definition full_world ::
  "(full_actor, full_message message, (full_actor, full_message message) event list,
    (full_actor, full_message message) action list) world"
where
  "full_world =
     \<lparr>w_behaviour = full_behaviour \<lparr>fe_wall = 0, fe_type_text = (\<lambda>m. ''?''), fe_now = 0, fe_tick = 0, fe_delay = 0\<rparr>,
      w_event_chan = list_chan, w_action_chan = list_chan, w_clock = (\<lambda>rd. True), w_name = ''full'',
      w_host = ''localhost''\<rparr>"

theorem full_keeps_protocol_witness:
  "\<exists>s0 s. started full_world (\<lambda>q. q) (\<lambda>q. q) s0 \<and>
    rt_actions s = [Act_Spawn ''ping'' (Ping_Pong default_ping_pong)] \<and>
    typed_state (\<lambda>q. q) (\<lambda>q. q) (full_good (word_of_nat FULL_SIZE)) (full_fine (word_of_nat FULL_SIZE)) s"
proof -
  let ?good = "full_good (word_of_nat FULL_SIZE)" and ?fine = "full_fine (word_of_nat FULL_SIZE)"
  let ?R = "\<lparr>new_server_actor = (\<lambda>addr c. Inl (InvalidServerAddress addr)),
    new_client_actor = (\<lambda>port c. Ping_Pong default_ping_pong), server_loop_msg = Server_Loop,
    client_loop_msg = Client_Loop\<rparr> :: (full_actor, full_message message) remote_actors"
  let ?start = "start_actor_runtime ''full'' (cfg_scheduler (full_config 4)) 0 [] []
    :: (full_actor, full_message message, (full_actor, full_message message) event list,
        (full_actor, full_message message) action list) runtime_state"
  have ch: "channels_ok full_world (\<lambda>q. q) (\<lambda>q. q)"
    by (simp add: channels_ok_def full_world_def list_chan.unbounded_channel_axioms)
  have "system_run 6 full_world ?R (full_config 4) 0 [] [] = (None, Some ?start)"
    by (simp add: system_run_def runtime_start_def full_config_def new_config_def total_threads_required_def
        with_total_threads_def default_scheduler_config_def default_remote_config_def full_world_def)
  then have start: "started full_world (\<lambda>q. q) (\<lambda>q. q) ?start" unfolding started_def by blast
  have empty: "rt_actions ?start = []" "rt_handle ?start" "listening_phase (rt_phase ?start)"
    by (simp_all add: start_actor_runtime_def listening_phase_def)
  let ?s = "?start\<lparr>rt_actions := run_spawn_default list_chan (Ping_Pong default_ping_pong) ''ping'' (rt_actions ?start)\<rparr>"
  have chan: "w_action_chan full_world = list_chan" by (simp add: full_world_def)
  have acts: "rt_actions ?s = [Act_Spawn ''ping'' (Ping_Pong default_ping_pong)]"
    using empty by (simp add: run_spawn_default_def)
  have "client_step full_world ?start ?s"
    using client_step.spawn_default [OF empty(2,3), of full_world "Ping_Pong default_ping_pong" "''ping''"]
    unfolding chan .
  then have "typed_step full_world (\<lambda>q. q) ?good ?fine ?start ?s"
    using acts by (simp add: typed_step_def full_fine_def)
  then have "(typed_step full_world (\<lambda>q. q) ?good ?fine)\<^sup>*\<^sup>* ?start ?s" by blast
  moreover have "w_behaviour full_world = full_behaviour
      \<lparr>fe_wall = 0, fe_type_text = (\<lambda>m. ''?''), fe_now = 0, fe_tick = 0, fe_delay = 0\<rparr>" by (simp add: full_world_def)
  ultimately have "typed_state (\<lambda>q. q) (\<lambda>q. q) ?good ?fine ?s"
    using full_keeps_protocol [OF ch _ start empty(1)] by blast
  with start acts show ?thesis by blast
qed

end
