(* ===== verification/Pi.thy ===== *)
theory Pi
  imports Demos
begin

text \<open>
  The example \<open>examples/pi.rs\<close>: a master that spawns workers, each of which throws points at the
  square and counts those in the circle, and adds up what they report. Floating point is a
  parameter, \<open>ratio hits total\<close> for \<open>4.0 * hits / total\<close>, and so is the random number generator, as
  the outcome \<open>throw i\<close> of the \<open>i\<close>-th point (inside the circle or not). The \<open>usize\<close> counters wrap
  as in the release build.
\<close>

datatype 'tx pi_message =
    Pi_Start usize usize 'tx
  | Pi_Task usize
  | Pi_Done usize usize

record 'tx pi_master =
  pi_size :: usize
  pi_hits :: usize
  pi_total :: usize
  pi_result :: "'tx option"

definition default_pi_master :: "'tx pi_master" where
  "default_pi_master = \<lparr>pi_size = 0, pi_hits = 0, pi_total = 0, pi_result = None\<rparr>"

datatype 'tx pi_actor = Pi_Master "'tx pi_master" | Pi_Worker

definition worker_id :: "nat \<Rightarrow> string" where
  "worker_id idx = ''worker-'' @ show_nat idx"

definition master_start ::
  "tag \<Rightarrow> usize \<Rightarrow> usize \<Rightarrow> 'tx \<Rightarrow> 'tx pi_master \<Rightarrow>
   ('tx pi_actor, 'tx pi_message message) call list \<times> 'tx pi_master"
where
  "master_start me workers throws result m =
     (let m1 = m\<lparr>pi_size := workers, pi_result := Some result\<rparr>
      in (concat (map (\<lambda>idx. [Spawn (worker_id idx) Pi_Worker,
                              Send (worker_id idx) (with_from (envelope_of (Opaque (Pi_Task throws))) me)])
            [0..<unat (pi_size m1)]), m1))"

definition master_done ::
  "(usize \<Rightarrow> usize \<Rightarrow> f64) \<Rightarrow> ('tx \<Rightarrow> f64 \<Rightarrow> 'io \<Rightarrow> bool \<times> 'io) \<Rightarrow> usize \<Rightarrow> usize \<Rightarrow> 'tx pi_master \<Rightarrow> 'io \<Rightarrow>
   'tx pi_master \<times> 'io \<times> bool"
where
  "master_done ratio tx_send hits thrown m io =
     (let m1 = m\<lparr>pi_size := pi_size m - 1, pi_hits := pi_hits m + hits, pi_total := pi_total m + thrown\<rparr>
      in if pi_size m1 = 0
         then case pi_result m1 of
                None \<Rightarrow> (m1, io, True)
              | Some tx \<Rightarrow> let (ok, io') = tx_send tx (ratio (pi_hits m1) (pi_total m1)) io in (m1, io', ok)
         else (m1, io, True))"

definition master_receive ::
  "(usize \<Rightarrow> usize \<Rightarrow> f64) \<Rightarrow> ('tx \<Rightarrow> f64 \<Rightarrow> 'io \<Rightarrow> bool \<times> 'io) \<Rightarrow> tag \<Rightarrow> 'tx pi_message message envelope \<Rightarrow>
   'tx pi_master \<Rightarrow> 'io \<Rightarrow> ('tx pi_actor, 'tx pi_message message) call list \<times> 'tx pi_master \<times> 'io \<times> bool"
where
  "master_receive ratio tx_send me envelope m io =
     (case env_message envelope of
        Opaque (Pi_Start workers throws result) \<Rightarrow>
          let (calls, m') = master_start me workers throws result m in (calls, m', io, True)
      | Opaque (Pi_Done hits thrown) \<Rightarrow>
          let (m', io', ok) = master_done ratio tx_send hits thrown m io in ([], m', io', ok)
      | _ \<Rightarrow> ([], m, io, True))"

text \<open>The loop over the throws, of the number of those still to come.\<close>

fun throw_points :: "(nat \<Rightarrow> bool) \<Rightarrow> nat \<Rightarrow> nat \<Rightarrow> usize \<Rightarrow> usize" where
  "throw_points throw i 0 hits = hits"
| "throw_points throw i (Suc n) hits = throw_points throw (Suc i) n (if throw i then hits + 1 else hits)"

definition worker_receive ::
  "(nat \<Rightarrow> bool) \<Rightarrow> tag \<Rightarrow> 'tx pi_message message envelope \<Rightarrow> ('tx pi_actor, 'tx pi_message message) call list"
where
  "worker_receive throw me envelope =
     (case env_message envelope of
        Opaque (Pi_Task n) \<Rightarrow>
          [Send (env_from envelope)
             (with_from (envelope_of (Opaque (Pi_Done (throw_points throw 0 (unat n) 0) n))) me),
           Stop me]
      | _ \<Rightarrow> [])"

definition pi_start ::
  "nat \<Rightarrow> ('a, 'm, 'qe, 'qa) world \<Rightarrow> ('a, 'm) remote_actors \<Rightarrow> instant \<Rightarrow> 'qe \<Rightarrow> 'qa \<Rightarrow>
   error option \<times> ('a, 'm, 'qe, 'qa) runtime_state option"
where
  "pi_start cpus W R now events actions =
     system_run (cpus + 2) (W\<lparr>w_name := ''pi'', w_host := ''localhost''\<rparr>) R default_config now events actions"

definition pi_main :: "(('tx pi_actor, 'tx pi_message message) action, 'qa) chan \<Rightarrow> 'tx \<Rightarrow> 'qa \<Rightarrow> 'qa" where
  "pi_main C tx q =
     (let q1 = run_spawn_default C (Pi_Master default_pi_master) ''master'' q;
          q2 = run_send C ''master'' (envelope_of (Opaque (Pi_Start 10000 100000 tx))) q1
      in run_shutdown C q2)"

text \<open>
  \<open>main\<close> makes a pool of two threads more than there are cores, for a default configuration that
  needs six: with fewer than four cores the start fails and \<open>unwrap\<close> panics.
\<close>

lemma pi_needs_four_cores:
  "cpus < 4 \<Longrightarrow>
   pi_start cpus W R now events actions = (Some (ThreadPoolTooSmall 6 (cpus + 2)), None)"
  by (simp add: pi_start_def system_run_def default_config_def total_threads_default)

section \<open>The master counts its workers\<close>

text \<open>A run of the master over reports; the flag says whether no send failed.\<close>

fun master_run ::
  "(usize \<Rightarrow> usize \<Rightarrow> f64) \<Rightarrow> ('tx \<Rightarrow> f64 \<Rightarrow> 'io \<Rightarrow> bool \<times> 'io) \<Rightarrow> (usize \<times> usize) list \<Rightarrow> 'tx pi_master \<Rightarrow>
   'io \<Rightarrow> 'tx pi_master \<times> 'io \<times> bool"
where
  "master_run ratio tx_send [] m io = (m, io, True)"
| "master_run ratio tx_send ((hits, thrown) # reports) m io =
     (case master_receive ratio tx_send ''master'' (envelope_of (Opaque (Pi_Done hits thrown))) m io of
        (_, m', io', ok) \<Rightarrow>
          if ok then master_run ratio tx_send reports m' io' else (m', io', False))"

lemma throw_points_count:
  "throw_points throw i n hits = hits + word_of_nat (card {j. i \<le> j \<and> j < i + n \<and> throw j})"
proof (induction n arbitrary: i hits)
  case 0
  have none: "{j. i \<le> j \<and> j < i + 0 \<and> throw j} = {}" by auto
  show ?case unfolding none by simp
next
  case (Suc n)
  have "{j. i \<le> j \<and> j < i + Suc n \<and> throw j} =
    (if throw i then insert i {j. Suc i \<le> j \<and> j < Suc i + n \<and> throw j} else {j. Suc i \<le> j \<and> j < Suc i + n \<and> throw j})"
    by (auto simp: Suc_le_eq order.order_iff_strict)
  with Suc show ?case by simp
qed

lemma worker_hits_bound:
  "unat (throw_points throw 0 (unat n) 0) \<le> unat (n :: usize)"
proof -
  have "card {j. j < unat n \<and> throw j} \<le> card {j. j < unat n}" by (rule card_mono) auto
  then have "card {j. j < unat n \<and> throw j} \<le> unat n" by simp
  moreover from this have "card {j. j < unat n \<and> throw j} < 2 ^ 64"
    using unsigned_less [of n, where 'a = nat] by simp
  ultimately show ?thesis by (simp add: throw_points_count unat_of_nat)
qed

lemma master_done_outbox:
  assumes "pi_size m = word_of_nat (Suc k)" "Suc k < 2 ^ 64" "pi_result m = Some tx"
  shows "master_done ratio outbox_send hits thrown m out =
    (m\<lparr>pi_size := word_of_nat k, pi_hits := pi_hits m + hits, pi_total := pi_total m + thrown\<rparr>,
     out @ (if k = 0 then [ratio (pi_hits m + hits) (pi_total m + thrown)] else []), True)"
proof -
  have size: "pi_size m - 1 = word_of_nat k" using assms(1) by simp
  have "(word_of_nat k :: usize) = 0 \<longleftrightarrow> k = 0"
    using assms(2) by (auto simp: word_of_nat_eq_0_iff dest: nat_dvd_not_less)
  then show ?thesis using assms(3) size by (simp add: master_done_def outbox_send_def Let_def)
qed

lemma master_run_outbox:
  assumes "length reports \<le> k" "k < 2 ^ 64" "pi_size m = word_of_nat k" "pi_result m = Some tx"
  shows "master_run ratio outbox_send reports m out =
    (m\<lparr>pi_size := word_of_nat (k - length reports), pi_hits := pi_hits m + sum_list (map fst reports),
       pi_total := pi_total m + sum_list (map snd reports)\<rparr>,
     out @ (if reports \<noteq> [] \<and> length reports = k
            then [ratio (pi_hits m + sum_list (map fst reports)) (pi_total m + sum_list (map snd reports))]
            else []), True)"
  using assms
proof (induction reports arbitrary: k m out)
  case Nil
  then show ?case by simp
next
  case (Cons report reports)
  obtain hits thrown where r: "report = (hits, thrown)" by fastforce
  from Cons.prems(1) obtain k' where k: "k = Suc k'" by (cases k) auto
  let ?m = "m\<lparr>pi_size := word_of_nat k', pi_hits := pi_hits m + hits, pi_total := pi_total m + thrown\<rparr>"
  note first = master_done_outbox [of m k' tx ratio hits thrown out]
  have len: "length reports \<le> k'" and k': "k' < 2 ^ 64" using Cons.prems k by auto
  have m: "pi_size ?m = word_of_nat k'" "pi_result ?m = Some tx" using Cons.prems(4) by simp_all
  show ?case
    using first Cons.prems Cons.IH [OF len k' m] r k len
    by (auto simp: master_receive_def envelope_of_def ac_simps)
qed

section \<open>Properties\<close>

text \<open>
  C36. The estimate of pi is one result of all the throws. The master starts \<open>workers\<close> workers and
  gives each its task; each answers the master once, with no more hits than throws, and stops;
  and in whatever order the answers come, the master sends nothing to \<open>main\<close> before the last of
  them and then one number, the ratio of the hits of all the workers to the throws of all.
\<close>

theorem pi_result_once:
  fixes throw :: "nat \<Rightarrow> nat \<Rightarrow> bool" and workers throws :: usize
  defines "task \<equiv> with_from (envelope_of (Opaque (Pi_Task throws))) ''master''"
    and "hits \<equiv> \<lambda>idx. throw_points (throw idx) 0 (unat throws) 0"
  assumes "mset order = mset [0..<unat workers]" and "workers \<noteq> 0"
  shows "\<exists>m. master_start ''master'' workers throws tx default_pi_master =
      (concat (map (\<lambda>idx. [Spawn (worker_id idx) Pi_Worker, Send (worker_id idx) task]) [0..<unat workers]), m) \<and>
    (\<forall>idx. worker_receive (throw idx) (worker_id idx) (task :: 'tx pi_message message envelope) =
        [Send ''master'' (with_from (envelope_of (Opaque (Pi_Done (hits idx) throws))) (worker_id idx)),
         Stop (worker_id idx)] \<and> unat (hits idx) \<le> unat throws) \<and>
    (\<forall>k \<le> unat workers. \<exists>m'. master_run ratio outbox_send (map (\<lambda>idx. (hits idx, throws)) (take k order)) m [] =
        (m', if k = unat workers then [ratio (\<Sum>idx < unat workers. hits idx) (workers * throws)] else [], True))"
proof -
  let ?m = "default_pi_master\<lparr>pi_size := workers, pi_result := Some tx\<rparr>"
  have len: "length order = unat workers" using assms(3) by (metis diff_zero length_upt size_mset)
  have pos: "unat workers \<noteq> 0" "unat workers < 2 ^ 64"
    using assms(4) unsigned_less [of workers, where 'a = nat] by (simp_all add: unsigned_eq_0_iff)
  have "sum_list (map f order) = (\<Sum>idx < unat workers. f idx)" for f :: "nat \<Rightarrow> usize"
    using assms(3) by (metis sum_mset_sum_list mset_map sum_list_upt atLeast_upt interv_sum_list_conv_sum_set_nat
        set_upt lessThan_atLeast0)
  then have sums: "sum_list (map hits order) = (\<Sum>idx < unat workers. hits idx)"
    "sum_list (map (\<lambda>_. throws) order) = workers * throws" by simp_all
  have run: "\<exists>m'. master_run ratio outbox_send (map (\<lambda>idx. (hits idx, throws)) (take k order)) ?m [] =
      (m', if k = unat workers then [ratio (\<Sum>idx < unat workers. hits idx) (workers * throws)] else [], True)"
    if "k \<le> unat workers" for k
    using master_run_outbox [of "map (\<lambda>idx. (hits idx, throws)) (take k order)" "unat workers" ?m tx ratio "[]"]
      that len pos sums by (auto simp: default_pi_master_def comp_def)
  show ?thesis
    using run worker_hits_bound
    by (auto simp: master_start_def task_def hits_def worker_receive_def envelope_defs)
qed

theorem pi_result_once_witness:
  "\<exists>m'. master_run (\<lambda>hits thrown. hits) outbox_send
      (map (\<lambda>idx. (throw_points (\<lambda>i. i = idx) 0 2 0, 2)) [1, 0])
      (snd (master_start ''master'' 2 2 () default_pi_master)) [] = (m', [2], True)"
proof -
  have u: "unat (2 :: usize) = 2" by simp
  have o: "mset [1, 0] = mset [0..<unat (2 :: usize)]" unfolding u by (simp add: upt_rec)
  have two: "(2 :: usize) \<noteq> 0" by simp
  have h: "throw_points (\<lambda>i. i = idx) 0 2 0 = (if idx < 2 then 1 else 0)" for idx :: nat
    by (auto simp: numeral_2_eq_2)
  from pi_result_once [OF o two, of 2 "()" "\<lambda>idx i. i = idx" "\<lambda>hits thrown. hits"]
  obtain m where "master_start ''master'' 2 2 () default_pi_master =
      (concat (map (\<lambda>idx. [Spawn (worker_id idx) Pi_Worker,
        Send (worker_id idx) (with_from (envelope_of (Opaque (Pi_Task 2))) ''master'')]) [0..<2]), m)"
    "\<And>k. k \<le> 2 \<Longrightarrow> \<exists>m'. master_run (\<lambda>hits thrown. hits) outbox_send
        (map (\<lambda>idx. (throw_points (\<lambda>i. i = idx) 0 2 0, 2)) (take k [1, 0])) m [] =
      (m', if k = 2 then [\<Sum>idx < (2 :: nat). throw_points (\<lambda>i. i = idx) 0 2 0] else [], True)"
    unfolding u by blast
  from this(1) this(2) [of 2] show ?thesis by (simp add: h numeral_2_eq_2)
qed

end
