(* ===== verification/Demos_Claims.thy ===== *)
theory Demos_Claims
  imports Demos Typing
begin

text \<open>
  The small examples: \<open>hello\<close> in the runtime, an instance of \<open>typed_actors\<close> in which \<open>main\<close> can
  receive nothing but the number it sent, and what the handlers of the others do on every message.
\<close>

section \<open>hello\<close>

definition hello_behaviour :: "sys_time \<Rightarrow> ('tx hello_state \<times> usize list, usize message) behaviour" where
  "hello_behaviour now =
     \<lparr>receive = (\<lambda>me. with_outbox (hello_receive outbox_send now me)),
      on_fail = default_on_fail, on_stop = default_on_stop\<rparr>"

text \<open>Only the number \<open>n\<close> travels, and only \<open>copy\<close> sends to \<open>main\<close>.\<close>

definition hello_good :: "usize \<Rightarrow> tag \<Rightarrow> usize message envelope \<Rightarrow> bool" where
  "hello_good n tag e \<longleftrightarrow> env_message e = Opaque n"

definition hello_fine :: "usize \<Rightarrow> tag \<Rightarrow> 'tx hello_state \<times> usize list \<Rightarrow> bool" where
  "hello_fine n tag a \<longleftrightarrow> set (snd a) \<subseteq> {n} \<and> (tag \<noteq> ''copy'' \<longrightarrow> snd a = [])"

interpretation hello: typed_actors "hello_behaviour now" "hello_good n" "hello_fine n" for now n
proof
  fix tag a e calls a' ok
  assume "hello_fine n tag (a :: 'a hello_state \<times> usize list)" "hello_good n tag e"
    "receive (hello_behaviour now) tag e a = (calls, a', ok)"
  then show "hello_fine n tag a' \<and> typed_calls (hello_good n) (hello_fine n) calls"
    by (cases "tag = ''copy''")
      (auto simp: hello_behaviour_def with_outbox_def hello_receive_def outbox_send_def hello_good_def
        hello_fine_def envelope_of_def Let_def)
qed (simp_all add: hello_behaviour_def default_on_fail_def default_on_stop_def)

lemma hello_main_receives:
  assumes "channels_ok W ce ca" "w_behaviour W = hello_behaviour now" "started W ce ca s0"
    "ca (rt_actions s0) = []" "(typed_step W ca (hello_good n) (hello_fine n))\<^sup>*\<^sup>* s0 s"
    and "actors (rt_loop s) tag = Some a" "tag \<in> active (rt_loop s)"
  shows "set (snd a) \<subseteq> {n}"
proof -
  have "typed_state ce ca (hello_good n) (hello_fine n) s0"
    using started_typed [OF assms(3,1)] assms(4) by simp
  then have "typed_state ce ca (hello_good n) (hello_fine n) s"
    using hello.typed_steps_typed [OF assms(1,2,5)] by simp
  then have "typed_cell (hello_good n) (hello_fine n) tag (cell_of (rt_loop s) tag)"
    by (simp add: typed_state_def typed_loop_def)
  moreover have "cell_of (rt_loop s) tag = Idle a" using assms(6,7) by (simp add: cell_of_def)
  ultimately show ?thesis by (simp add: hello_fine_def)
qed

section \<open>fail and stop\<close>

text \<open>An actor told no number panics, after its log line, and \<open>main\<close> is sent nothing for it.\<close>

lemma maybe_none_fails:
  assumes "env_message e = Opaque (Maybe_Message None tx)"
  shows "maybe_receive show_message tx_send now e s io =
    ([Log now (''received: '' @ show_message (Maybe_Message None tx))], s, io, False)"
  using assms by (simp add: maybe_receive_def)

text \<open>
  The actor over its messages until one fails: \<open>main\<close> is sent the numbers before the first message
  without one, in order.
\<close>

definition has_number :: "'tx maybe_message message envelope \<Rightarrow> bool" where
  "has_number e = (case env_message e of Opaque (Maybe_Message None tx) \<Rightarrow> False | _ \<Rightarrow> True)"

definition number :: "'tx maybe_message message envelope \<Rightarrow> usize list" where
  "number e = (case env_message e of Opaque (Maybe_Message (Some x) tx) \<Rightarrow> [x] | _ \<Rightarrow> [])"

lemma maybe_step:
  "\<exists>calls. with_outbox (maybe_receive show_message outbox_send now) e ((), out) =
    (calls, ((), out @ number e), has_number e)"
  by (auto simp: with_outbox_def maybe_receive_def outbox_send_def number_def has_number_def Let_def
      split: message.split maybe_message.split option.split)

lemma maybe_actor_tells:
  "fst (snd (actor_run (with_outbox (maybe_receive show_message outbox_send now)) es ((), out))) =
    ((), out @ concat (map number (takeWhile has_number es)))"
proof (induction es arbitrary: out)
  case Nil
  then show ?case by simp
next
  case (Cons e es)
  obtain calls where "with_outbox (maybe_receive show_message outbox_send now) e ((), out) =
      (calls, ((), out @ number e), has_number e)"
    using maybe_step [of show_message now e out] by blast
  moreover have "number e = []" if "\<not> has_number e"
    using that by (auto simp: has_number_def number_def split: message.splits maybe_message.splits option.splits)
  ultimately show ?case using Cons.IH [of "out @ number e"] by (auto split: prod.splits)
qed

text \<open>The actor of \<open>stop.rs\<close> does what that of \<open>fail.rs\<close> does.\<close>

lemma stop_as_fail:
  assumes "env_message e = Opaque (Stop_Message v tx)" "env_message e' = Opaque (Maybe_Message v tx)"
    and "show_stop (Stop_Message v tx) = show_maybe (Maybe_Message v tx)"
  shows "stop_receive show_stop tx_send now e s io = ([Log now msg], r) \<longleftrightarrow>
    maybe_receive show_maybe tx_send now e' s io = ([Log now msg], r)"
  using assms by (cases v) (simp_all add: stop_receive_def maybe_receive_def Let_def split_beta)

lemma stop_farewells:
  "stop_on_fail now me s = maybe_on_fail now me s" "stop_on_stop now me s = maybe_on_stop now me s"
  by (simp_all add: stop_on_fail_def maybe_on_fail_def stop_on_stop_def maybe_on_stop_def)

section \<open>ping and remote\<close>

lemma ping_answers:
  "ping_receive now me (with_from (envelope_of (Bytes PING)) from) s =
     ([Delay now from (with_from (envelope_of (Bytes PONG)) me) 1000000000], s, True)"
  "ping_receive now me (with_from (envelope_of (Bytes PONG)) from) s =
     ([Delay now from (with_from (envelope_of (Bytes PING)) me) 1000000000], s, True)"
  by (simp_all add: ping_receive_def answer_def envelope_defs from_utf8_def utf8_valid.simps PING_def PONG_def)

text \<open>A message that is not UTF-8, which any peer can send, panics the actor.\<close>

lemma ping_not_utf8:
  "from_utf8 vec = None \<Longrightarrow> env_message e = Bytes vec \<Longrightarrow>
   ping_receive now me e s = ([], s, False) \<and> remote_receive wall now me e s = ([], s, False)"
  by (simp add: ping_receive_def remote_receive_def)

end
