(* ===== verification/Mains.thy ===== *)
theory Mains
  imports Paxos Gossip Full Pi
begin

text \<open>
  The two protocol examples set up: \<open>main\<close> of \<open>examples/paxos.rs\<close> and of \<open>examples/gossip.rs\<close>. Each
  starts three systems on one pool; what it asks of them is a list of calls on each \<open>Run\<close>, here on
  the three action channels. \<open>main\<close> of the consensus example ends with the comparison of the logs
  the clients reported, \<open>paxos_ok\<close>. Starting the log crate, printing and waiting on the channel are
  not modelled: what was received is an argument.
\<close>

section \<open>Configuration\<close>

definition example_config :: "bool \<Rightarrow> string \<Rightarrow> config" where
  "example_config logging addr =
     default_config
       \<lparr>cfg_scheduler := default_scheduler_config
          \<lparr>actor_worker_threads := 1, extra_worker_threads := 0, logging_enabled := logging\<rparr>,
        cfg_remote := default_remote_config\<lparr>remote_enabled := True, listening := addr\<rparr>\<rparr>"

text \<open>Three such systems fit the pool of six threads: two threads each.\<close>

lemma example_threads: "3 * total_threads_required (cfg_scheduler (example_config logging addr)) = 6"
  by (simp add: example_config_def total_threads_required_def)

section \<open>paxos\<close>

datatype 'tx paxos_actor = Paxos_Agent paxos_agent | Paxos_Client "'tx paxos_client"

definition paxos_configs :: "config list" where
  "paxos_configs = map (example_config True) [''127.0.0.1:9001'', ''127.0.0.1:9002'', ''127.0.0.1:9003'']"

definition paxos_start ::
  "('a, 'm, 'qe, 'qa) world \<Rightarrow> ('a, 'm) remote_actors \<Rightarrow> instant \<Rightarrow> ('qe \<times> 'qa) list \<Rightarrow>
   (error option \<times> ('a, 'm, 'qe, 'qa) runtime_state option) list"
where
  "paxos_start W R now queues =
     map (\<lambda>(name, c, events, actions).
         system_run 6 (W\<lparr>w_name := name, w_host := ''localhost''\<rparr>) R c now events actions)
       (zip [''paxos-1'', ''paxos-2'', ''paxos-3''] (zip paxos_configs queues))"

definition paxos_peers :: "string list" where
  "paxos_peers = map (\<lambda>(i, port). ''node-'' @ show_nat i @ ''@127.0.0.1:'' @ show_nat port) (zip [0..<3] [9001..<9001 + 3])"

definition paxos_clients :: "(string \<times> u64) list" where
  "paxos_clients = [(''client-A'', 30), (''client-B'', 73), (''client-C'', 42)]"

definition paxos_node ::
  "(('tx paxos_actor, 'tx paxos_local message) action, 'qa) chan \<Rightarrow> string \<Rightarrow> 'qa \<Rightarrow> 'qa"
where
  "paxos_node C address q =
     (let tag = hd (split_on (CHR ''@'') address);
          q1 = run_spawn_default C (Paxos_Agent default_agent) tag q
      in run_send C tag (envelope_of (Opaque (Init paxos_peers))) q1)"

definition paxos_client_set_up ::
  "(('tx paxos_actor, 'tx paxos_local message) action, 'qa) chan \<Rightarrow> 'tx \<Rightarrow> nat \<times> string \<times> u64 \<Rightarrow> 'qa \<Rightarrow> 'qa"
where
  "paxos_client_set_up C tx client q =
     (case client of
        (idx, tag, val) \<Rightarrow>
          let q1 = run_spawn_default C (Paxos_Client default_paxos_client) tag q;
              set_up = Setup (word_of_nat (length paxos_clients)) (word_of_nat idx) val paxos_peers tx
          in run_send C tag (envelope_of (Opaque set_up)) q1)"

text \<open>The three channels after the two loops.\<close>

definition paxos_main ::
  "(('tx paxos_actor, 'tx paxos_local message) action, 'qa) chan \<Rightarrow> 'tx \<Rightarrow> 'qa list \<Rightarrow> 'qa list"
where
  "paxos_main C tx runs =
     (let nodes = map (\<lambda>(address, q). paxos_node C address q) (zip paxos_peers runs)
      in map (\<lambda>(client, q). paxos_client_set_up C tx client q) (zip (enumerate 0 paxos_clients) nodes))"

text \<open>What was received within the time, in order; the first failure ends the loop.\<close>

fun paxos_seen :: "(string \<times> u64 list) option list \<Rightarrow> u64 list set" where
  "paxos_seen [] = {}"
| "paxos_seen (None # received) = {}"
| "paxos_seen (Some (tag, log) # received) = insert log (paxos_seen received)"

definition paxos_ok :: "u64 list set \<Rightarrow> bool" where
  "paxos_ok seen \<longleftrightarrow>
     card seen = 1 \<and> (\<forall>vec \<in> seen. \<forall>x \<in> set (map snd paxos_clients). x \<in> set vec)"

text \<open>The verdict is that all reports that came are one log with all the values.\<close>

lemma paxos_ok_one_log:
  assumes "None \<notin> set received" "received \<noteq> []"
  shows "paxos_ok (paxos_seen received) \<longleftrightarrow>
    (\<exists>log. (\<forall>r \<in> set received. snd (the r) = log) \<and> {30, 73, 42} \<subseteq> set log)"
proof -
  have seen: "paxos_seen received = snd ` the ` set received"
    using assms(1)
  proof (induction received)
    case (Cons r received)
    then show ?case by (cases r) auto
  qed simp
  have one: "card (paxos_seen received) = 1 \<longleftrightarrow> (\<exists>log. paxos_seen received = {log})"
    by (simp add: card_1_singleton_iff)
  have all: "paxos_seen received = {log} \<longleftrightarrow> (\<forall>r \<in> set received. snd (the r) = log)" for log
    using assms(2) unfolding seen by (cases received) auto
  show ?thesis
  proof
    assume ok: "paxos_ok (paxos_seen received)"
    then obtain log where log: "paxos_seen received = {log}" using one by (auto simp: paxos_ok_def)
    with ok all [of log] show "\<exists>log. (\<forall>r \<in> set received. snd (the r) = log) \<and> {30, 73, 42} \<subseteq> set log"
      by (auto simp: paxos_ok_def paxos_clients_def)
  next
    assume "\<exists>log. (\<forall>r \<in> set received. snd (the r) = log) \<and> {30, 73, 42} \<subseteq> set log"
    then obtain log where "paxos_seen received = {log}" "{30, 73, 42} \<subseteq> set log" using all by blast
    then show "paxos_ok (paxos_seen received)" by (simp add: paxos_ok_def paxos_clients_def)
  qed
qed

section \<open>gossip\<close>

datatype 'tx gossip_actor = Gossip_Agent gossip_agent | Gossip_Countdown "'tx countdown"

definition gossip_configs :: "config list" where
  "gossip_configs = map (example_config False) [''127.0.0.1:9101'', ''127.0.0.1:9102'', ''127.0.0.1:9103'']"

definition gossip_start ::
  "('a, 'm, 'qe, 'qa) world \<Rightarrow> ('a, 'm) remote_actors \<Rightarrow> instant \<Rightarrow> ('qe \<times> 'qa) list \<Rightarrow>
   (error option \<times> ('a, 'm, 'qe, 'qa) runtime_state option) list"
where
  "gossip_start W R now queues =
     map (\<lambda>(name, c, events, actions).
         system_run 6 (W\<lparr>w_name := name, w_host := ''localhost''\<rparr>) R c now events actions)
       (zip [''gossip-1'', ''gossip-2'', ''gossip-3''] (zip gossip_configs queues))"

definition gossip_init :: "nat \<Rightarrow> 'tx gossip_local" where
  "gossip_init idx =
     (let horizon = 1000; tick = 100; period = 3;
          pings = (if idx = 0 then [] else [''peer-0@127.0.0.1:9101''])
      in Local_Message (Init_Peer horizon period tick pings ''countdown@127.0.0.1:9101''))"

text \<open>\<open>now\<close> is the creation of the agent, \<open>later\<close> what \<open>delay\<close> reads from the clock.\<close>

definition gossip_peer ::
  "'b bytes_mut \<Rightarrow> (('tx gossip_actor, 'tx gossip_local message) action, 'qa) chan \<Rightarrow> instant \<Rightarrow> instant \<Rightarrow>
   nat \<Rightarrow> 'qa \<Rightarrow> 'qa"
where
  "gossip_peer B C now later idx q =
     (let tag = ''peer-'' @ show_nat idx;
          q1 = run_spawn_default C (Gossip_Agent (default_gossip_agent now)) tag q;
          q2 = run_send C tag (envelope_of (Opaque (gossip_init idx))) q1;
          millis = 1000 * 5 * (1 + idx)
      in run_delay C later tag (envelope_of (Bytes (gossip_encode B Stop_Peer))) (millis * 1000000) q2)"

definition gossip_main ::
  "'b bytes_mut \<Rightarrow> (('tx gossip_actor, 'tx gossip_local message) action, 'qa) chan \<Rightarrow> 'tx \<Rightarrow>
   (nat \<Rightarrow> instant) \<Rightarrow> (nat \<Rightarrow> instant) \<Rightarrow> 'qa list \<Rightarrow> 'qa list"
where
  "gossip_main B C tx now later runs =
     (let first = run_send C ''countdown'' (envelope_of (Opaque (Countdown_Setup (word_of_nat (length runs)) tx)))
                    (run_spawn_default C (Gossip_Countdown default_countdown) ''countdown'' (hd runs));
          runs1 = runs[0 := first]
      in map (\<lambda>(idx, q). gossip_peer B C (now idx) (later idx) idx q) (enumerate 0 runs1))"

text \<open>
  The arguments of \<open>Message::Init\<close> are given in another order than its fields are read in: an
  agent set up by \<open>main\<close> ticks every 3 ms and gossips every 100 beats.
\<close>

lemma gossip_main_swaps:
  assumes "gossip_init idx = Local_Message (Init_Peer horizon tick period pings countdown)"
  shows "ga_tick (snd (on_init B me horizon tick period pings countdown a)) = 3"
    and "ga_period (snd (on_init B me horizon tick period pings countdown a)) = 100"
  using assms by (auto simp: gossip_init_def on_init_def Let_def)

section \<open>Threads\<close>

lemma system_run_starts:
  "snd (system_run pool_size W R c now events actions) \<noteq> None \<longleftrightarrow>
   total_threads_required (cfg_scheduler c) \<le> pool_size"
  by (auto simp: system_run_def split: prod.split)

lemmas start_defs = hello_start_def fail_start_def stop_start_def ping_start_def remote_start_def
  remote_start_two_def pi_start_def full_start_def paxos_start_def gossip_start_def

text \<open>
  The examples have the threads they ask for. On a machine with any number of processors the
  pool each \<open>main\<close> makes is large enough for the configuration it uses, for every one of its systems, so
  that a runtime comes into being; with one exception, \<open>pi\<close>, which starts exactly if there are
  four processors or more.
\<close>

lemma examples_have_threads:
  "snd (hello_start W R now events actions) \<noteq> None \<and> snd (fail_start W R now events actions) \<noteq> None \<and>
   snd (stop_start W R now events actions) \<noteq> None \<and> snd (ping_start cpus listen W R now events actions) \<noteq> None \<and>
   snd (remote_start cpus W R now events actions) \<noteq> None \<and>
   snd (remote_start_two cpus W R now events actions) \<noteq> None \<and>
   snd (full_start cpus W R now events actions) \<noteq> None \<and>
   list_all (\<lambda>r. snd r \<noteq> None) (paxos_start W R now queues) \<and>
   list_all (\<lambda>r. snd r \<noteq> None) (gossip_start W R now queues) \<and>
   (snd (pi_start cpus W R now events actions) \<noteq> None \<longleftrightarrow> 4 \<le> cpus)"
proof -
  have threads: "total_threads_required (cfg_scheduler (example_config logging addr)) = 2" for logging addr
    using example_threads [of logging addr] by simp
  have all: "list_all (\<lambda>r. snd r \<noteq> None)
      (map (\<lambda>(name, c, events, actions).
          system_run 6 (W\<lparr>w_name := name, w_host := ''localhost''\<rparr>) R c now events actions) (zip names (zip cs queues)))"
    if "\<forall>c \<in> set cs. total_threads_required (cfg_scheduler c) \<le> 6" for names cs
  proof -
    have "snd (system_run 6 (W\<lparr>w_name := name, w_host := ''localhost''\<rparr>) R c now events actions) \<noteq> None"
      if "(name, c, events, actions) \<in> set (zip names (zip cs queues))" for name c events actions
    proof -
      have "c \<in> set cs" using that by (metis set_zip_leftD set_zip_rightD)
      with \<open>\<forall>c \<in> set cs. total_threads_required (cfg_scheduler c) \<le> 6\<close> show ?thesis by (simp add: system_run_starts del: not_None_eq)
    qed
    then have "snd ((\<lambda>(name, c, events, actions).
          system_run 6 (W\<lparr>w_name := name, w_host := ''localhost''\<rparr>) R c now events actions) p) \<noteq> None"
      if "p \<in> set (zip names (zip cs queues))" for p
      using that by (cases p) (simp only: prod.case not_False_eq_True)
    then show ?thesis unfolding list_all_iff set_map by blast
  qed
  have "list_all (\<lambda>r. snd r \<noteq> None) (paxos_start W R now queues)"
    "list_all (\<lambda>r. snd r \<noteq> None) (gossip_start W R now queues)"
    unfolding paxos_start_def gossip_start_def by (rule all; simp add: paxos_configs_def gossip_configs_def threads)+
  then show ?thesis
    unfolding start_defs Let_def system_run_starts
    by (simp add: default_config_def total_threads_default fail_config_def stop_config_def new_config_def ping_config_def
        full_config_def total_threads_required_def with_total_threads_def default_scheduler_config_def)
qed

end
