(* ===== verification/Single_Actor.thy ===== *)
theory Single_Actor
  imports Ordering
begin

text \<open>
  From a handler to the runtime. The example actors are handlers over a state; in the runtime they
  are actors of one type, run by a behaviour that all the actors of a system share. The locale
  \<open>handled_actor\<close> says that the behaviour treats the actors of one kind, at one tag, as a handler
  does, and that failing makes them say nothing; it gives back that the life of such an actor in the
  runtime, whatever the interleaving, is the life of its handler over the messages taken for it,
  and that what the handler asked for reaches the event loop in order. What is proved of the
  handler over lists of messages then holds in the runtime.
\<close>

section \<open>The life of a handler\<close>

text \<open>A handler that fails goes on: the runtime gives the actor back as it was left.\<close>

primrec actor_life ::
  "('m envelope \<Rightarrow> 's \<Rightarrow> ('a, 'm) call list \<times> 's \<times> bool) \<Rightarrow> 'm envelope list \<Rightarrow> 's \<Rightarrow> ('a, 'm) call list \<times> 's"
where
  "actor_life turn [] s = ([], s)"
| "actor_life turn (e # es) s =
     (case turn e s of (calls, s', ok) \<Rightarrow>
        case actor_life turn es s' of (calls', s'') \<Rightarrow> (calls @ calls', s''))"

lemma actor_life_append:
  "actor_life turn (es @ es') s =
     (case actor_life turn es s of (calls, s') \<Rightarrow>
        case actor_life turn es' s' of (calls', s'') \<Rightarrow> (calls @ calls', s''))"
  by (induction es arbitrary: s) (auto split: prod.splits)

text \<open>An invariant of the handler and of what it asks for.\<close>

lemma actor_life_inv:
  assumes "actor_life turn es s = (calls, s')" "fine s"
    and "\<And>e s calls s' ok. fine s \<Longrightarrow> turn e s = (calls, s', ok) \<Longrightarrow> fine s'"
  shows "fine s'"
  using assms(1,2)
proof (induction es arbitrary: s calls)
  case (Cons e es)
  then show ?case using assms(3) by (auto split: prod.splits)
qed simp

section \<open>Actors run by a handler\<close>

locale handled_actor =
  fixes B :: "('a, 'm) behaviour" and tag :: tag and embed :: "'s \<Rightarrow> 'a"
    and turn :: "'m envelope \<Rightarrow> 's \<Rightarrow> ('a, 'm) call list \<times> 's \<times> bool"
  assumes receive_embed: "turn e s = (calls, s', ok) \<Longrightarrow> receive B tag e (embed s) = (calls, embed s', ok)"
    and on_fail_embed: "on_fail B tag (embed s) = ([], True)"
begin

lemma after_mails: "foldl (after_mail B tag) (embed s) es = embed (snd (actor_life turn es s))"
proof (induction es arbitrary: s)
  case (Cons e es)
  obtain calls s' ok where "turn e s = (calls, s', ok)" by (metis surj_pair)
  then show ?case using Cons receive_embed by (simp add: after_mail_def split: prod.split)
qed simp

lemma turns_sent_life:
  "turns_sent B tag (embed s) es = concat (map call_actions (fst (actor_life turn es s)))"
proof (induction es arbitrary: s)
  case (Cons e es)
  obtain calls s' ok where "turn e s = (calls, s', ok)" by (metis surj_pair)
  then show ?case
    using Cons [of s'] receive_embed [of e s calls s' ok] on_fail_embed
    by (simp add: turn_sent_def after_mail_def split: prod.split)
qed simp

lemma life_in_runtime:
  assumes ch: "channels_ok W ce ca" "w_behaviour W = B" and run: "started W ce ca s0" "observed W s0 acts evs s"
    and once: "rt_spawned s tag = 1" "first_spawn tag acts = Some (embed a0)"
  obtains calls a where "actor_life turn (mails tag evs) a0 = (calls, a)"
    and "\<exists>rest. mails tag evs @ rest = accepted_mail tag acts"
    and "bodies ce ca tag s \<subseteq># {#embed a#}"
    and "rt_phase s = Running \<Longrightarrow>
      \<exists>unsent. (unsent = [] \<or> (\<exists>i more l status. i < length (rt_workers s) \<and>
          rt_workers s ! i = Sending (unsent @ more) l status)) \<and>
        subseq (concat (map call_actions calls)) (acts @ ca (rt_actions s) @ unsent)"
proof -
  obtain calls a where life: "actor_life turn (mails tag evs) a0 = (calls, a)" by fastforce
  have one: "life W ce ca tag (accepted_mail tag acts) evs s (embed a0)"
    using observed_one_life [OF ch(1) run, of tag] once by (simp add: one_life_def)
  have "\<exists>rest. mails tag evs @ rest = accepted_mail tag acts" using one by (auto simp: life_def)
  moreover have "bodies ce ca tag s \<subseteq># {#embed a#}"
    using one after_mails [of a0 "mails tag evs"] life ch(2) by (simp add: life_def)
  moreover have "\<exists>unsent. (unsent = [] \<or> (\<exists>i more l status. i < length (rt_workers s) \<and>
          rt_workers s ! i = Sending (unsent @ more) l status)) \<and>
        subseq (concat (map call_actions calls)) (acts @ ca (rt_actions s) @ unsent)"
    if phase: "rt_phase s = Running"
  proof -
    have "in_order ce ca tag acts s (turns_sent (w_behaviour W) tag (embed a0) (mails tag evs))"
      using observed_in_order [OF ch(1) run phase] once by simp
    then have "in_order ce ca tag acts s (concat (map call_actions calls))"
      using life by (simp add: ch(2) turns_sent_life)
    then show ?thesis
      unfolding in_order_def reached_def sent_by_def by (metis append_Nil2)
  qed
  ultimately show ?thesis using that life by blast
qed

end

end
