(* ===== verification/Paxos_Runtime.thy ===== *)
theory Paxos_Runtime
  imports Mains Paxos_Claims Single_Actor Run_Steps
begin

text \<open>
  The consensus example in the runtime: the agents and clients of a system, and beside them the
  actors of the remote part, run by one behaviour. What is proved of an agent over a list of
  messages holds of the agent in the runtime, whatever the interleaving.
\<close>

section \<open>The behaviour of a system\<close>

text \<open>
  The actors of a system are those of the example, each with the channel to \<open>main\<close>, and the others
  with the behaviour \<open>rest\<close>: the client and the server, and its connections.
\<close>

type_synonym ('tx, 'o) paxos_member = "('tx paxos_actor \<times> (string \<times> u64 list) list) + 'o"

definition paxos_behaviour ::
  "'r bytes_buf \<Rightarrow> 'b bytes_mut \<Rightarrow> (string set \<Rightarrow> string list) \<Rightarrow> (nat \<Rightarrow> instant) \<Rightarrow>
   ('o, 'tx paxos_local message) behaviour \<Rightarrow> (('tx, 'o) paxos_member, 'tx paxos_local message) behaviour"
where
  "paxos_behaviour R B iter clock rest =
     \<lparr>receive = (\<lambda>me e member. case member of
          Inl (Paxos_Agent a, out) \<Rightarrow>
            (case agent_receive R B iter clock me e a of
               (calls, a', ok) \<Rightarrow> (calls, Inl (Paxos_Agent a', out), ok))
        | Inl (Paxos_Client c, out) \<Rightarrow>
            (case paxos_client_receive R B outbox_send me e c out of
               (calls, c', out', ok) \<Rightarrow> (calls, Inl (Paxos_Client c', out'), ok))
        | Inr x \<Rightarrow> (case receive rest me e x of (calls, x', ok) \<Rightarrow> (map (map_call Inr) calls, Inr x', ok))),
      on_fail = (\<lambda>me member. case member of
          Inl a \<Rightarrow> default_on_fail me member
        | Inr x \<Rightarrow> (case on_fail rest me x of (calls, ok) \<Rightarrow> (map (map_call Inr) calls, ok))),
      on_stop = (\<lambda>me member. case member of
          Inl a \<Rightarrow> default_on_stop me member
        | Inr x \<Rightarrow> (case on_stop rest me x of (calls, ok) \<Rightarrow> (map (map_call Inr) calls, ok)))\<rparr>"

interpretation paxos_agent: handled_actor "paxos_behaviour R B iter clock rest" tag
    "\<lambda>a. Inl (Paxos_Agent a, out)" "agent_receive R B iter clock tag"
  for R B iter clock rest tag out
  by unfold_locales (simp_all add: paxos_behaviour_def default_on_fail_def)

interpretation paxos_asker: handled_actor "paxos_behaviour R B iter clock rest" tag
    "\<lambda>(c, out). Inl (Paxos_Client c, out)"
    "\<lambda>e (c, out). case paxos_client_receive R B outbox_send tag e c out of (calls, c', out', ok) \<Rightarrow> (calls, (c', out'), ok)"
  for R B iter clock rest tag
  by unfold_locales (auto simp: paxos_behaviour_def default_on_fail_def split: prod.splits)

section \<open>What an agent promises\<close>

text \<open>The message of the protocol in an envelope, if there is one.\<close>

definition protocol_message :: "'r bytes_buf \<Rightarrow> 'tx paxos_local message envelope \<Rightarrow> paxos_message option" where
  "protocol_message R e =
     (case env_message e of
        Bytes buf \<Rightarrow> (case paxos_decode R buf of Ret m \<Rightarrow> Some m | Panic \<Rightarrow> None)
      | _ \<Rightarrow> None)"

text \<open>The numbers that an agent promises among the actions sent: its messages are delayed ones.\<close>

definition promised_by ::
  "'r bytes_buf \<Rightarrow> tag \<Rightarrow> ('a, 'tx paxos_local message) action list \<Rightarrow> u64 list"
where
  "promised_by R me acts =
     concat (map (\<lambda>act. case act of
         Act_Delay d \<Rightarrow>
           (if env_from (entry_envelope d) = me
            then (case protocol_message R (entry_envelope d) of Some (Promise seq) \<Rightarrow> [seq] | _ \<Rightarrow> [])
            else [])
       | _ \<Rightarrow> []) acts)"

text \<open>No decision it hears is behind its own number.\<close>

primrec hears_no_stale ::
  "'r bytes_buf \<Rightarrow> ('tx paxos_local message envelope \<Rightarrow> paxos_agent \<Rightarrow>
     ('a, 'tx paxos_local message) call list \<times> paxos_agent \<times> bool) \<Rightarrow>
   'tx paxos_local message envelope list \<Rightarrow> paxos_agent \<Rightarrow> bool"
where
  "hears_no_stale R turn [] a = True"
| "hears_no_stale R turn (e # es) a =
     ((case protocol_message R e of Some (Selected seq val) \<Rightarrow> pa_seq a \<le> seq | _ \<Rightarrow> True) \<and>
      hears_no_stale R turn es (fst (snd (turn e a))))"

lemma promised_by_simps [simp]:
  "promised_by R me [] = []" "promised_by R me (xs @ ys) = promised_by R me xs @ promised_by R me ys"
  by (simp_all add: promised_by_def)

lemma subseq_promised_by: "subseq xs ys \<Longrightarrow> subseq (promised_by R me xs) (promised_by R me ys)"
proof (induction rule: list_emb.induct)
  case (list_emb_Nil ys)
  then show ?case by simp
next
  case (list_emb_Cons xs ys y)
  then show ?case by (simp add: promised_by_def subseq_drop_many)
next
  case (list_emb_Cons2 x y xs ys)
  then show ?case by (simp add: promised_by_def list_emb_append_mono)
qed

lemma promised_by_delays:
  assumes "big_endian_writer B written" "big_endian_reader R remaining"
  shows "promised_by R me (concat (map call_actions (agent_delays B clock me outs))) = promises outs"
proof -
  have one: "promised_by R me (call_actions (Delay now to
      (with_from (with_to (envelope_of (Bytes (paxos_encode B m))) to) me) d)) = promises [(to, m)]" for now to m d
    using big_endian_reader.paxos_decode_wire [OF assms(2), of m "[]"]
    by (cases m) (simp_all add: promised_by_def protocol_message_def envelope_defs adjust_remote_address_def
        paxos_encode_wire [OF assms(1)])
  have "promised_by R me (concat (map call_actions (map (\<lambda>(i, target, msg).
       Delay (clock i) target (with_from (with_to (envelope_of (Bytes (paxos_encode B msg))) target) me) SEND_DELAY)
     (enumerate n outs)))) = promises outs" for n
  proof (induction outs arbitrary: n)
    case (Cons x outs)
    obtain to m where x: "x = (to, m)" by fastforce
    show ?case using Cons [of "Suc n"] one [of "clock n" to m] by (simp add: x del: call_actions.simps)
  qed simp
  then show ?thesis unfolding agent_delays_def .
qed

text \<open>One turn, then the whole life.\<close>

lemma agent_turn_promises:
  assumes "big_endian_writer B written" "big_endian_reader R remaining"
    and "agent_receive R B iter clock me e a = (calls, a', ok)"
    and "case protocol_message R e of Some (Selected seq val) \<Rightarrow> pa_seq a \<le> seq | _ \<Rightarrow> True"
  shows "pa_seq a \<le> pa_seq a'"
    and "promised_by R me (concat (map call_actions calls)) \<in> {[], [pa_seq a']}"
    and "promised_by R me (concat (map call_actions calls)) = [pa_seq a'] \<Longrightarrow> pa_seq a < pa_seq a'"
proof -
  have "pa_seq a \<le> pa_seq a' \<and> (promised_by R me (concat (map call_actions calls)) = [] \<or>
      promised_by R me (concat (map call_actions calls)) = [pa_seq a'] \<and> pa_seq a < pa_seq a')"
  proof (cases "protocol_message R e")
    case None
    then show ?thesis
      using assms(3) by (auto simp: agent_receive_def protocol_message_def split: message.splits outcome.splits paxos_local.splits)
  next
    case (Some m)
    obtain outs b where h: "agent_handle iter m (env_from e) a = (outs, b)" by fastforce
    with Some assms(3) have "calls = agent_delays B clock me outs" "a' = b"
      by (auto simp: agent_receive_def protocol_message_def split: message.splits outcome.splits paxos_local.splits)
    with handle_promise(1,2) [OF h] assms(4) Some show ?thesis by (auto simp: promised_by_delays [OF assms(1,2)])
  qed
  then show "pa_seq a \<le> pa_seq a'"
    "promised_by R me (concat (map call_actions calls)) \<in> {[], [pa_seq a']}"
    "promised_by R me (concat (map call_actions calls)) = [pa_seq a'] \<Longrightarrow> pa_seq a < pa_seq a'"
    by auto
qed

lemma agent_life_promises:
  fixes calls :: "('a, 'tx paxos_local message) call list" and B :: "'b bytes_mut" and R :: "'r bytes_buf"
  assumes turn: "turn = agent_receive R B iter clock me" and codec: "big_endian_writer B written" "big_endian_reader R remaining"
    and "actor_life turn es a = (calls, a')"
    and "hears_no_stale R turn es a"
  shows "pa_seq a \<le> pa_seq a' \<and> sorted_wrt (<) (pa_seq a # promised_by R me (concat (map call_actions calls))) \<and>
    (\<forall>seq \<in> set (promised_by R me (concat (map call_actions calls))). seq \<le> pa_seq a')"
  using assms(4,5)
proof (induction es arbitrary: a calls)
  case Nil
  then show ?case by simp
next
  case (Cons e es)
  obtain calls1 a1 ok where one: "turn e a = (calls1, a1, ok)" by (metis surj_pair)
  obtain calls2 where rest: "actor_life turn es a1 = (calls2, a')" "calls = calls1 @ calls2"
    using Cons.prems(1) one by (auto split: prod.splits)
  have fresh: "case protocol_message R e of Some (Selected seq val) \<Rightarrow> pa_seq a \<le> seq | _ \<Rightarrow> True"
    and "hears_no_stale R turn es a1"
    using Cons.prems(2) one by simp_all
  note IH = Cons.IH [OF rest(1) this(2)] and step = agent_turn_promises [OF codec one [unfolded turn] fresh]
  show ?case
    using IH step rest(2) by (auto intro: order_trans order.strict_trans1)
qed

section \<open>An agent in the runtime\<close>

text \<open>
  C28. An agent keeps its promises in the runtime. Take any run of a system of the consensus example
  (whatever the interleaving of its threads, its workers and the callers of \<open>Run\<close>, whatever the
  actors of the remote part do), and a tag that was accepted once, for an agent. While none of the
  decisions it has taken was behind its own number, the agent is wherever it is (at rest, in an event
  or in a worker's hands) in the state its handler leaves after the messages taken for it; the numbers it has
  promised increase strictly, from the number it began with to the one it has now, so it never promises
  one number to two proposers; and all of these promises, in this order, are among the
  delayed messages that the event loop has taken, that are in its channel, or that one worker is
  still to send.
\<close>

theorem agent_keeps_promises:
  fixes W :: "(('tx, 'o) paxos_member, 'tx paxos_local message, 'qe, 'qa) world"
  assumes "big_endian_writer B written" "big_endian_reader R remaining"
    and "channels_ok W ce ca" "w_behaviour W = paxos_behaviour R B iter clock rest"
    and "started W ce ca s0" "observed W s0 acts evs s" "rt_phase s = Running"
    and "rt_spawned s tag = 1" "first_spawn tag acts = Some (Inl (Paxos_Agent a0, out))"
    and turn: "turn = agent_receive R B iter clock tag" "hears_no_stale R turn (mails tag evs) a0"
  shows "\<exists>(calls :: (('tx, 'o) paxos_member, 'tx paxos_local message) call list) a seqs unsent.
    actor_life turn (mails tag evs) a0 = (calls, a) \<and>
    bodies ce ca tag s \<subseteq># {#Inl (Paxos_Agent a, out)#} \<and>
    seqs = promised_by R tag (concat (map call_actions calls)) \<and>
    sorted_wrt (<) (pa_seq a0 # seqs) \<and> (\<forall>seq \<in> set seqs. seq \<le> pa_seq a) \<and>
    subseq seqs (promised_by R tag (acts @ ca (rt_actions s) @ unsent)) \<and>
    (unsent = [] \<or> (\<exists>i rest' l status. i < length (rt_workers s) \<and>
       rt_workers s ! i = Sending (unsent @ rest') l status))"
proof -
  obtain calls a where life: "actor_life turn (mails tag evs) a0 = (calls, a)"
    and body: "bodies ce ca tag s \<subseteq># {#Inl (Paxos_Agent a, out)#}"
    and sent: "\<exists>unsent. (unsent = [] \<or> (\<exists>i more l status. i < length (rt_workers s) \<and>
          rt_workers s ! i = Sending (unsent @ more) l status)) \<and>
        subseq (concat (map call_actions calls)) (acts @ ca (rt_actions s) @ unsent)"
    using paxos_agent.life_in_runtime [OF assms(3-6,8,9), folded turn(1)] assms(7) by metis
  from sent obtain unsent where both: "(unsent = [] \<or> (\<exists>i more l status. i < length (rt_workers s) \<and>
          rt_workers s ! i = Sending (unsent @ more) l status)) \<and>
        subseq (concat (map call_actions calls)) (acts @ ca (rt_actions s) @ unsent)" ..
  note unsent = both [THEN conjunct1] and sub = both [THEN conjunct2]
  have "subseq (promised_by R tag (concat (map call_actions calls))) (promised_by R tag (acts @ ca (rt_actions s) @ unsent))"
    using sub by (rule subseq_promised_by)
  with agent_life_promises [OF turn(1) assms(1,2) life turn(2)] life body unsent show ?thesis
    by (intro exI [of _ calls] exI [of _ a] exI [of _ "promised_by R tag (concat (map call_actions calls))"]
        exI [of _ unsent]) simp
qed

definition still :: "(unit, 'm) behaviour" where
  "still = \<lparr>receive = (\<lambda>me e a. ([], a, True)), on_fail = default_on_fail, on_stop = default_on_stop\<rparr>"

type_synonym demo_member = "(unit, unit) paxos_member"
type_synonym demo_mail = "unit paxos_local message"

definition paxos_world :: "(demo_member, demo_mail, (demo_member, demo_mail) event list, (demo_member, demo_mail) action list) world" where
  "paxos_world =
     \<lparr>w_behaviour = paxos_behaviour list_reader list_writer sorted_list_of_set (\<lambda>i. 0) still, w_event_chan = list_chan,
      w_action_chan = list_chan, w_clock = (\<lambda>rd. True), w_name = ''paxos-1'', w_host = ''localhost''\<rparr>"

definition prepare_mail :: "u64 \<Rightarrow> demo_mail envelope" where
  "prepare_mail seq = with_from (envelope_of (Bytes (paxos_encode list_writer (Prepare seq)))) ''p''"

theorem agent_keeps_promises_witness:
  "\<exists>s0 acts evs s calls a seqs. started paxos_world (\<lambda>q. q) (\<lambda>q. q) s0 \<and> observed paxos_world s0 acts evs s \<and>
    mails ''n'' evs = [prepare_mail 5] \<and>
    actor_life (agent_receive list_reader list_writer sorted_list_of_set (\<lambda>i. 0) ''n'') (mails ''n'' evs) default_agent =
      (calls :: (demo_member, demo_mail) call list, a) \<and>
    seqs = promised_by list_reader ''n'' (concat (map call_actions calls)) \<and> seqs = [5] \<and>
    sorted_wrt (<) (0 # seqs) \<and> bodies (\<lambda>q. q) (\<lambda>q. q) ''n'' s \<subseteq># {#Inl (Paxos_Agent a, [])#}"
proof -
  let ?turn = "agent_receive list_reader list_writer sorted_list_of_set (\<lambda>i. 0) ''n'' ::
    demo_mail envelope \<Rightarrow> paxos_agent \<Rightarrow> (demo_member, demo_mail) call list \<times> paxos_agent \<times> bool"
  let ?n = "Inl (Paxos_Agent default_agent, []) :: demo_member"
  let ?mail = "prepare_mail 5"
  let ?calls = "agent_delays list_writer (\<lambda>i. 0) ''n'' [(''p'', Promise 5)] :: (demo_member, demo_mail) call list"
  let ?start = "start_actor_runtime ''paxos-1'' (cfg_scheduler fail_config) 0 [] []
    :: (demo_member, demo_mail, (demo_member, demo_mail) event list, (demo_member, demo_mail) action list) runtime_state"
  let ?R = "\<lparr>new_server_actor = (\<lambda>addr c. Inl (InvalidServerAddress addr)), new_client_actor = (\<lambda>port c. Inr ()),
    server_loop_msg = Opaque (Init []), client_loop_msg = Opaque (Init [])\<rparr> :: (demo_member, demo_mail) remote_actors"
  have W: "list_world paxos_world \<lparr>rd_now = 0, rd_elapsed = 0, rd_system = 0, rd_restart = 0\<rparr>"
    by (simp add: list_world_def paxos_world_def)
  note ch = list_world_channels [OF W]
  have B: "w_behaviour paxos_world = paxos_behaviour list_reader list_writer sorted_list_of_set (\<lambda>i. 0) still"
    by (simp add: paxos_world_def)
  have "system_run 6 paxos_world ?R fail_config 0 [] [] = (None, Some ?start)"
    by (simp add: system_run_def runtime_start_def fail_config_def new_config_def total_threads_required_def
        default_scheduler_config_def default_remote_config_def paxos_world_def)
  then have start: "started paxos_world (\<lambda>q. q) (\<lambda>q. q) ?start" unfolding started_def by blast
  let ?ws = "replicate 4 (Waiting local_new) :: (demo_member, demo_mail) worker list"
  have alive: "\<exists>w \<in> set ?ws. w \<noteq> Gone" by simp
  have "run_at paxos_world ?start ''n'' [] [] (\<lambda>_. Absent) [] ?ws 0 ?start"
    using run_at_start [of "cfg_scheduler fail_config" ?start "''paxos-1''" 0 paxos_world "''n''"]
    by (simp add: fail_config_def new_config_def default_scheduler_config_def)
  from run_spawns [OF W this alive, of "''n''" ?n] obtain s1 where
    s1: "run_at paxos_world ?start ''n'' [Act_Spawn ''n'' ?n] [] ((\<lambda>_. Absent)(''n'' := Idle ?n)) [] ?ws 1 s1"
    by (auto simp: cells_step_def)
  from run_sends [OF W this alive, of "''n''" ?mail] obtain s2 where
    s2: "run_at paxos_world ?start ''n'' [Act_Spawn ''n'' ?n, Act_Queue ''n'' ?mail] []
      ((\<lambda>_. Absent)(''n'' := Busy [])) [Ev_Mail ''n'' ?n ?mail] ?ws 1 s2"
    by (auto simp: cells_step_def)
  obtain l status where turn: "worker_turn (w_behaviour paxos_world) (Ev_Mail ''n'' ?n ?mail) (local_new\<lparr>local_tx := []\<rparr>) = (l, status)"
    by fastforce
  from run_takes [OF W s2 _ _ turn, of 0] obtain s where
    s: "run_at paxos_world ?start ''n'' [Act_Spawn ''n'' ?n, Act_Queue ''n'' ?mail] [Ev_Mail ''n'' ?n ?mail]
      ((\<lambda>_. Absent)(''n'' := Busy [])) [] (?ws[0 := Sending (local_tx l) (l\<lparr>local_tx := []\<rparr>) status]) 1 s"
    by (auto simp: local_new_def)
  let ?acts = "[Act_Spawn ''n'' ?n, Act_Queue ''n'' ?mail]" and ?evs = "[Ev_Mail ''n'' ?n ?mail]"
  have o: "observed paxos_world ?start ?acts ?evs s" "rt_phase s = Running" "rt_spawned s ''n'' = 1"
    using s by (simp_all add: run_at_def)
  have one: "?turn ?mail default_agent = (?calls, default_agent\<lparr>pa_seq := 5\<rparr>, True)"
    by (rule agent_receive_encoded [OF list_writer.big_endian_writer_axioms list_reader.big_endian_reader_axioms, of _ "Prepare 5"])
      (simp_all add: prepare_mail_def envelope_defs default_agent_def)
  then have life: "actor_life ?turn (mails ''n'' ?evs) default_agent = (?calls, default_agent\<lparr>pa_seq := 5\<rparr>)" by simp
  have "protocol_message list_reader ?mail = Some (Prepare 5)"
    using big_endian_reader.paxos_decode_wire [OF list_reader.big_endian_reader_axioms, of "Prepare 5" "[]"]
    by (simp add: protocol_message_def prepare_mail_def envelope_defs paxos_encode_wire [OF list_writer.big_endian_writer_axioms])
  then have fresh: "hears_no_stale list_reader ?turn (mails ''n'' ?evs) default_agent" by simp
  have first: "first_spawn ''n'' ?acts = Some (Inl (Paxos_Agent default_agent, []))" by (simp add: spawned_actor_def)
  have "promised_by list_reader ''n'' (concat (map call_actions ?calls)) = [5]"
    by (simp add: promised_by_delays [OF list_writer.big_endian_writer_axioms list_reader.big_endian_reader_axioms])
  with agent_keeps_promises [OF list_writer.big_endian_writer_axioms list_reader.big_endian_reader_axioms ch B start o(1-3)
      first refl fresh] life start o(1)
  show ?thesis by (intro exI [of _ ?start] exI [of _ ?acts] exI [of _ ?evs] exI [of _ s]) auto
qed

end
