(* ===== verification/Gossip_Runtime.thy ===== *)
theory Gossip_Runtime
  imports Mains Gossip_Claims Single_Actor
begin

text \<open>
  The membership example in the runtime: agents, the countdown and the actors of the remote part,
  run by one behaviour. An agent's heart beats once for every tick it has taken, it sends itself one tick for
  every one it takes and one for every set-up, and it knows every peer once; the countdown
  tells \<open>main\<close> once, with the last of the messages it waits for.
\<close>

section \<open>The behaviour of a system\<close>

text \<open>The outside of the countdown is how often \<open>main\<close> has been told.\<close>

type_synonym ('tx, 'o) gossip_member = "('tx gossip_actor \<times> nat) + 'o"

definition count_send :: "'tx \<Rightarrow> nat \<Rightarrow> bool \<times> nat" where
  "count_send tx n = (True, Suc n)"

definition gossip_behaviour ::
  "'r bytes_buf \<Rightarrow> 'b bytes_mut \<Rightarrow> instant \<Rightarrow> instant \<Rightarrow> ('o, 'tx gossip_local message) behaviour \<Rightarrow>
   (('tx, 'o) gossip_member, 'tx gossip_local message) behaviour"
where
  "gossip_behaviour R B now now' rest =
     \<lparr>receive = (\<lambda>me e member. case member of
          Inl (Gossip_Agent a, reports) \<Rightarrow>
            (case gossip_receive R B now now' me e a of
               (calls, a', ok) \<Rightarrow> (calls, Inl (Gossip_Agent a', reports), ok))
        | Inl (Gossip_Countdown c, reports) \<Rightarrow>
            (case countdown_receive count_send me e c reports of
               (calls, c', reports', ok) \<Rightarrow> (calls, Inl (Gossip_Countdown c', reports'), ok))
        | Inr x \<Rightarrow> (case receive rest me e x of (calls, x', ok) \<Rightarrow> (map (map_call Inr) calls, Inr x', ok))),
      on_fail = (\<lambda>me member. case member of
          Inl a \<Rightarrow> default_on_fail me member
        | Inr x \<Rightarrow> (case on_fail rest me x of (calls, ok) \<Rightarrow> (map (map_call Inr) calls, ok))),
      on_stop = (\<lambda>me member. case member of
          Inl a \<Rightarrow> default_on_stop me member
        | Inr x \<Rightarrow> (case on_stop rest me x of (calls, ok) \<Rightarrow> (map (map_call Inr) calls, ok)))\<rparr>"

definition countdown_turn ::
  "tag \<Rightarrow> 'tx gossip_local message envelope \<Rightarrow> 'tx countdown \<times> nat \<Rightarrow>
   ('a, 'tx gossip_local message) call list \<times> ('tx countdown \<times> nat) \<times> bool"
where
  "countdown_turn me e s =
     (case countdown_receive count_send me e (fst s) (snd s) of (calls, c, reports, ok) \<Rightarrow> (calls, (c, reports), ok))"

interpretation gossip_peer: handled_actor "gossip_behaviour R B now now' rest" tag
    "\<lambda>a. Inl (Gossip_Agent a, reports)" "gossip_receive R B now now' tag"
  for R B now now' rest tag reports
  by unfold_locales (simp_all add: gossip_behaviour_def default_on_fail_def)

interpretation gossip_countdown: handled_actor "gossip_behaviour R B now now' rest" tag
    "\<lambda>s. Inl (Gossip_Countdown (fst s), snd s)" "countdown_turn tag"
  for R B now now' rest tag
  by unfold_locales (auto simp: gossip_behaviour_def countdown_turn_def default_on_fail_def split: prod.splits)

section \<open>The heart of an agent\<close>

definition is_tick :: "'tx gossip_local message envelope \<Rightarrow> bool" where
  "is_tick e \<longleftrightarrow> env_message e = Opaque (Local_Message gossip_message.Tick)"

definition is_init :: "'tx gossip_local message envelope \<Rightarrow> bool" where
  "is_init e \<longleftrightarrow> (\<exists>h t p ps c. env_message e = Opaque (Local_Message (Init_Peer h t p ps c)))"

text \<open>The ticks among the actions sent.\<close>

definition ticks_for :: "tag \<Rightarrow> ('a, 'tx gossip_local message) action list \<Rightarrow> nat" where
  "ticks_for me acts =
     length (filter (\<lambda>act. case act of Act_Delay d \<Rightarrow> entry_tag d = me \<and> is_tick (entry_envelope d)
       | Act_Queue tag e \<Rightarrow> tag = me \<and> is_tick e | _ \<Rightarrow> False) acts)"

definition known_once :: "gossip_agent \<Rightarrow> bool" where
  "known_once a \<longleftrightarrow> distinct (map peer_tag (ga_peers a))"

lemma ticks_for_simps [simp]:
  "ticks_for me [] = 0" "ticks_for me (xs @ ys) = ticks_for me xs + ticks_for me ys"
  "ticks_for me (act # acts) = ticks_for me [act] + ticks_for me acts"
  by (simp_all add: ticks_for_def)

lemma ticks_for_send [simp]:
  "ticks_for me (call_actions (Send to (with_from (envelope_of (Bytes bs)) from))) = 0"
  "ticks_for me (call_actions (Send to (envelope_of (Bytes bs)))) = 0"
  by (simp_all add: ticks_for_def is_tick_def envelope_defs adjust_remote_address_def)

lemma ticks_for_concat [simp]: "ticks_for me (concat accs) = sum_list (map (ticks_for me) accs)"
  by (induction accs) (simp_all del: ticks_for_simps(3))

definition keeps_up :: "gossip_agent \<Rightarrow> gossip_agent \<Rightarrow> bool" where
  "keeps_up a a' \<longleftrightarrow> ga_beat a' = ga_beat a \<and> (known_once a \<longrightarrow> known_once a') \<and> ga_down a \<subseteq> ga_down a'"

lemma keeps_up_refl [simp]: "keeps_up a a"
  by (simp add: keeps_up_def)

lemma keeps_up_trans: "keeps_up a b \<Longrightarrow> keeps_up b c \<Longrightarrow> keeps_up a c"
  by (auto simp: keeps_up_def)

lemma accept_one_keeps: "accept_one time pair a = (events, a') \<Longrightarrow> keeps_up a a'"
  using update_peer_None [of time "fst pair" "snd pair" "ga_peers a"] update_peer_Some [of time "fst pair" "snd pair" "ga_peers a"]
  by (auto simp: accept_one_def keeps_up_def known_once_def tags_of_def split: prod.splits if_splits option.splits)

lemma accept_all_keeps: "accept_all time pairs a = (events, a') \<Longrightarrow> keeps_up a a'"
proof (induction pairs arbitrary: a events)
  case Nil
  then show ?case by (simp add: keeps_up_def)
next
  case (Cons pair pairs)
  then show ?case by (auto split: prod.splits intro: keeps_up_trans dest: accept_one_keeps)
qed

lemma detect_keeps: "keeps_up a (snd (detect time a))"
  using detect_outs(3) [of time a "fst (detect time a)" "snd (detect time a)"]
  by (simp add: keeps_up_def known_once_def)

lemma accept_keeps: "keeps_up a (snd (accept time pairs a))"
proof -
  obtain ev a1 where one: "accept_all time pairs a = (ev, a1)" by fastforce
  then have "snd (accept time pairs a) = snd (detect time a1)" by (simp add: accept_def split_beta)
  with keeps_up_trans [OF accept_all_keeps [OF one] detect_keeps] show ?thesis by simp
qed

lemma on_message_keeps:
  assumes "on_message B time me from message a = (calls, a')"
  shows "keeps_up a a'" "ticks_for me (concat (map call_actions calls)) = 0"
proof -
  have tag: "keeps_up (a\<lparr>ga_tag := t\<rparr>) b \<Longrightarrow> keeps_up a b" "keeps_up a (a\<lparr>ga_tag := t\<rparr>)" for t b
    by (simp_all add: keeps_up_def known_once_def)
  show "keeps_up a a'"
    using assms
    by (cases message) (auto simp: on_message_def Let_def split: if_splits intro: tag accept_keeps tag(1) [OF accept_keeps])
  show "ticks_for me (concat (map call_actions calls)) = 0"
    using assms by (cases message) (auto simp: on_message_def Let_def ticks_for_def is_tick_def envelope_defs
        adjust_remote_address_def split: if_splits)
qed

lemma on_tick_keeps:
  assumes "on_tick B time now' me a = (calls, a')" "CHR ''@'' \<notin> set me"
  shows "keeps_up (a\<lparr>ga_beat := ga_beat a + 1\<rparr>) a'" "ticks_for me (concat (map call_actions calls)) = 1"
proof -
  have one: "ticks_for me (call_actions (Delay now' me (envelope_of (Opaque (Local_Message gossip_message.Tick))) d)) = 1" for d
    using assms(2) by (simp add: ticks_for_def is_tick_def envelope_of_def)
  show "keeps_up (a\<lparr>ga_beat := ga_beat a + 1\<rparr>) a'"
    using assms(1) detect_keeps [of "a\<lparr>ga_beat := ga_beat a + 1\<rparr>" time]
    by (auto simp: on_tick_def Let_def keeps_up_def split: if_splits)
  show "ticks_for me (concat (map call_actions calls)) = 1"
    using assms(1) one
    by (auto simp: on_tick_def Let_def o_def sum_list_triv simp del: call_actions.simps split: if_splits)
qed

lemma on_init_keeps:
  assumes "on_init B me horizon tick period pings countdown a = (calls, a')" "CHR ''@'' \<notin> set me"
  shows "keeps_up a a'" "ticks_for me (concat (map call_actions calls)) = 1"
proof -
  have one: "ticks_for me (call_actions (Send me (envelope_of (Opaque (Local_Message gossip_message.Tick))))) = 1"
    using assms(2) by (simp add: ticks_for_def is_tick_def envelope_of_def)
  show "keeps_up a a'" using assms(1) by (auto simp: on_init_def Let_def keeps_up_def known_once_def)
  show "ticks_for me (concat (map call_actions calls)) = 1"
    using assms(1) one by (auto simp: on_init_def Let_def o_def simp del: call_actions.simps)
qed

text \<open>One turn, then the whole life.\<close>

lemma gossip_turn:
  fixes calls :: "('a, 'tx gossip_local message) call list"
  assumes "gossip_receive R B now now' me e a = (calls, a', ok)" "CHR ''@'' \<notin> set me"
  shows "keeps_up (a\<lparr>ga_beat := ga_beat a + (if is_tick e then 1 else 0)\<rparr>) a' \<and>
    ticks_for me (concat (map call_actions calls)) = (if is_tick e \<or> is_init e then 1 else 0)"
proof -
  let ?time = "elapsed_millis (ga_zero a) now"
  consider bs m where "env_message e = Bytes bs" "gossip_decode R bs = Ret m"
    | "env_message e = Opaque (Local_Message gossip_message.Tick)"
    | h t p ps c where "env_message e = Opaque (Local_Message (Init_Peer h t p ps c))"
    | "calls = []" "a' = a" "\<not> is_tick e" "\<not> is_init e"
    using assms(1)
    by (auto simp: gossip_receive_def is_tick_def is_init_def Let_def
        split: message.splits outcome.splits gossip_local.splits gossip_message.splits prod.splits)
  then show ?thesis
  proof cases
    case 1
    obtain calls' :: "('a, 'tx gossip_local message) call list" and b where m: "on_message B ?time me (env_from e) m a = (calls', b)" by fastforce
    with 1 assms(1) have "calls = calls'" "a' = b" by (simp_all add: gossip_receive_def Let_def)
    with on_message_keeps [OF m] 1 show ?thesis by (simp add: is_tick_def is_init_def)
  next
    case 2
    obtain calls' :: "('a, 'tx gossip_local message) call list" and b where m: "on_tick B ?time now' me a = (calls', b)" by fastforce
    with 2 assms(1) have "calls = calls'" "a' = b" by (simp_all add: gossip_receive_def Let_def)
    with on_tick_keeps [OF m assms(2)] 2 show ?thesis by (simp add: is_tick_def)
  next
    case 3
    obtain calls' :: "('a, 'tx gossip_local message) call list" and b where m: "on_init B me h t p ps c a = (calls', b)" by fastforce
    with 3 assms(1) have "calls = calls'" "a' = b" by (simp_all add: gossip_receive_def Let_def)
    with on_init_keeps [OF m assms(2)] 3 show ?thesis by (simp add: is_tick_def is_init_def)
  next
    case 4
    then show ?thesis by simp
  qed
qed

lemma gossip_life:
  fixes calls :: "('a, 'tx gossip_local message) call list"
  assumes "turn = gossip_receive R B now now' me" "CHR ''@'' \<notin> set me" "actor_life turn es a = (calls, a')"
  shows "ga_beat a' = ga_beat a + word_of_nat (length (filter is_tick es)) \<and> (known_once a \<longrightarrow> known_once a') \<and>
    ga_down a \<subseteq> ga_down a' \<and>
    ticks_for me (concat (map call_actions calls)) = length (filter is_tick es) + length (filter is_init es)"
  using assms(3)
proof (induction es arbitrary: a calls)
  case Nil
  then show ?case by simp
next
  case (Cons e es)
  obtain calls1 a1 ok where one: "turn e a = (calls1, a1, ok)" by (metis surj_pair)
  obtain calls2 where rest: "actor_life turn es a1 = (calls2, a')" "calls = calls1 @ calls2"
    using Cons.prems one by (auto split: prod.splits)
  have never: "\<not> (is_tick e \<and> is_init e)" by (auto simp: is_tick_def is_init_def)
  from Cons.IH [OF rest(1)] gossip_turn [OF one [unfolded assms(1)] assms(2)] rest(2) never
  show ?case by (auto simp: keeps_up_def known_once_def ac_simps)
qed

section \<open>The countdown\<close>

definition is_report :: "'tx gossip_local message envelope \<Rightarrow> bool" where
  "is_report e \<longleftrightarrow> (\<exists>bs. env_message e = Bytes bs \<and> from_utf8 bs \<noteq> None)"

lemma countdown_report:
  assumes "is_report e" "cd_tx c = Some tx"
  shows "countdown_turn me e (c, n) =
    (if cd_n c = 1 then [Stop me] else [], (c\<lparr>cd_n := cd_n c - 1\<rparr>, if cd_n c = 1 then Suc n else n), True)"
  using assms by (auto simp: is_report_def countdown_turn_def countdown_receive_def count_send_def Let_def)

text \<open>A countdown set up for \<open>n\<close> reports tells \<open>main\<close> with the \<open>n\<close>-th one, and then not again for the next \<open>2^64\<close>.\<close>

lemma countdown_life:
  assumes "\<forall>e \<in> set es. is_report e" "cd_tx c = Some tx" "length es < 2 ^ 64"
  shows "snd (snd (actor_life (countdown_turn me) es (c, n))) =
    n + (if 0 < unat (cd_n c) \<and> unat (cd_n c) \<le> length es then 1 else 0)"
  using assms
proof (induction es arbitrary: c n)
  case Nil
  then show ?case by (cases "unat (cd_n c)") simp_all
next
  case (Cons e es)
  let ?c = "c\<lparr>cd_n := cd_n c - 1\<rparr>"
  have e: "is_report e" using Cons.prems(1) by simp
  note IH = Cons.IH [of ?c "if cd_n c = 1 then Suc n else n"]
  have n: "unat (cd_n c - 1) = (if cd_n c = 0 then 2 ^ 64 - 1 else unat (cd_n c) - 1)"
    by (simp add: unat_minus_one unat_sub_if' unsigned_minus_1_eq_mask mask_eq_exp_minus_1) (metis One_nat_def Suc_leI neq0_conv unat_eq_0)
  have one: "cd_n c = 1 \<longleftrightarrow> unat (cd_n c) = 1" "cd_n c = 0 \<longleftrightarrow> unat (cd_n c) = 0"
    by (simp_all add: word_unat_eq_iff)
  show ?case
    using IH Cons.prems n one by (auto simp: countdown_report [OF e Cons.prems(2)] split_beta)
qed

section \<open>In the runtime\<close>

text \<open>
  An agent of the example in the runtime, whatever the interleaving: its beat counts the ticks it has taken
  (modulo \<open>2^64\<close>), it knows no peer twice, it forgets no peer it has declared down, and it has
  sent itself one tick for each tick and each set-up taken.
\<close>

lemma heart_beats_in_runtime:
  fixes W :: "(('tx, 'o) gossip_member, 'tx gossip_local message, 'qe, 'qa) world"
  assumes "channels_ok W ce ca" "w_behaviour W = gossip_behaviour R B now now' rest" "started W ce ca s0"
    and "observed W s0 acts evs s" "rt_spawned s tag = 1"
    and "first_spawn tag acts = Some (Inl (Gossip_Agent a0, reports))" "known_once a0" "CHR ''@'' \<notin> set tag"
  shows "\<exists>a (calls :: (('tx, 'o) gossip_member, 'tx gossip_local message) call list).
    bodies ce ca tag s \<subseteq># {#Inl (Gossip_Agent a, reports)#} \<and>
    actor_life (gossip_receive R B now now' tag) (mails tag evs) a0 = (calls, a) \<and>
    ga_beat a = ga_beat a0 + word_of_nat (length (filter is_tick (mails tag evs))) \<and> known_once a \<and> ga_down a0 \<subseteq> ga_down a \<and>
    ticks_for tag (concat (map call_actions calls)) =
      length (filter is_tick (mails tag evs)) + length (filter is_init (mails tag evs))"
proof -
  obtain calls :: "(('tx, 'o) gossip_member, 'tx gossip_local message) call list" and a where
    life: "actor_life (gossip_receive R B now now' tag) (mails tag evs) a0 = (calls, a)"
    and body: "bodies ce ca tag s \<subseteq># {#Inl (Gossip_Agent a, reports)#}"
    using gossip_peer.life_in_runtime [OF assms(1-6)] by metis
  from gossip_life [OF refl assms(8) life] assms(7) life body show ?thesis
    by (intro exI [of _ a] exI [of _ calls]) simp
qed

end
