(* ===== verification/Link.thy ===== *)
theory Link
  imports Client_Claims Server_Claims Transition "HOL-Library.Sublist"
begin

text \<open>
  The two ends of a connection put together: the client of one system with its send buffer, the
  socket, and the actor of the accepted connection in the other system. \<open>link_step\<close> are the moves
  of the two ends in any order; the locale \<open>joined_sockets\<close> says what TCP promises of a connection
  that is up. The packets sent arrive once and in order, as long as no read ends inside
  a packet.
\<close>

section \<open>Frames one after the other\<close>

lemma frame_unique:
  assumes "frame p @ xs = frame q @ ys" "fits p" "fits q"
  shows "p = q \<and> xs = ys"
proof -
  let ?s = "demo_buffer (frame p @ xs)"
  have parse: "packet_from_bytes buffer_stream PACKET_SIZE_LIMIT ?s = Ret (Inr (Some r), s) \<longrightarrow> r = q' \<and> buf_bytes s = zs"
    if "frame p @ xs = frame q' @ zs" "fits q'" for q' zs r s
  proof -
    have b: "buf_cursor ?s = 0" "buf_bytes ?s = frame q' @ zs" using that(1) by (simp_all add: demo_buffer_def)
    have "header_size < length (buf_bytes ?s)" using that(2) b(2) by (simp add: fits_def length_frame)
    from stream_contract.from_bytes_frame [OF buffer_stream.stream_contract_axioms b _ _ this] that(2)
    obtain s' where "packet_from_bytes buffer_stream PACKET_SIZE_LIMIT ?s = Ret (Inr (Some q'), s')" "buf_bytes s' = zs"
      by (auto simp: fits_def)
    then show ?thesis by auto
  qed
  have b: "buf_cursor ?s = 0" "buf_bytes ?s = frame p @ xs" by (simp_all add: demo_buffer_def)
  have "header_size < length (buf_bytes ?s)" using assms(2) b(2) by (simp add: fits_def length_frame)
  from stream_contract.from_bytes_frame [OF buffer_stream.stream_contract_axioms b _ _ this] assms(2)
  obtain s where s: "packet_from_bytes buffer_stream PACKET_SIZE_LIMIT ?s = Ret (Inr (Some p), s)" "buf_bytes s = xs"
    by (auto simp: fits_def)
  with parse [OF assms(1,3)] show ?thesis by simp
qed

lemma frame_not_Nil [simp]: "frame p \<noteq> []"
  using length_frame [of p] by (auto simp: frame_size_def header_size_def)

lemma frames_prefix:
  assumes "concat (map frame ps) = concat (map frame qs) @ rest" "\<forall>p \<in> set ps. fits p" "\<forall>q \<in> set qs. fits q"
  shows "prefix qs ps \<and> (rest = [] \<longrightarrow> qs = ps)"
  using assms
proof (induction qs arbitrary: ps)
  case Nil
  then show ?case by (cases ps) auto
next
  case (Cons q qs)
  then obtain p ps' where ps: "ps = p # ps'" by (cases ps) auto
  with Cons.prems have "frame p @ concat (map frame ps') = frame q @ concat (map frame qs) @ rest" by simp
  with frame_unique Cons.prems(2,3) ps have "p = q" "concat (map frame ps') = concat (map frame qs) @ rest" by auto
  with Cons.IH [of ps'] Cons.prems(2,3) ps show ?case by simp
qed

section \<open>What TCP promises\<close>

text \<open>
  \<open>pipe io\<close> are the bytes on their way from the socket \<open>near\<close> to the socket \<open>far\<close>. While the
  connection is up a write adds its bytes, a read at the other end takes some from the front, and
  nothing else changes them.
\<close>

locale joined_sockets =
  fixes N :: "('addr, 'sock, 'listener, 'io) net" and pipe :: "'io \<Rightarrow> byte list" and near far :: 'sock
  assumes writes: "tcp_write_all N bs near io = (ok, io') \<Longrightarrow> ok \<and> pipe io' = pipe io @ bs"
    and reads: "tcp_read N n far io = (Read_Ok bs, io') \<Longrightarrow> length bs \<le> n \<and> pipe io = bs @ pipe io'"
    and no_reads: "tcp_read N n far io = (r, io') \<Longrightarrow> r = Would_Block \<or> r = Read_Failed \<Longrightarrow> pipe io' = pipe io"
    and near_reads: "pipe (snd (tcp_read N n near io)) = pipe io"
    and quiet: "pipe (tcp_set_nodelay N socket io) = pipe io" "pipe (snd (poll_register N socket i io)) = pipe io"
      "pipe (snd (clock_now N io)) = pipe io"
begin

lemma recv_loop_pipe:
  assumes "recv_loop N S near buf n is_open io = Some (buf', n', is_open', io')"
  shows "pipe io' = pipe io"
proof -
  let ?P = "\<lambda>N' S socket (buf :: 's) (n :: nat) (is_open :: bool) io (y :: 's \<times> nat \<times> bool \<times> 'io).
    N' = N \<longrightarrow> socket = near \<longrightarrow> pipe (snd (snd (snd y))) = pipe io"
  have "?P N S near buf n is_open io (buf', n', is_open', io')"
    using assms
  proof (rule recv_loop.raw_induct [where P = ?P, rotated])
    fix f N' S socket buf n is_open io y
    assume IH: "\<And>N' S socket buf n is_open io y. f N' S socket buf n is_open io = Some y \<Longrightarrow> ?P N' S socket buf n is_open io y"
      and body: "(if 1024 \<le> st_cap S buf
        then case tcp_read N' 1024 socket io of
               (Read_Ok bs, io') \<Rightarrow>
                 if bs \<noteq> [] then f N' S socket (snd (st_put S bs buf)) (n + length bs) is_open io'
                 else Some (buf, n, False, io')
             | (Would_Block, io') \<Rightarrow> Some (buf, n, is_open, io')
             | (Read_Failed, io') \<Rightarrow> Some (buf, n, False, io')
        else Some (buf, n, is_open, io)) = Some y"
    obtain r io1 where read: "tcp_read N' 1024 socket io = (r, io1)" by fastforce
    have same: "N' = N \<longrightarrow> socket = near \<longrightarrow> pipe io1 = pipe io" using near_reads [of 1024 io] read by auto
    show "?P N' S socket buf n is_open io y"
      using body read same IH [of N' S socket _ _ is_open io1 y]
      by (auto split: if_splits read_result.splits)
  qed
  then show ?thesis by simp
qed

text \<open>The parse loop reads the clock only.\<close>

lemma parse_loop_pipe:
  fixes calls :: "('a, 'x message) call list"
  assumes "parse_loop N S socket is_open calls buf io = Some (calls', buf', is_open', io', ok)"
  shows "pipe io' = pipe io"
proof -
  let ?P = "\<lambda>N' S socket (is_open :: bool) (calls :: ('a, 'x message) call list) (buf :: 's) io
      (y :: ('a, 'x message) call list \<times> 's \<times> bool \<times> 'io \<times> bool).
    N' = N \<longrightarrow> pipe (fst (snd (snd (snd y)))) = pipe io"
  have "?P N S socket is_open calls buf io (calls', buf', is_open', io', ok)"
    using assms
  proof (rule parse_loop.raw_induct [where P = ?P, rotated])
    fix f N' S socket is_open calls buf io y
    assume IH: "\<And>N' S socket is_open calls buf io y. f N' S socket is_open calls buf io = Some y \<Longrightarrow>
          ?P N' S socket is_open calls buf io y"
      and body: "(case packet_from_bytes S PACKET_SIZE_LIMIT buf of
        Panic \<Rightarrow> Some (calls, buf, is_open, io, False)
      | Ret (Inl e, buf') \<Rightarrow>
          (case clock_now N' io of (now, io') \<Rightarrow>
             Some (calls @ [Log now ''Packet parser marked connection buffer as failed''], buf', False, io', True))
      | Ret (Inr None, buf') \<Rightarrow> Some (calls, buf', is_open, io, True)
      | Ret (Inr (Some p), buf') \<Rightarrow>
          (case tcp_peer N' socket io of
             None \<Rightarrow> Some (calls, buf', is_open, io, False)
           | Some peer \<Rightarrow>
               (case clock_now N' io of (now, io') \<Rightarrow>
                  f N' S socket is_open (calls @ [Log now (rcvd_log p), delivery N' peer p]) buf' io'))) = Some y"
    obtain now io1 where clock: "clock_now N' io = (now, io1)" by fastforce
    then have same: "N' = N \<longrightarrow> pipe io1 = pipe io" using quiet(3) [of io] by auto
    show "?P N' S socket is_open calls buf io y"
      using body clock same IH [of N' S socket is_open _ _ io1 y]
      by (auto split: outcome.splits sum.splits option.splits)
  qed
  then show ?thesis by simp
qed

end

section \<open>The sending end\<close>

text \<open>A stream that has not been read from shows all its bytes.\<close>

definition shows_all :: "'s byte_stream \<Rightarrow> ('s \<Rightarrow> byte list) \<Rightarrow> ('s \<Rightarrow> nat) \<Rightarrow> bool" where
  "shows_all S buffered cursor \<longleftrightarrow> (\<forall>s. cursor s = 0 \<longrightarrow> st_as_ref S s = buffered s)"

text \<open>A connection whose socket is \<open>near\<close> and whose send buffer has not been read from.\<close>

definition sends_on :: "'sock \<Rightarrow> ('s \<Rightarrow> nat) \<Rightarrow> ('s, 'sock) client_conn \<Rightarrow> bool" where
  "sends_on near cursor conn \<longleftrightarrow> cc_socket conn = Some near \<and> cursor (cc_send_buf conn) = 0"

context joined_sockets
begin

lemma conn_recv_pipe:
  assumes "sends_on near cursor conn" "conn_recv N S conn io = Some (Ret (n, conn', io'))"
  shows "pipe io' = pipe io \<and> cc_send_buf conn' = cc_send_buf conn \<and> sends_on near cursor conn'"
  using assms recv_loop_pipe
  by (auto simp: conn_recv_def sends_on_def split: if_splits option.splits prod.splits)

lemma conn_writable_pipe:
  assumes S: "stream_contract S buffered cursor" "shows_all S buffered cursor"
    and "sends_on near cursor conn" "conn_writable N S ev conn io = Ret (conn', io')"
  shows "pipe io' = pipe io @ buffered (cc_send_buf conn) \<and> buffered (cc_send_buf conn') = [] \<and> sends_on near cursor conn'"
proof -
  have all: "st_as_ref S (cc_send_buf conn) = buffered (cc_send_buf conn)" and sock: "cc_socket conn = Some near"
    using S(2) assms(3) by (simp_all add: shows_all_def sends_on_def)
  obtain conn1 io1 where one: "(if cc_nodelay_set conn then Ret (conn, io)
      else Ret (conn\<lparr>cc_nodelay_set := True\<rparr>, tcp_set_nodelay N near io)) = Ret (conn1, io1)"
      "pipe io1 = pipe io" "cc_socket conn1 = Some near" "cc_send_buf conn1 = cc_send_buf conn"
    using quiet(1) sock by (cases "cc_nodelay_set conn") auto
  obtain ok io2 where w: "tcp_write_all N (buffered (cc_send_buf conn)) near io1 = (ok, io2)" by fastforce
  from writes [OF w] have "ok" "pipe io2 = pipe io @ buffered (cc_send_buf conn)" using one(2) by simp_all
  moreover from this have "io' = io2 \<and> cc_send_buf conn' = st_pull S (st_clear S (cc_send_buf conn)) \<and> cc_socket conn' = Some near"
    using assms(4) one w all sock
    by (cases "cc_nodelay_set conn") (auto simp: conn_writable_def conn_send_def)
  ultimately show ?thesis
    using stream_contract.pull [OF S(1)] stream_contract.clear [OF S(1)] by (simp add: sends_on_def)
qed

lemma conn_event_pipe:
  assumes S: "stream_contract S buffered cursor" "shows_all S buffered cursor"
    and "sends_on near cursor conn" "conn_event N S ev conn io = Some (Ret (conn', io'))"
  shows "pipe io' @ buffered (cc_send_buf conn') = pipe io @ buffered (cc_send_buf conn) \<and> sends_on near cursor conn'"
proof -
  obtain n conn1 io1 where r: "(if ev_readable ev then conn_recv N S conn io else Some (Ret (0, conn, io))) =
      Some (Ret (n, conn1, io1))"
    using assms(4) by (auto simp: conn_event_def split: option.splits)
  have one: "pipe io1 = pipe io" "cc_send_buf conn1 = cc_send_buf conn" "sends_on near cursor conn1"
    using r conn_recv_pipe [OF assms(3)] assms(3) by (auto split: if_splits)
  let ?conn2 = "if ev_readable ev then conn1\<lparr>cc_is_open := \<not> ev_read_closed ev\<rparr> else conn1"
  have two: "cc_send_buf ?conn2 = cc_send_buf conn" "sends_on near cursor ?conn2"
    using one by (simp_all add: sends_on_def)
  show ?thesis
  proof (cases "ev_writable ev")
    case True
    then have "conn_writable N S ev ?conn2 io1 = Ret (conn', io')"
      using assms(4) r by (simp add: conn_event_def Let_def)
    from conn_writable_pipe [OF S two(2) this] one(1) two(1) show ?thesis by simp
  next
    case False
    then have "conn' = ?conn2" "io' = io1" using assms(4) r by (auto simp: conn_event_def Let_def)
    then show ?thesis using one two by simp
  qed
qed

lemma client_event_pipe:
  assumes S: "stream_contract S buffered cursor" "shows_all S buffered cursor"
    and conn: "cl_connections c (ev_token ev) = Some conn" "sends_on near cursor conn"
    and "client_event N S ev c io = Some (Ret (c', io'))"
  obtains conn' where "pipe io' @ buffered (cc_send_buf conn') = pipe io @ buffered (cc_send_buf conn)"
    "sends_on near cursor conn'" "cl_connections c' (ev_token ev) = None \<or> cl_connections c' (ev_token ev) = Some conn'"
proof -
  obtain r where r: "conn_event N S ev conn io = Some r" using assms(5) conn(1)
    by (auto simp: client_event_def Let_def split: option.splits)
  obtain conn' io1 where r': "r = Ret (conn', io1)" using assms(5) conn(1) r
    by (cases r) (auto simp: client_event_def Let_def)
  note same = conn_event_pipe [OF S conn(2) r [unfolded r']]
  then have sock: "cc_socket conn' = Some near" by (simp add: sends_on_def)
  have "pipe io' = pipe io1 \<and> (cl_connections c' (ev_token ev) = None \<or> cl_connections c' (ev_token ev) = Some conn')"
    using assms(5) conn(1) r r' sock quiet(2) [of near "ev_token ev" io1]
    by (auto simp: client_event_def unwrap_flag_def Let_def split: if_splits)
  with same that [of conn'] show thesis by simp
qed

end

section \<open>The receiving end\<close>

context joined_sockets
begin

lemma sconn_read_takes:
  assumes S: "stream_contract S buffered cursor"
    and d: "sc_socket d = far" "sc_is_open d" "buffered (sc_recv_buf d) = []" "cursor (sc_recv_buf d) = 0"
      "1024 \<le> st_cap S (sc_recv_buf d)"
    and read: "sconn_read N S (with_work readable writable d) io = (d2, io2)"
  shows "pipe io = buffered (sc_recv_buf d2) @ pipe io2 \<and> cursor (sc_recv_buf d2) = 0 \<and> sc_socket d2 = far \<and>
    sc_send_buf d2 = sc_send_buf d \<and> (\<not> sc_is_open d2 \<longrightarrow> buffered (sc_recv_buf d2) = [])"
proof (cases readable)
  case False
  then show ?thesis using read d by (auto simp: sconn_read_def with_work_def)
next
  case True
  obtain r io1 where r: "tcp_read N 1024 far io = (r, io1)" by fastforce
  show ?thesis
  proof (cases r)
    case (Read_Ok bs)
    with reads r have bs: "length bs \<le> 1024" "pipe io = bs @ pipe io1" by blast+
    obtain k buf where put: "st_put S bs (sc_recv_buf d) = (k, buf)" by fastforce
    from stream_contract.put [OF S _ put] bs(1) d(5) have "buffered buf = bs" "cursor buf = 0" using d(3,4) by simp_all
    then show ?thesis
      using read d r Read_Ok bs(2) put True by (auto simp: sconn_read_def with_work_def split: if_splits)
  next
    case Would_Block
    with no_reads [OF r] read d r True show ?thesis by (auto simp: sconn_read_def with_work_def)
  next
    case Read_Failed
    with no_reads [OF r] read d r True show ?thesis by (auto simp: sconn_read_def with_work_def)
  qed
qed

text \<open>
  One turn of the accepted connection: what the read took from the pipe, packets whole, goes to their
  recipients. A read that fails ends the connection or leaves it as it was; then nothing is sent.
\<close>

lemma sconn_turn:
  fixes w :: "'x message envelope" and calls :: "('a, 'x message) call list"
  assumes S: "stream_contract S buffered cursor" and peer: "peer_is N far peer"
    and w: "env_message w = Work readable writable"
    and d: "sc_socket d = far" "sc_is_open d" "buffered (sc_recv_buf d) = []" "cursor (sc_recv_buf d) = 0"
      "buffered (sc_send_buf d) = []" "1024 \<le> st_cap S (sc_recv_buf d)"
    and read: "sconn_read N S (with_work readable writable d) io = (d2, io2)"
    and whole: "buffered (sc_recv_buf d2) = concat (map frame ps)" "\<forall>p \<in> set ps. fits p"
    and turn: "sconn_receive N S me w d io = Some (calls, d', io', ok)"
  shows "sends_of calls = map (delivery N peer) ps \<and> pipe io = concat (map frame ps) @ pipe io' \<and>
    sc_socket d' = far \<and> buffered (sc_recv_buf d') = [] \<and> cursor (sc_recv_buf d') = 0 \<and> buffered (sc_send_buf d') = []"
proof -
  have taken: "pipe io = buffered (sc_recv_buf d2) @ pipe io2" "cursor (sc_recv_buf d2) = 0"
    "sc_socket d2 = far" "sc_send_buf d2 = sc_send_buf d" "\<not> sc_is_open d2 \<longrightarrow> buffered (sc_recv_buf d2) = []"
    using sconn_read_takes [OF S d(1-4,6) read] by simp_all
  obtain calls3 d3 alive where k: "keep_open me d2 = (calls3 :: ('a, 'x message) call list, d3, alive)"
    by (metis prod.exhaust)
  have kept: "sc_recv_buf d3 = sc_recv_buf d2" "sc_socket d3 = far" "sc_send_buf d3 = sc_send_buf d" "sends_of calls3 = []"
    "\<not> alive \<longrightarrow> \<not> sc_is_open d2"
    using k taken(3,4) by (auto simp: keep_open_def split: if_splits)
  show ?thesis
  proof (cases alive)
    case False
    then have "calls = calls3" "d' = d3" "io' = io2"
      using turn w read k by (auto simp: sconn_receive_def with_work_def Let_def)
    then show ?thesis using False kept taken d whole by auto
  next
    case True
    obtain new :: "('a, 'x message) call list" and buf io4 where
      loop: "parse_loop N S far (sc_is_open d3) calls3 (sc_recv_buf d3) io2 = Some (calls3 @ new, buf, sc_is_open d3, io4, True)"
      and new: "sends_of new = map (delivery N peer) ps" "buffered buf = []" "cursor buf = 0"
      using parse_loop_frames [OF S peer _ _ whole(2), of "sc_recv_buf d3" "sc_is_open d3" calls3 io2] taken(2) whole(1) kept(1)
      by auto
    let ?d4 = "d3\<lparr>sc_recv_buf := buf, sc_is_open := sc_is_open d3\<rparr>"
    have "st_len S (sc_send_buf d) = 0" using stream_contract.len [OF S] d(5) by simp
    then have no_write: "sconn_write N S ?d4 io4 = (?d4, io4)" using kept(3) by (simp add: sconn_write_def)
    obtain calls6 :: "('a, 'x message) call list" and d6 alive6 where k6: "keep_open me ?d4 = (calls6, d6, alive6)"
      by (metis prod.exhaust)
    have "calls = (calls3 @ new) @ calls6 \<and> d' = d6 \<and> io' = io4"
      using turn w read k loop no_write k6 True kept(2) by (auto simp: sconn_receive_def with_work_def Let_def)
    moreover have "sends_of calls6 = []" "sc_recv_buf d6 = buf" "sc_socket d6 = far" "sc_send_buf d6 = sc_send_buf d"
      using k6 kept(2,3) by (auto simp: keep_open_def split: if_splits)
    ultimately show ?thesis
      using kept(4) new taken(1) whole(1) d(5) parse_loop_pipe [OF loop] by simp
  qed
qed

end

section \<open>The two ends together\<close>

text \<open>
  \<open>lk_sent\<close> are the packets given to the connection, \<open>lk_got\<close> the messages its other end has sent on,
  \<open>lk_split\<close> whether a read ever left off inside a packet: ghosts.
\<close>

record ('cs, 'ss, 'sock, 'io, 'a, 'x) link =
  lk_client :: "('cs, 'sock) client"
  lk_conn :: "('ss, 'sock) server_conn"
  lk_io :: 'io
  lk_sent :: "packet list"
  lk_got :: "('a, 'x message) call list"
  lk_split :: bool

definition whole_packets :: "byte list \<Rightarrow> bool" where
  "whole_packets bs \<longleftrightarrow> (\<exists>ps. bs = concat (map frame ps) \<and> (\<forall>p \<in> set ps. fits p))"

text \<open>
  The moves: the client actor receives a message for the host and its packet has room (\<open>transmits\<close>);
  the client handles an event of the connection (\<open>polls\<close>); the actor of the accepted connection, not
  asked to stop, receives \<open>Work\<close> (\<open>works\<close>); and whatever else happens to the client and to the outside
  without touching this connection (\<open>elsewhere\<close>).
\<close>

inductive link_step ::
  "('addr, 'sock, 'listener, 'io) net \<Rightarrow> ('io \<Rightarrow> byte list) \<Rightarrow> 'cs byte_stream \<Rightarrow> 'b bytes_mut \<Rightarrow>
   'ss byte_stream \<Rightarrow> ('ss \<Rightarrow> byte list) \<Rightarrow> string \<Rightarrow> nat \<Rightarrow>
   ('cs, 'ss, 'sock, 'io, 'a, 'x) link \<Rightarrow> ('cs, 'ss, 'sock, 'io, 'a, 'x) link \<Rightarrow> bool"
for N pipe S B S' buffered' host k where
  transmits: "env_message e = Bytes payload \<Longrightarrow> split_address (env_to e) = (to, host) \<Longrightarrow>
    cl_destinations (lk_client s) host = Some k \<Longrightarrow> cl_connections (lk_client s) k = Some conn \<Longrightarrow>
    p = packet_new to (env_from e) payload (cl_response_port (lk_client s)) \<Longrightarrow> fits p \<Longrightarrow>
    frame_size p \<le> st_cap S (cc_send_buf conn) \<Longrightarrow>
    client_receive N S B me e (lk_client s) (lk_io s) = Some (Ret (calls :: (unit, 'x message) call list, c, io)) \<Longrightarrow>
    link_step N pipe S B S' buffered' host k s (s\<lparr>lk_client := c, lk_io := io, lk_sent := lk_sent s @ [p]\<rparr>)"
| polls: "ev_token ev = k \<Longrightarrow> cl_connections (lk_client s) k = Some conn \<Longrightarrow>
    client_event N S ev (lk_client s) (lk_io s) = Some (Ret (c, io)) \<Longrightarrow>
    link_step N pipe S B S' buffered' host k s (s\<lparr>lk_client := c, lk_io := io\<rparr>)"
| works: "env_message w = Work readable writable \<Longrightarrow> sc_is_open (lk_conn s) \<Longrightarrow>
    1024 \<le> st_cap S' (sc_recv_buf (lk_conn s)) \<Longrightarrow>
    sconn_read N S' (with_work readable writable (lk_conn s)) (lk_io s) = (d2, io2) \<Longrightarrow>
    sconn_receive N S' me w (lk_conn s) (lk_io s) = Some (calls', d, io, ok) \<Longrightarrow>
    link_step N pipe S B S' buffered' host k s
      (s\<lparr>lk_conn := d, lk_io := io, lk_got := lk_got s @ sends_of calls',
         lk_split := lk_split s \<or> \<not> whole_packets (buffered' (sc_recv_buf d2))\<rparr>)"
| elsewhere: "pipe io = pipe (lk_io s) \<Longrightarrow> cl_connections c k = cl_connections (lk_client s) k \<Longrightarrow>
    link_step N pipe S B S' buffered' host k s (s\<lparr>lk_client := c, lk_io := io\<rparr>)"

text \<open>A connection just made and just accepted.\<close>

definition link_start ::
  "('io \<Rightarrow> byte list) \<Rightarrow> 'cs byte_stream \<Rightarrow> 'ss byte_stream \<Rightarrow> 'sock \<Rightarrow> 'sock \<Rightarrow> nat \<Rightarrow>
   ('cs, 'ss, 'sock, 'io, 'a, 'x) link \<Rightarrow> bool"
where
  "link_start pipe S S' near far k s \<longleftrightarrow>
     (\<exists>target config. cl_connections (lk_client s) k = Some (client_connected S target near config)) \<and>
     (\<exists>config. lk_conn s = accepted_conn S' config far) \<and>
     pipe (lk_io s) = [] \<and> lk_sent s = [] \<and> lk_got s = [] \<and> \<not> lk_split s"

text \<open>
  The bytes of the packets sent are, in this order, those of the packets delivered, the pipe, and the
  send buffer of the connection while the client has it.
\<close>

definition link_inv ::
  "('addr, 'sock, 'listener, 'io) net \<Rightarrow> ('io \<Rightarrow> byte list) \<Rightarrow> ('cs \<Rightarrow> byte list) \<Rightarrow> ('cs \<Rightarrow> nat) \<Rightarrow>
   ('ss \<Rightarrow> byte list) \<Rightarrow> ('ss \<Rightarrow> nat) \<Rightarrow> 'sock \<Rightarrow> 'sock \<Rightarrow> 'addr \<Rightarrow> nat \<Rightarrow>
   ('cs, 'ss, 'sock, 'io, 'a, 'x) link \<Rightarrow> bool"
where
  "link_inv N pipe buffered cursor buffered' cursor' near far peer k s \<longleftrightarrow>
     lk_split s \<or>
     sc_socket (lk_conn s) = far \<and> buffered' (sc_recv_buf (lk_conn s)) = [] \<and>
     cursor' (sc_recv_buf (lk_conn s)) = 0 \<and> buffered' (sc_send_buf (lk_conn s)) = [] \<and>
     (\<forall>p \<in> set (lk_sent s). fits p) \<and>
     (\<exists>ps rest. lk_got s = map (delivery N peer) ps \<and> (\<forall>p \<in> set ps. fits p) \<and>
        concat (map frame (lk_sent s)) = concat (map frame ps) @ pipe (lk_io s) @ rest \<and>
        (\<forall>conn. cl_connections (lk_client s) k = Some conn \<longrightarrow>
           sends_on near cursor conn \<and> rest = buffered (cc_send_buf conn)))"

lemma link_start_inv:
  assumes "stream_contract S buffered cursor" "stream_contract S' buffered' cursor'"
    and "link_start pipe S S' near far k s"
  shows "link_inv N pipe buffered cursor buffered' cursor' near far peer k s"
  using assms(3) stream_contract.new [OF assms(1)] stream_contract.new [OF assms(2)]
  by (auto simp: link_start_def link_inv_def accepted_conn_def client_connected_def sends_on_def)

lemma client_receive_puts:
  assumes "env_message e = Bytes payload" "split_address (env_to e) = (to, host)"
    and "cl_destinations c host = Some k" "cl_connections c k = Some conn"
    and "client_receive N S B me e c io = Some (Ret (calls, c', io'))"
  shows "c' = c\<lparr>cl_connections := (cl_connections c)(k \<mapsto> conn\<lparr>cc_send_buf :=
      snd (st_put S (packet_to_bytes B (packet_new to (env_from e) payload (cl_response_port c))) (cc_send_buf conn))\<rparr>)\<rparr> \<and>
    io' = snd (clock_now N io)"
  using assms
  by (auto simp: client_receive_def client_transmit_def client_ready_def client_has_def client_put_def Let_def
      split: prod.splits)

context joined_sockets
begin

lemma link_step_inv:
  assumes S: "stream_contract S buffered cursor" "shows_all S buffered cursor" "stream_contract S' buffered' cursor'"
    and B: "big_endian_writer B written" and peer: "peer_is N far peer"
    and inv: "link_inv N pipe buffered cursor buffered' cursor' near far peer k s"
    and "link_step N pipe S B S' buffered' host k s t"
  shows "link_inv N pipe buffered cursor buffered' cursor' near far peer k t"
proof (cases "lk_split s")
  case True
  with assms(7) show ?thesis by cases (simp_all add: link_inv_def)
next
  case False
  with inv obtain ps rest where
    d: "sc_socket (lk_conn s) = far" "buffered' (sc_recv_buf (lk_conn s)) = []" "cursor' (sc_recv_buf (lk_conn s)) = 0"
      "buffered' (sc_send_buf (lk_conn s)) = []"
    and sent: "\<forall>p \<in> set (lk_sent s). fits p"
    and got: "lk_got s = map (delivery N peer) ps" "\<forall>p \<in> set ps. fits p"
      "concat (map frame (lk_sent s)) = concat (map frame ps) @ pipe (lk_io s) @ rest"
    and conn: "\<And>conn. cl_connections (lk_client s) k = Some conn \<Longrightarrow> sends_on near cursor conn \<and> rest = buffered (cc_send_buf conn)"
    unfolding link_inv_def by blast
  from assms(7) show ?thesis
  proof cases
    case (transmits e payload to conn p me calls c io)
    have room: "length (frame p) \<le> st_cap S (cc_send_buf conn)" using transmits(8) by (simp add: length_frame)
    obtain n buf where put: "st_put S (frame p) (cc_send_buf conn) = (n, buf)" by fastforce
    have c: "c = (lk_client s)\<lparr>cl_connections := (cl_connections (lk_client s))(k \<mapsto> conn\<lparr>cc_send_buf := buf\<rparr>)\<rparr> \<and>
        io = snd (clock_now N (lk_io s))"
      using client_receive_puts [OF transmits(2-5,9)] put transmits(6) packet_to_bytes_frame [OF B] by simp
    have "buffered buf = buffered (cc_send_buf conn) @ frame p" "cursor buf = cursor (cc_send_buf conn)"
      using stream_contract.put [OF S(1) room put] by simp_all
    with conn [OF transmits(5)] got(3) c quiet(3) [of "lk_io s"] have
      "concat (map frame (lk_sent t)) = concat (map frame ps) @ pipe (lk_io t) @ buffered buf"
      "\<And>conn'. cl_connections (lk_client t) k = Some conn' \<Longrightarrow> sends_on near cursor conn' \<and> buffered buf = buffered (cc_send_buf conn')"
      by (auto simp: transmits(1) sends_on_def)
    moreover have "lk_got t = map (delivery N peer) ps" "lk_conn t = lk_conn s" "\<forall>p \<in> set (lk_sent t). fits p"
      using got(1) sent transmits(1,7) by auto
    ultimately show ?thesis unfolding link_inv_def using d got(2) by metis
  next
    case (polls ev conn c io)
    have "cl_connections (lk_client s) (ev_token ev) = Some conn" using polls(2,3) by simp
    from client_event_pipe [OF S(1,2) this _ polls(4)] conn [OF polls(3)] obtain conn' where
      same: "pipe io @ buffered (cc_send_buf conn') = pipe (lk_io s) @ rest" "sends_on near cursor conn'"
        "cl_connections c k = None \<or> cl_connections c k = Some conn'"
      using polls(2) by auto
    then have "concat (map frame (lk_sent t)) = concat (map frame ps) @ pipe (lk_io t) @ buffered (cc_send_buf conn')"
      "\<And>conn. cl_connections (lk_client t) k = Some conn \<Longrightarrow> sends_on near cursor conn \<and> buffered (cc_send_buf conn') = buffered (cc_send_buf conn)"
      using got(3) polls(1) by auto
    moreover have "lk_got t = map (delivery N peer) ps" "lk_conn t = lk_conn s" "\<forall>p \<in> set (lk_sent t). fits p"
      using got(1) sent polls(1) by auto
    ultimately show ?thesis unfolding link_inv_def using d got(2) by metis
  next
    case (works w readable writable d2 io2 me calls' d' io ok)
    show ?thesis
    proof (cases "whole_packets (buffered' (sc_recv_buf d2))")
      case False
      then show ?thesis by (simp add: works(1) link_inv_def)
    next
      case True
      then obtain qs where qs: "buffered' (sc_recv_buf d2) = concat (map frame qs)" "\<forall>p \<in> set qs. fits p"
        unfolding whole_packets_def by blast
      note turn = sconn_turn [OF S(3) peer works(2) d(1) works(3) d(2-4) works(4,5) qs works(6)]
      have "lk_got t = map (delivery N peer) (ps @ qs)" "\<forall>p \<in> set (ps @ qs). fits p"
        using turn got(1,2) qs(2) by (auto simp: works(1))
      moreover have "concat (map frame (lk_sent t)) = concat (map frame (ps @ qs)) @ pipe (lk_io t) @ rest"
        using turn got(3) by (simp add: works(1))
      moreover have "sc_socket (lk_conn t) = far" "buffered' (sc_recv_buf (lk_conn t)) = []"
        "cursor' (sc_recv_buf (lk_conn t)) = 0" "buffered' (sc_send_buf (lk_conn t)) = []"
        "lk_client t = lk_client s" "lk_sent t = lk_sent s"
        using turn by (simp_all add: works(1))
      ultimately show ?thesis unfolding link_inv_def using sent conn by metis
    qed
  next
    case (elsewhere io c)
    then show ?thesis using d sent got conn by (auto simp: link_inv_def)
  qed
qed

end

section \<open>A concrete connection\<close>

text \<open>Sockets 1 and 2, and the bytes between them for the outside.\<close>

definition pipe_net :: "(string, nat, unit, byte list) net" where
  "pipe_net =
     \<lparr>addr_parse = (\<lambda>s. Some s), addr_show = (\<lambda>a. a), addr_port = (\<lambda>a. 9001),
      addr_set_port = (\<lambda>p a. ''h:'' @ show_nat (unat p)),
      tcp_connect = (\<lambda>a io. (Some 1, io)), tcp_bind = (\<lambda>a io. (Some (), io)),
      tcp_accept = (\<lambda>l io. (None, io)),
      tcp_read = (\<lambda>n s io. if s = 2 \<and> io \<noteq> [] then (Read_Ok (take n io), drop n io) else (Would_Block, io)),
      tcp_write_all = (\<lambda>bs s io. (True, if s = 1 then io @ bs else io)),
      tcp_set_nodelay = (\<lambda>s io. io), tcp_peer = (\<lambda>s io. Some ''h:5555''), poll_new = (\<lambda>io. (True, io)),
      poll_register = (\<lambda>s i io. (True, io)), poll_listener = (\<lambda>l i io. (True, io)),
      poll_wait = (\<lambda>t io. (Some [], io)), clock_now = (\<lambda>io. (0, io))\<rparr>"

interpretation pipe_net: joined_sockets pipe_net "\<lambda>io. io" 1 2
  by unfold_locales (auto simp: pipe_net_def split: if_splits)

text \<open>The two ends with something in the send buffer and in the pipe, and nothing received so far.\<close>

definition link_at :: "byte list \<Rightarrow> bool \<Rightarrow> byte list \<Rightarrow> packet list \<Rightarrow> (buffer, buffer, nat, byte list, unit, unit) link" where
  "link_at buf nodelay io sent =
     \<lparr>lk_client = demo_client\<lparr>cl_connections := [1 \<mapsto>
        (client_connected buffer_stream ''h:1'' 1 default_client_config)
          \<lparr>cc_nodelay_set := nodelay, cc_send_buf := \<lparr>buf_bytes = buf, buf_cursor = 0, buf_room = 1024 - length buf\<rparr>\<rparr>]\<rparr>,
      lk_conn = accepted_conn buffer_stream default_server_config 2, lk_io = io, lk_sent = sent, lk_got = [], lk_split = False\<rparr>"

lemmas link_at_simps = link_at_def demo_client_def client_connected_def default_client_config_def pipe_net_def

section \<open>Property\<close>



end
