(* ===== verification/Host.thy ===== *)
theory Host
  imports Prelude
begin

text \<open>
  \<open>src/remote/ip.rs\<close>, compiled with the feature \<open>host\<close> only and not called: the address of this
  host, the first that is not a loopback address among those the crate \<open>get_if_addrs\<close> finds
  (\<open>None\<close> when it fails).
\<close>

record interface =
  is_loopback :: bool
  if_ip :: "byte list"

definition host_ip :: "interface list option \<Rightarrow> byte list" where
  "host_ip found =
     (let interfaces = (case found of None \<Rightarrow> [] | Some is \<Rightarrow> is)
      in case find (\<lambda>i. \<not> is_loopback i) interfaces of None \<Rightarrow> [127, 0, 0, 1] | Some i \<Rightarrow> if_ip i)"

text \<open>It never fails, and gives a loopback address only when there is no other.\<close>

lemma host_prefers_outside:
  "host_ip (Some is) = (if \<forall>i \<in> set is. is_loopback i then [127, 0, 0, 1] else if_ip (hd (filter (\<lambda>i. \<not> is_loopback i) is)))"
proof (induction "is")
  case Nil
  then show ?case by (simp add: host_ip_def)
next
  case (Cons i rest)
  then show ?case by (auto simp: host_ip_def split: option.splits)
qed

end
