(* ===== verification/Spec2Isabelle.thy ===== *)
theory Spec2Isabelle
  imports Scheduler_Claims Runtime_Claims Reports Pool Client_Claims Server_Claims Paxos_Claims Gossip_Claims
    Sequential_Claims Full_Claims Pi Demos_Claims Paxos_Runtime Gossip_Runtime Link Host
begin

text \<open>
  A verification development for uppercut, a small actor runtime in Rust: the scheduler and its worker
  threads, the thread pool they run on, the remote transport, and the example programs built on top of
  it. File names below are relative to the repository root.

  The program. \<open>System::run\<close> (\<open>src/core.rs\<close>) takes a \<open>ThreadPool\<close> (\<open>src/pool.rs\<close>) and puts on it the
  worker threads and one scheduler thread. The scheduler owns the actors that are not being run, a mailbox for
  every live tag and a heap of delayed messages; it receives actions on one channel and sends events (an
  actor together with a message, or an actor to stop) to the workers on another. A worker runs the method of
  the actor against a \<open>Local\<close> sender, which turns every call into an action, and gives the actor
  back. With the remote part enabled two more actors exist: the server (\<open>src/remote/server.rs\<close>) accepts
  connections and spawns one actor for each, which parses packets (\<open>src/remote/packet.rs\<close>) and sends
  their payloads on; the client (\<open>src/remote/client.rs\<close>) receives every envelope whose address has
  an \<open>@\<close> and writes it to the connection of that host.

  The theories, bottom up.

  \<^item> \<open>Prelude\<close>: machine words, panics as values (\<open>outcome\<close>), big-endian byte sequences, the lemma
    collections. \<open>Text\<close>: decimal numbers as \<open>format!\<close> prints them. \<open>Utf8\<close>: \<open>String::from_utf8\<close>.
  \<^item> \<open>Api\<close> (\<open>src/api.rs\<close>): envelopes; an actor is a record of three functions to the calls it makes.
    \<open>Config\<close> (\<open>src/config.rs\<close>, \<open>src/error.rs\<close>). \<open>Monitor\<close> (\<open>src/monitor.rs\<close>).
  \<^item> \<open>Binary_Heap\<close>: the standard library's heap on an array, with the locales of a priority queue and of
    draining one; \<open>Timers\<close>: \<open>Entry\<close> and the timer loop on it.
  \<^item> \<open>Sender\<close>: \<open>Local\<close>, one definition per method. \<open>Worker\<close>: \<open>worker_loop\<close>.
  \<^item> \<open>Scheduler\<close>: the state of \<open>event_loop\<close> as the record \<open>event_loop\<close>, one definition per arm of its
    match (\<open>on_return\<close>, \<open>on_queue\<close>, \<open>on_spawn\<close>, ...), the timer, report and timeout phases, one
    iteration (\<open>event_loop_step\<close>) and runs of iterations over what is received (\<open>event_loop_run\<close>).
    \<open>Scheduler_Inv\<close>: its invariant. \<open>Scheduler_Spec\<close>: an abstract registry of actors and the simulation.
    \<open>Delivery\<close> and \<open>Bookkeeping\<close>: conservation laws, proved once in the locale \<open>run_conservation\<close>
    and interpreted for mailboxes, delayed messages, logs and metrics. \<open>Scheduler_Claims\<close>: the
    properties. \<open>Reports\<close>: the jobs that print logs and metrics, and the way of a log line to the output.
  \<^item> \<open>Transition\<close>: channels and invariants of step relations. \<open>Runtime\<close>: threads, channels, \<open>Run\<close>,
    \<open>System\<close>; every move of a thread is a rule of \<open>rt_step\<close>, every method of \<open>Run\<close> one of
    \<open>client_step\<close>, and they interleave freely. \<open>Runtime_Inv\<close> and \<open>Runtime_Claims\<close>: where the
    actors and messages are, and what follows. \<open>Sequential\<close>: runs with the histories of the actions
    and events taken, and the life of one actor over them; \<open>Ordering\<close>: what its turns send, and in which
    order it arrives; \<open>Run_Steps\<close>: concrete runs, move by move; \<open>Sequential_Claims\<close>: the guarantees of the
    actor model for the whole runtime; \<open>Single_Actor\<close>: an actor that is run by a handler lives in the runtime as its
    handler does over its messages (locale \<open>handled_actor\<close>).
    \<open>Typing\<close>: disciplines on messages and actors that the runtime keeps (locale \<open>typed_actors\<close>).
  \<^item> \<open>Pool\<close>: the thread pool, its step relation and properties.
  \<^item> \<open>Bytes\<close>: the contracts of the byte containers. \<open>Packet\<close>: the wire format. \<open>Net\<close>: sockets, addresses
    and the poll as the record \<open>net\<close>. \<open>Client\<close>, \<open>Client_Claims\<close>, \<open>Server\<close>, \<open>Server_Claims\<close>. \<open>Link\<close>: both ends of a
    connection as one step relation, over sockets that keep the promises of TCP (locale \<open>joined_sockets\<close>).
  \<^item> \<open>Paxos\<close>, \<open>Paxos_Claims\<close> (\<open>examples/paxos.rs\<close>) and \<open>Gossip\<close>, \<open>Gossip_Claims\<close>
    (\<open>examples/gossip.rs\<close>): codec, agents and clients of the two protocol examples; \<open>Mains\<close>: what
    their \<open>main\<close> asks of the three systems, and the verdict on the logs; \<open>Paxos_Runtime\<close>, \<open>Gossip_Runtime\<close>:
    agents and clients of the two in the modelled runtime, beside actors of the remote part.
  \<^item> \<open>Demos\<close>, \<open>Demos_Claims\<close> (\<open>examples/hello.rs\<close>, \<open>fail.rs\<close>, \<open>stop.rs\<close>, \<open>ping.rs\<close>,
    \<open>remote.rs\<close>), \<open>Pi\<close> (\<open>examples/pi.rs\<close>), \<open>Full\<close> and \<open>Full_Claims\<close> (\<open>examples/full.rs\<close>): the actors and
    what \<open>main\<close> asks of the runtime (\<open>..._start\<close>: pool and configuration; \<open>..._main\<close>: the calls on \<open>Run\<close>);
    \<open>hello\<close> and \<open>full\<close> are run on the modelled runtime.
  \<^item> \<open>Host\<close> (\<open>src/remote/ip.rs\<close>): the address of this host.
  \<^item> this theory: what spans the components, the way of a message from one system to an actor of another.

  What the lemmas show. The scheduler never panics, implements the abstract registry, delivers
  every accepted message once and in order and every delayed one in time, and its counters and logs balance;
  an actor that fails takes down nothing else. Over all interleavings of the threads an actor is never
  duplicated, its state is what its handler makes of the messages accepted for it, one after the other and
  in order, what it sends arrives in the order it was sent, no message is stranded in a system that has gone
  quiet, and a shutdown ends all threads. The packet
  parser inverts the writer and accepts nothing else; client and server keep their maps, loops and
  buffers in order, and a connection carries messages exactly once and in order, as long as no read ends inside
  a packet. An agent of the consensus example keeps its promises in the runtime while it hears no stale decision,
  announces only what a majority backed and what was requested; the codec and the merging of the gossip example
  are exact. The full example keeps to its own protocol in every state the runtime can reach, a fan-out
  comes back exactly once and the estimate of pi is one result of all the throws. Other properties show where the code falls short of what it means to do: an actor that comes
  back from the dead, threads leaked by a failed start, packets that lose their header when they arrive in pieces,
  a size limit below the one announced, an address that panics the client, and an execution in which the
  agents of the consensus example disagree.

  Conventions and bounds. A Rust \<open>String\<close> is the list of its UTF-8 bytes. Counters, lengths on the wire,
  sequence numbers and beats are words of their width and wrap as in the release build; \<open>usize\<close> identifiers
  that only count connections are natural numbers. Instants and durations are nanoseconds. A loop
  that may not end is a \<open>partial_function\<close> whose result says whether it did: \<open>recv_loop\<close> and \<open>parse_loop\<close>
  are proved to end under the contracts they need, \<open>accept_loop\<close> ends when no connection waits, which
  is up to the network; no fuel is used. An iteration of the scheduler is one move of the
  step relation, since it is the only receiver of actions and the only sender of events.

  Parameters. What is not in the repository is a parameter: the channels of \<open>crossbeam_channel\<close> (locale
  \<open>unbounded_channel\<close>), \<open>BytesMut\<close> and \<open>Bytes\<close> of \<open>bytes\<close> (\<open>big_endian_writer\<close>,
  \<open>big_endian_reader\<close>), \<open>ByteStream\<close> of \<open>parsed\<close> (\<open>stream_contract\<close>), sockets and poll of \<open>mio\<close>
  (\<open>net_contract\<close>, \<open>well_behaved_net\<close>), the core identifiers of the pool, the clock, the iteration order of
  hash containers and the code of the actors. Each contract is interpreted on a concrete instance.

  The clock readings and random numbers of an example actor are parameters of its handler, fixed for a
  run where the handler is made a \<open>behaviour\<close>; the channel an example actor reports to \<open>main\<close> on becomes,
  in the runtime, a list the actor carries (\<open>with_outbox\<close>).

  Not modelled: the text the derived \<open>Debug\<close> instances print, the lines of the logging facade and of
  \<open>println!\<close> in the examples, their command line and their waiting: output and input that nothing else depends
  on; benchmarks and tests, which exercise the library from outside; the module tree, which is declarations only.
  Two whole systems are joined at the level of a connection (\<open>Link\<close>) and of a message
  (\<open>remote_message_delivered\<close>); that client, server and connections run as actors of the runtime is
  left to the parameter \<open>rest\<close> of the behaviours of the two protocol examples, since their handlers change the
  outside world, which an actor of the runtime model has none of.
\<close>

section \<open>From one system to another\<close>

lemma split_address_at:
  assumes "CHR ''@'' \<notin> set to" "CHR ''@'' \<notin> set host"
  shows "split_address (to @ ''@'' @ host) = (to, host)"
  using assms split_on_append [of "CHR ''@''" to host] split_on_none [of "CHR ''@''" host]
  by (simp add: split_address_def)

text \<open>
  C11. A message sent to an address on another host arrives there, once, and can be answered. Sending to
  \<open>to@host\<close> hands the envelope to the client actor; the client, connected to that host, adds exactly
  one frame to an empty send buffer; and any server connection that has read these bytes sends the
  payload, and nothing else, to the actor \<open>to\<close> there, from the sender's tag at the peer's host and the port
  the packet carries: an address that splits back into the two.
\<close>

theorem remote_message_delivered:
  fixes e0 :: "'x message envelope"
  assumes client_stream: "stream_contract S buffered cursor" "big_endian_writer B written"
    and address: "CHR ''@'' \<notin> set to" "CHR ''@'' \<notin> set host" "CHR ''@'' \<notin> set (env_from e0)"
    and client: "env_message e0 = Bytes payload" "cl_destinations c host = Some k" "cl_connections c k = Some conn"
      "buffered (cc_send_buf conn) = []"
    and packet: "p = packet_new to (env_from e0) payload (cl_response_port c)" "fits p"
      "frame_size p \<le> st_cap S (cc_send_buf conn)"
    and server_stream: "stream_contract S' buffered' cursor'" "peer_is N' (sc_socket d2) peer"
    and server: "env_message w = Work readable writable" "sc_is_open d2" "cursor' (sc_recv_buf d2) = 0"
      "sconn_read N' S' (with_work readable writable d) io = (d2, io2)"
    and reply: "CHR ''@'' \<notin> set (addr_show N' (addr_set_port N' (pkt_port p) peer))"
  shows "\<exists>e buf now io'. adjust_remote_address (to @ ''@'' @ host) e0 = (CLIENT, e) \<and>
    client_receive N S B client_tag e c io0 =
      Some (Ret ([Log now (sent_log to host (env_from e0) (length payload))] :: ('client, 'x message) call list,
        c\<lparr>cl_connections := (cl_connections c)(k \<mapsto> conn\<lparr>cc_send_buf := buf\<rparr>)\<rparr>, io')) \<and>
    buffered buf = packet_to_bytes B p \<and>
    (buffered' (sc_recv_buf d2) = buffered buf \<longrightarrow>
      (\<exists>(calls :: ('a, 'x message) call list) d' io'' from. sconn_receive N' S' me w d io = Some (calls, d', io'', True) \<and>
        sends_of calls = [Send to \<lparr>env_message = Bytes payload, env_from = from, env_to = to\<rparr>] \<and>
        split_address from = (env_from e0, addr_show N' (addr_set_port N' (pkt_port p) peer))))"
proof -
  let ?e = "e0\<lparr>env_to := to @ ''@'' @ host\<rparr>"
  let ?from = "env_from e0 @ ''@'' @ addr_show N' (addr_set_port N' (pkt_port p) peer)"
  have adjust: "adjust_remote_address (to @ ''@'' @ host) e0 = (CLIENT, ?e)" by (simp add: adjust_remote_address_def)
  have e: "env_message ?e = Bytes payload" "split_address (env_to ?e) = (to, host)"
    using client(1) split_address_at [OF address(1,2)] by simp_all
  have frame: "packet_to_bytes B p = frame p" by (rule packet_to_bytes_frame [OF client_stream(2)])
  have room: "length (packet_to_bytes B (packet_new to (env_from ?e) payload (cl_response_port c))) \<le> st_cap S (cc_send_buf conn)"
    using packet(1,3) frame by (simp add: length_frame)
  obtain buf now io' where sent: "client_receive N S B client_tag ?e c io0 =
      Some (Ret ([Log now (sent_log to host (env_from e0) (length payload))] :: ('client, 'x message) call list,
        c\<lparr>cl_connections := (cl_connections c)(k \<mapsto> conn\<lparr>cc_send_buf := buf\<rparr>)\<rparr>, io'))"
    "buffered buf = packet_to_bytes B p"
    using client_receive_frame [OF client_stream e client(2,3) room, of N client_tag io0] client(4) packet(1) by auto
  have arrives: "\<exists>(calls :: ('a, 'x message) call list) d' io''. sconn_receive N' S' me w d io = Some (calls, d', io'', True) \<and>
      sends_of calls = [Send to \<lparr>env_message = Bytes payload, env_from = ?from, env_to = to\<rparr>]"
    if "buffered' (sc_recv_buf d2) = buffered buf"
  proof -
    have "buffered' (sc_recv_buf d2) = concat (map frame [p])" "\<forall>q \<in> set [p]. fits q"
      using that sent(2) frame packet(2) by simp_all
    from sconn_delivers [OF server_stream server(1,4,2,3) this, where 'a = 'a and me = me]
    show ?thesis by (simp add: delivery_def packet(1) packet_new_def envelope_defs Let_def) blast
  qed
  have "split_address ?from = (env_from e0, addr_show N' (addr_set_port N' (pkt_port p) peer))"
    by (rule split_address_at [OF address(3) reply])
  with adjust sent arrives show ?thesis
    by (intro exI [of _ ?e] exI [of _ buf] exI [of _ now] exI [of _ io']) blast
qed

theorem remote_message_delivered_witness:
  "\<exists>(calls :: (unit, unit message) call list) d' io'' from.
    sconn_receive demo_server_net buffer_stream ''me'' (demo_work False)
      (demo_sconn (frame (packet_new ''bob'' ''amy'' [1, 2, 3] 9000))) 0 = Some (calls, d', io'', True) \<and>
    sends_of calls = [Send ''bob'' \<lparr>env_message = Bytes [1, 2, 3], env_from = from, env_to = ''bob''\<rparr>] \<and>
    split_address from = (''amy'', ''h:'' @ show_nat 9000)"
proof -
  let ?e = "\<lparr>env_message = Bytes [1, 2, 3], env_from = ''amy'', env_to = []\<rparr> :: unit message envelope"
  let ?p = "packet_new ''bob'' ''amy'' [1, 2, 3] 9000"
  let ?d = "demo_sconn (frame ?p)"
  have p: "frame_size ?p = 23" "sendable ?p"
    by (simp_all add: frame_size_def packet_new_def header_size_def sendable_def ascii_valid)
  have "\<exists>e buf now io'. adjust_remote_address (''bob'' @ ''@'' @ ''h:1'') ?e = (CLIENT, e) \<and>
    client_receive (demo_net True) buffer_stream list_writer ''client'' e demo_client None =
      Some (Ret ([Log now (sent_log ''bob'' ''h:1'' (env_from ?e) (length [1, 2, 3 :: byte]))] :: (unit, unit message) call list,
        demo_client\<lparr>cl_connections := (cl_connections demo_client)(1 \<mapsto> demo_conn\<lparr>cc_send_buf := buf\<rparr>)\<rparr>, io')) \<and>
    buf_bytes buf = packet_to_bytes list_writer ?p \<and>
    (buf_bytes (sc_recv_buf (with_work False False ?d)) = buf_bytes buf \<longrightarrow>
      (\<exists>(calls :: (unit, unit message) call list) d' io'' from.
        sconn_receive demo_server_net buffer_stream ''me'' (demo_work False) ?d 0 = Some (calls, d', io'', True) \<and>
        sends_of calls = [Send ''bob'' \<lparr>env_message = Bytes [1, 2, 3], env_from = from, env_to = ''bob''\<rparr>] \<and>
        split_address from = (env_from ?e,
          addr_show demo_server_net (addr_set_port demo_server_net (pkt_port ?p) ''h:5555''))))"
  proof (rule remote_message_delivered [OF buffer_stream.stream_contract_axioms list_writer.big_endian_writer_axioms
        _ _ _ _ _ _ _ _ _ _ buffer_stream.stream_contract_axioms demo_peer])
    show "fits ?p" using p by (simp add: fits_def header_size_def PACKET_SIZE_LIMIT_def)
    show "sconn_read demo_server_net buffer_stream (with_work False False ?d) 0 = (with_work False False ?d, 0)"
      by (simp add: sconn_read_def with_work_def)
    show "CHR ''@'' \<notin> set (addr_show demo_server_net (addr_set_port demo_server_net (pkt_port ?p) ''h:5555''))"
      using show_nat_digits digits_not_at(1) by (auto simp: demo_server_net_def)
    show "frame_size ?p \<le> st_cap buffer_stream (cc_send_buf demo_conn)"
      using p by (simp add: demo_conn_def client_connected_def default_client_config_def buffer_stream_def)
  qed (simp_all add: demo_client_def demo_conn_def client_connected_def buffer_stream_def packet_new_def
      demo_work_def envelope_of_def with_work_def demo_sconn_def accepted_conn_def demo_buffer_def)
  moreover have "buf_bytes (sc_recv_buf (with_work False False ?d)) = packet_to_bytes list_writer ?p"
    by (simp add: with_work_def demo_sconn_def demo_buffer_def packet_to_bytes_frame [OF list_writer.big_endian_writer_axioms])
  ultimately show ?thesis by (auto simp: demo_server_net_def packet_new_def)
qed

end
